(* ===== verification/Go_Prelude.thy ===== *)
theory Go_Prelude
  imports Main "HOL-Library.Sublist" "HOL-Library.Multiset" "HOL-Library.Char_ord"
    "HOL-Library.List_Lexorder" "HOL-Library.Monad_Syntax"
begin

text \<open>
  The part of Go and of its standard library that the program uses on strings and integers,
  and the lemmas every component shares.

  A Go string or byte slice is a \<^typ>\<open>string\<close>: one \<^typ>\<open>char\<close> per byte, so \<^const>\<open>length\<close>
  is Go's \<^verbatim>\<open>len\<close>. \<open>TrimSpace\<close> knows the UTF-8 encodings of the Unicode white space
  characters, as \<^verbatim>\<open>strings.TrimSpace\<close> does. \<open>ToLower\<close> maps the letters A to Z and leaves the
  bytes from 0x80 on alone: the case tables of Unicode are outside the model.

  A computation that may panic has an \<^typ>\<open>'a option\<close> as its result, with \<^const>\<open>None\<close> for the
  panic; one that may return a Go error has a sum, with \<^const>\<open>Inl\<close> for the error.
\<close>

named_theorems go_simps \<open>equations that evaluate the string and integer operations\<close>
named_theorems go_len \<open>lengths of results\<close>

type_synonym 'a go = "'a option"

section \<open>Bytes\<close>

definition byte :: "char \<Rightarrow> nat" where
  "byte c = of_char c"

definition is_upper :: "char \<Rightarrow> bool" where
  "is_upper c \<longleftrightarrow> 65 \<le> byte c \<and> byte c \<le> 90"

definition is_lower :: "char \<Rightarrow> bool" where
  "is_lower c \<longleftrightarrow> 97 \<le> byte c \<and> byte c \<le> 122"

definition is_digit :: "char \<Rightarrow> bool" where
  "is_digit c \<longleftrightarrow> 48 \<le> byte c \<and> byte c \<le> 57"

definition lower_byte :: "char \<Rightarrow> char" where
  "lower_byte c = (if is_upper c then char_of (byte c + 32) else c)"

definition upper_byte :: "char \<Rightarrow> char" where
  "upper_byte c = (if is_lower c then char_of (byte c - 32) else c)"

definition ToLower :: "string \<Rightarrow> string" where
  "ToLower s = map lower_byte s"

lemma byte_char_of [simp]: "n < 256 \<Longrightarrow> byte (char_of n) = n"
  by (simp add: byte_def)

lemma byte_less_256 [simp]: "byte c < 256"
  by (simp add: byte_def)

lemma char_of_byte [simp]: "char_of (byte c) = c"
  by (simp add: byte_def)

lemma byte_inject: "byte c = byte d \<longleftrightarrow> c = d"
  by (simp add: byte_def)

lemma lower_byte_idem [simp]: "lower_byte (lower_byte c) = lower_byte c"
  by (auto simp: lower_byte_def is_upper_def)

lemma lower_byte_not_upper [simp]: "\<not> is_upper (lower_byte c)"
  by (auto simp: lower_byte_def is_upper_def)

lemma lower_upper_byte [simp]: "lower_byte (upper_byte c) = lower_byte c"
proof (cases "is_lower c")
  case True
  then have up: "upper_byte c = char_of (byte c - 32)" and b: "97 \<le> byte c" "byte c \<le> 122"
    by (auto simp: upper_byte_def is_lower_def)
  then have u: "byte (upper_byte c) = byte c - 32" by simp
  with b have "is_upper (upper_byte c)" unfolding is_upper_def by linarith
  with b u have "lower_byte (upper_byte c) = char_of (byte c)"
    by (simp add: lower_byte_def)
  moreover have "lower_byte c = c" using b by (simp add: lower_byte_def is_upper_def)
  ultimately show ?thesis by simp
qed (simp add: upper_byte_def)

lemma ToLower_simps [simp, go_simps]:
  "ToLower [] = []"
  "ToLower (c # s) = lower_byte c # ToLower s"
  "ToLower (s @ t) = ToLower s @ ToLower t"
  by (simp_all add: ToLower_def)

lemma ToLower_idem [simp]: "ToLower (ToLower s) = ToLower s"
  by (induction s) auto

lemma length_ToLower [simp, go_len]: "length (ToLower s) = length s"
  by (simp add: ToLower_def)

lemma ToLower_eq_Nil [simp]: "ToLower s = [] \<longleftrightarrow> s = []"
  by (simp add: ToLower_def)

section \<open>Prefixes, suffixes and indices\<close>

definition HasPrefix :: "string \<Rightarrow> string \<Rightarrow> bool" where
  "HasPrefix s p \<longleftrightarrow> take (length p) s = p"

definition HasSuffix :: "string \<Rightarrow> string \<Rightarrow> bool" where
  "HasSuffix s p \<longleftrightarrow> length p \<le> length s \<and> drop (length s - length p) s = p"

definition TrimPrefix :: "string \<Rightarrow> string \<Rightarrow> string" where
  "TrimPrefix s p = (if HasPrefix s p then drop (length p) s else s)"

text \<open>The index of the first occurrence of a byte; Go's -1 is \<^const>\<open>None\<close>.\<close>

fun IndexByte :: "string \<Rightarrow> char \<Rightarrow> nat option" where
  "IndexByte [] c = None"
| "IndexByte (d # s) c = (if d = c then Some 0 else map_option Suc (IndexByte s c))"

lemma HasPrefix_simps [simp, go_simps]:
  "HasPrefix s []"
  "HasPrefix [] (c # p) = False"
  "HasPrefix (d # s) (c # p) = (d = c \<and> HasPrefix s p)"
  by (auto simp: HasPrefix_def)

lemma HasPrefix_hd: "HasPrefix s p \<Longrightarrow> p \<noteq> [] \<Longrightarrow> s \<noteq> [] \<and> hd s = hd p"
  by (cases s; cases p) auto

lemma HasPrefix_append [simp]: "HasPrefix (p @ s) p"
  by (simp add: HasPrefix_def)

lemma HasSuffix_append [simp]: "HasSuffix (s @ p) p"
  by (simp add: HasSuffix_def)

lemma HasPrefix_split: "HasPrefix s p \<Longrightarrow> s = p @ drop (length p) s"
  by (metis HasPrefix_def append_take_drop_id)

lemma HasSuffix_split: "HasSuffix s p \<Longrightarrow> s = take (length s - length p) s @ p"
  by (metis HasSuffix_def append_take_drop_id)

lemma HasSuffix_rev: "HasSuffix s p \<longleftrightarrow> HasPrefix (rev s) (rev p)"
proof
  assume "HasSuffix s p"
  then obtain u where "s = u @ p" using HasSuffix_split by blast
  then show "HasPrefix (rev s) (rev p)" by simp
next
  assume "HasPrefix (rev s) (rev p)"
  then obtain u where "rev s = rev p @ u" using HasPrefix_split by blast
  then have "s = rev u @ p" by (metis rev_append rev_rev_ident)
  then show "HasSuffix s p" by simp
qed

lemma IndexByte_None_iff [simp]: "IndexByte s c = None \<longleftrightarrow> c \<notin> set s"
  by (induction s) auto

lemma IndexByte_SomeD:
  "IndexByte s c = Some i \<Longrightarrow> i < length s \<and> s ! i = c \<and> c \<notin> set (take i s)"
proof (induction s arbitrary: i)
  case (Cons d s)
  then show ?case by (cases "d = c") auto
qed simp

lemma IndexByte_split:
  assumes "IndexByte s c = Some i"
  shows "s = take i s @ c # drop (Suc i) s"
  using IndexByte_SomeD[OF assms] id_take_nth_drop[of i s] by auto

lemma IndexByte_append [simp]:
  "c \<notin> set s \<Longrightarrow> IndexByte (s @ c # t) c = Some (length s)"
  by (induction s) auto

section \<open>Splitting and joining\<close>

text \<open>\<^verbatim>\<open>strings.Split\<close> with a separator of one byte: never an empty list.\<close>

fun Split :: "string \<Rightarrow> char \<Rightarrow> string list" where
  "Split [] c = [[]]"
| "Split (d # s) c =
     (if d = c then [] # Split s c
      else case Split s c of [] \<Rightarrow> [[d]] | w # ws \<Rightarrow> (d # w) # ws)"

fun Join :: "string list \<Rightarrow> string \<Rightarrow> string" where
  "Join [] sep = []"
| "Join [w] sep = w"
| "Join (w # v # ws) sep = w @ sep @ Join (v # ws) sep"

lemma Split_not_Nil [simp]: "Split s c \<noteq> []"
  by (cases s) (auto split: list.split)

lemma Join_Split [simp]: "Join (Split s c) [c] = s"
proof (induction s)
  case (Cons d s)
  obtain w ws where sp: "Split s c = w # ws" by (cases "Split s c") auto
  with Cons show ?case by (cases ws) auto
qed simp

lemma Split_parts_no_sep: "w \<in> set (Split s c) \<Longrightarrow> c \<notin> set w"
proof (induction s arbitrary: w)
  case (Cons d s)
  obtain v vs where sp: "Split s c = v # vs" by (cases "Split s c") auto
  with Cons show ?case by (auto split: if_splits)
qed simp

lemma Split_no_sep: "c \<notin> set w \<Longrightarrow> Split w c = [w]"
  by (induction w) auto

lemma Split_append: "c \<notin> set w \<Longrightarrow> Split (w @ c # s) c = w # Split s c"
proof (induction w)
  case (Cons d w)
  then show ?case by (cases "Split s c") auto
qed simp

lemma Split_Join:
  "ws \<noteq> [] \<Longrightarrow> (\<And>w. w \<in> set ws \<Longrightarrow> c \<notin> set w) \<Longrightarrow> Split (Join ws [c]) c = ws"
  by (induction ws "[c]" rule: Join.induct) (auto simp: Split_no_sep Split_append)

definition Repeat :: "char \<Rightarrow> nat \<Rightarrow> string" where
  "Repeat c n = replicate n c"

section \<open>Quoting\<close>

text \<open>\<^verbatim>\<open>strconv.Quote\<close>, the verb \<^verbatim>\<open>%q\<close>. Bytes from 0x80 on are taken as parts of printable
  characters and copied.\<close>

definition hex_digit :: "nat \<Rightarrow> char" where
  "hex_digit d = (if d < 10 then char_of (48 + d) else char_of (87 + d))"

definition quote_byte :: "char \<Rightarrow> string" where
  "quote_byte c =
     (if c = CHR 0x22 \<or> c = CHR 0x5C then [CHR 0x5C, c]
      else if byte c = 7 then [CHR 0x5C, CHR ''a'']
      else if byte c = 8 then [CHR 0x5C, CHR ''b'']
      else if byte c = 12 then [CHR 0x5C, CHR ''f'']
      else if byte c = 10 then [CHR 0x5C, CHR ''n'']
      else if byte c = 13 then [CHR 0x5C, CHR ''r'']
      else if byte c = 9 then [CHR 0x5C, CHR ''t'']
      else if byte c = 11 then [CHR 0x5C, CHR ''v'']
      else if byte c < 32 \<or> byte c = 127 then
        [CHR 0x5C, CHR ''x'', hex_digit (byte c div 16), hex_digit (byte c mod 16)]
      else [c])"

definition Quote :: "string \<Rightarrow> string" where
  "Quote s = CHR 0x22 # concat (map quote_byte s) @ [CHR 0x22]"

section \<open>White space\<close>

text \<open>The UTF-8 encodings of the runes for which \<^verbatim>\<open>unicode.IsSpace\<close> holds.\<close>

definition spaces :: "string list" where
  "spaces =
     [[CHR 0x09], [CHR 0x0A], [CHR 0x0B], [CHR 0x0C], [CHR 0x0D], [CHR 0x20],
      [CHR 0xC2, CHR 0x85], [CHR 0xC2, CHR 0xA0], [CHR 0xE1, CHR 0x9A, CHR 0x80],
      [CHR 0xE2, CHR 0x80, CHR 0x80], [CHR 0xE2, CHR 0x80, CHR 0x81],
      [CHR 0xE2, CHR 0x80, CHR 0x82], [CHR 0xE2, CHR 0x80, CHR 0x83],
      [CHR 0xE2, CHR 0x80, CHR 0x84], [CHR 0xE2, CHR 0x80, CHR 0x85],
      [CHR 0xE2, CHR 0x80, CHR 0x86], [CHR 0xE2, CHR 0x80, CHR 0x87],
      [CHR 0xE2, CHR 0x80, CHR 0x88], [CHR 0xE2, CHR 0x80, CHR 0x89],
      [CHR 0xE2, CHR 0x80, CHR 0x8A], [CHR 0xE2, CHR 0x80, CHR 0xA8],
      [CHR 0xE2, CHR 0x80, CHR 0xA9], [CHR 0xE2, CHR 0x80, CHR 0xAF],
      [CHR 0xE2, CHR 0x81, CHR 0x9F], [CHR 0xE3, CHR 0x80, CHR 0x80]]"

lemma spaces_not_Nil: "[] \<notin> set spaces"
  by (simp add: spaces_def)

function trim_with :: "string list \<Rightarrow> string \<Rightarrow> string" where
  "trim_with ws s =
     (case find (\<lambda>w. w \<noteq> [] \<and> HasPrefix s w) ws of
        None \<Rightarrow> s
      | Some w \<Rightarrow> trim_with ws (drop (length w) s))"
  by pat_completeness auto
termination
proof (relation "measure (length \<circ> snd)")
  fix ws s w
  assume "find (\<lambda>w. w \<noteq> [] \<and> HasPrefix s w) ws = Some w"
  then have "w \<noteq> []" "HasPrefix s w" by (auto simp: find_Some_iff)
  then show "((ws, drop (length w) s), ws, s) \<in> measure (length \<circ> snd)"
    by (cases s; cases w) auto
qed simp

declare trim_with.simps [simp del]

definition TrimLeft :: "string \<Rightarrow> string" where
  "TrimLeft s = trim_with spaces s"

definition TrimSpace :: "string \<Rightarrow> string" where
  "TrimSpace s = rev (trim_with (map rev spaces) (rev (TrimLeft s)))"

lemma TrimSpace_Nil [simp, go_simps]: "TrimSpace [] = []"
  by (simp add: TrimSpace_def TrimLeft_def trim_with.simps spaces_def)

lemma trim_with_id: "(\<And>w. w \<in> set ws \<Longrightarrow> w \<noteq> [] \<Longrightarrow> \<not> HasPrefix s w) \<Longrightarrow> trim_with ws s = s"
  by (subst trim_with.simps) (auto split: option.split simp: find_Some_iff)

lemma trim_with_suffix: "suffix (trim_with ws s) s"
proof (induction ws s rule: trim_with.induct)
  case (1 ws s)
  show ?case
    by (subst trim_with.simps)
       (auto split: option.split intro: suffix_order.trans[OF "1"] suffix_drop)
qed

text \<open>A printable ASCII text with no white space at either end is left as it is.\<close>

definition is_graph :: "char \<Rightarrow> bool" where
  "is_graph c \<longleftrightarrow> 33 \<le> byte c \<and> byte c \<le> 126"

lemma spaces_edge:
  assumes "w \<in> set spaces"
  shows "\<not> is_graph (hd w) \<and> \<not> is_graph (last w)"
proof -
  have "list_all (\<lambda>w. \<not> is_graph (hd w) \<and> \<not> is_graph (last w)) spaces"
    by code_simp
  with assms show ?thesis by (auto simp: list_all_iff)
qed

lemma TrimSpace_id:
  assumes "s \<noteq> [] \<Longrightarrow> is_graph (hd s) \<and> is_graph (last s)"
  shows "TrimSpace s = s"
proof -
  have l: "trim_with spaces s = s"
  proof (rule trim_with_id)
    fix w assume "w \<in> set spaces" "w \<noteq> []"
    then show "\<not> HasPrefix s w"
      using assms spaces_edge[of w] HasPrefix_hd[of s w] by auto
  qed
  have "trim_with (map rev spaces) (rev s) = rev s"
  proof (rule trim_with_id)
    fix w assume "w \<in> set (map rev spaces)" "w \<noteq> []"
    then obtain v where v: "v \<in> set spaces" "w = rev v" "v \<noteq> []" by auto
    have "hd w = last v" using v by (simp add: hd_rev)
    moreover have "s \<noteq> [] \<Longrightarrow> hd (rev s) = last s" by (simp add: hd_rev)
    ultimately show "\<not> HasPrefix (rev s) w"
      using assms spaces_edge[OF v(1)] v HasPrefix_hd[of "rev s" w] \<open>w \<noteq> []\<close> by auto
  qed
  with l show ?thesis by (simp add: TrimSpace_def TrimLeft_def)
qed

section \<open>Integers\<close>

definition wrap64 :: "int \<Rightarrow> int" where
  "wrap64 i = (i + 2 ^ 63) mod 2 ^ 64 - 2 ^ 63"

definition int64 :: "int \<Rightarrow> bool" where
  "int64 i \<longleftrightarrow> - (2 ^ 63) \<le> i \<and> i < 2 ^ 63"

definition wrap32 :: "int \<Rightarrow> int" where
  "wrap32 i = (i + 2 ^ 31) mod 2 ^ 32 - 2 ^ 31"

lemma wrap64_id [simp]: "int64 i \<Longrightarrow> wrap64 i = i"
  by (simp add: wrap64_def int64_def)

lemma int64_wrap64 [simp]: "int64 (wrap64 i)"
  using pos_mod_bound[of "2 ^ 64" "i + 2 ^ 63"] by (simp add: wrap64_def int64_def)

lemma wrap64_over:
  assumes "2 ^ 63 \<le> i" "i < 2 ^ 64"
  shows "wrap64 i = i - 2 ^ 64"
proof -
  have "(i + 2 ^ 63) mod 2 ^ 64 = (i + 2 ^ 63 - 2 ^ 64) mod 2 ^ 64" by (simp only: minus_mod_self2)
  also have "\<dots> = i + 2 ^ 63 - 2 ^ 64" using assms by (intro mod_pos_pos_trivial) auto
  finally show ?thesis by (simp add: wrap64_def)
qed

lemma wrap32_id: "- (2 ^ 31) \<le> i \<Longrightarrow> i < 2 ^ 31 \<Longrightarrow> wrap32 i = i"
  by (simp add: wrap32_def)

datatype num_error = ErrSyntax | ErrRange

definition digit_val :: "char \<Rightarrow> int" where
  "digit_val c = int (byte c) - 48"

fun uint_loop :: "int \<Rightarrow> string \<Rightarrow> num_error + int" where
  "uint_loop n [] = Inr n"
| "uint_loop n (c # cs) =
     (if \<not> is_digit c then Inl ErrSyntax
      else let n' = 10 * n + digit_val c
           in if n' \<ge> 2 ^ 64 then Inl ErrRange else uint_loop n' cs)"

definition ParseUint :: "string \<Rightarrow> num_error + int" where
  "ParseUint s = (if s = [] then Inl ErrSyntax else uint_loop 0 s)"

text \<open>\<^verbatim>\<open>strconv.ParseInt(s, 10, 64)\<close>, which is also \<^verbatim>\<open>strconv.Atoi\<close> on a 64-bit machine.\<close>

definition ParseInt :: "string \<Rightarrow> num_error + int" where
  "ParseInt s =
     (case s of
        [] \<Rightarrow> Inl ErrSyntax
      | c # cs \<Rightarrow>
          let neg = (c = CHR ''-'');
              digits = (if c = CHR ''+'' \<or> c = CHR ''-'' then cs else s)
          in (case ParseUint digits of
                Inl e \<Rightarrow> Inl e
              | Inr un \<Rightarrow>
                  if \<not> neg \<and> un \<ge> 2 ^ 63 then Inl ErrRange
                  else if neg \<and> un > 2 ^ 63 then Inl ErrRange
                  else Inr (if neg then - un else un)))"

definition digit_char :: "nat \<Rightarrow> char" where
  "digit_char d = char_of (48 + d)"

fun nat_digits :: "nat \<Rightarrow> string" where
  "nat_digits n = (if n < 10 then [digit_char n] else nat_digits (n div 10) @ [digit_char (n mod 10)])"

declare nat_digits.simps [simp del]

definition Itoa :: "int \<Rightarrow> string" where
  "Itoa i = (if i < 0 then CHR ''-'' # nat_digits (nat (- i)) else nat_digits (nat i))"

lemma uint_loop_bound: "uint_loop n s = Inr m \<Longrightarrow> 0 \<le> n \<Longrightarrow> n < 2 ^ 64 \<Longrightarrow> 0 \<le> m \<and> m < 2 ^ 64"
proof (induction s arbitrary: n)
  case (Cons c s)
  then show ?case by (force simp: Let_def is_digit_def digit_val_def split: if_splits)
qed simp

lemma ParseInt_int64: "ParseInt s = Inr i \<Longrightarrow> int64 i"
proof (cases s)
  case (Cons c cs)
  assume "ParseInt s = Inr i"
  then obtain un where "ParseUint (if c = CHR ''+'' \<or> c = CHR ''-'' then cs else s) = Inr un"
    and i: "i = (if c = CHR ''-'' then - un else un)"
      "if c = CHR ''-'' then un \<le> 2 ^ 63 else un < 2 ^ 63"
    using Cons by (auto simp: ParseInt_def Let_def split: sum.splits if_splits)
  then have "0 \<le> un" by (auto simp: ParseUint_def dest!: uint_loop_bound split: if_splits)
  with i show ?thesis by (auto simp: int64_def split: if_splits)
qed (simp add: ParseInt_def)

lemma digit_char_simps [simp]:
  "d < 10 \<Longrightarrow> is_digit (digit_char d)"
  "d < 10 \<Longrightarrow> digit_val (digit_char d) = int d"
  "d < 10 \<Longrightarrow> byte (digit_char d) = 48 + d"
  by (simp_all add: digit_char_def is_digit_def digit_val_def)

lemma nat_digits_all_digits: "c \<in> set (nat_digits n) \<Longrightarrow> is_digit c"
proof (induction n rule: nat_digits.induct)
  case (1 n)
  then show ?case by (subst (asm) nat_digits.simps) (auto split: if_splits)
qed

lemma nat_digits_not_Nil [simp]: "nat_digits n \<noteq> []"
  by (subst nat_digits.simps) simp

lemma uint_loop_append:
  "uint_loop n (s @ t) = (case uint_loop n s of Inl e \<Rightarrow> Inl e | Inr m \<Rightarrow> uint_loop m t)"
  by (induction s arbitrary: n) (auto simp: Let_def)

lemma uint_loop_nat_digits: "int n < 2 ^ 64 \<Longrightarrow> uint_loop 0 (nat_digits n) = Inr (int n)"
proof (induction n rule: nat_digits.induct)
  case (1 n)
  show ?case
  proof (cases "n < 10")
    case True
    then show ?thesis by (simp add: nat_digits.simps[of n])
  next
    case False
    have "int (n div 10) < 2 ^ 64" using "1.prems" by linarith
    with False "1.IH" have ih: "uint_loop 0 (nat_digits (n div 10)) = Inr (int (n div 10))" by blast
    have eq: "10 * int (n div 10) + int (n mod 10) = int n" by presburger
    show ?thesis using False "1.prems" ih eq
      by (simp add: nat_digits.simps[of n] uint_loop_append Let_def)
  qed
qed

lemma uint_loop_not_digit:
  "\<not> list_all is_digit s \<Longrightarrow> \<exists>e. uint_loop n s = Inl e"
  by (induction s arbitrary: n) (auto simp: Let_def)

lemma ParseInt_not_digit:
  "\<not> list_all is_digit (tl s) \<Longrightarrow> \<exists>e. ParseInt s = Inl e"
proof (cases s)
  case (Cons c cs)
  assume "\<not> list_all is_digit (tl s)"
  with Cons have "\<not> list_all is_digit cs" "\<not> list_all is_digit s" by auto
  then have "\<exists>e. ParseUint (if c = CHR ''+'' \<or> c = CHR ''-'' then cs else s) = Inl e"
    using uint_loop_not_digit[of cs 0] uint_loop_not_digit[of s 0]
    by (cases "c = CHR ''+'' \<or> c = CHR ''-''") (simp_all add: ParseUint_def)
  then obtain e where "ParseUint (if c = CHR ''+'' \<or> c = CHR ''-'' then cs else s) = Inl e" ..
  with Cons show ?thesis by (auto simp: ParseInt_def Let_def)
qed simp

lemma Itoa_not_Nil [simp]: "Itoa i \<noteq> []"
  by (simp add: Itoa_def)

lemma Itoa_chars: "c \<in> set (Itoa i) \<Longrightarrow> is_digit c \<or> c = CHR ''-''"
  by (auto simp: Itoa_def nat_digits_all_digits split: if_splits)

lemma last_Itoa: "is_digit (last (Itoa i))"
  using nat_digits_all_digits[OF last_in_set[OF nat_digits_not_Nil]] by (simp add: Itoa_def)

lemma graph_digit: "is_digit c \<Longrightarrow> is_graph c"
  by (simp add: is_digit_def is_graph_def)

lemma hd_Itoa: "is_graph (hd (Itoa i))"
proof -
  have "hd (Itoa i) \<in> set (Itoa i)" by simp
  then show ?thesis using Itoa_chars graph_digit by (fastforce simp: is_graph_def byte_def)
qed

lemma TrimSpace_Itoa [simp]: "TrimSpace (Itoa i) = Itoa i"
  by (rule TrimSpace_id) (simp add: hd_Itoa last_Itoa graph_digit)

lemma ParseInt_Itoa: "int64 i \<Longrightarrow> ParseInt (Itoa i) = Inr i"
proof (cases "i < 0")
  case True
  assume r: "int64 i"
  with True have "uint_loop 0 (nat_digits (nat (- i))) = Inr (- i)"
    using uint_loop_nat_digits[of "nat (- i)"] by (simp add: int64_def)
  with True r show ?thesis by (simp add: Itoa_def ParseInt_def ParseUint_def int64_def)
next
  case False
  assume r: "int64 i"
  with False have u: "uint_loop 0 (nat_digits (nat i)) = Inr i"
    using uint_loop_nat_digits[of "nat i"] by (simp add: int64_def)
  obtain c cs where c: "nat_digits (nat i) = c # cs" by (cases "nat_digits (nat i)") auto
  then have "is_digit c" using nat_digits_all_digits[of c "nat i"] by simp
  then have "c \<noteq> CHR ''+'' \<and> c \<noteq> CHR ''-''" by (auto simp: is_digit_def byte_def)
  with False r u c show ?thesis by (simp add: Itoa_def ParseInt_def ParseUint_def int64_def)
qed

section \<open>Lists and maps\<close>

text \<open>A Go map is an association list with distinct keys; its order is the order in which a
  \<^verbatim>\<open>range\<close> loop happens to visit it, which Go leaves open.\<close>

fun map_put :: "'k \<Rightarrow> 'v \<Rightarrow> ('k \<times> 'v) list \<Rightarrow> ('k \<times> 'v) list" where
  "map_put k v [] = [(k, v)]"
| "map_put k v ((k', v') # m) = (if k' = k then (k, v) # m else (k', v') # map_put k v m)"

lemma map_of_map_put [simp]: "map_of (map_put k v m) = (map_of m)(k \<mapsto> v)"
  by (induction k v m rule: map_put.induct) auto

lemma keys_map_put [simp]: "fst ` set (map_put k v m) = insert k (fst ` set m)"
  by (induction k v m rule: map_put.induct) auto

lemma set_keys_map_put: "set (map fst (map_put k v m)) = insert k (set (map fst m))"
  using keys_map_put[of k v m] by simp

lemma distinct_map_put [simp]: "distinct (map fst m) \<Longrightarrow> distinct (map fst (map_put k v m))"
proof (induction k v m rule: map_put.induct)
  case (2 k v k' v' m)
  then show ?case by (auto simp: set_keys_map_put simp del: set_map)
qed simp

lemma map_put_new: "k \<notin> fst ` set m \<Longrightarrow> map_put k v m = m @ [(k, v)]"
  by (induction k v m rule: map_put.induct) auto

lemma mset_map_of_eq:
  assumes "mset xs = mset ys" "distinct (map fst xs)"
  shows "map_of xs = map_of ys"
proof -
  have d: "distinct (map fst ys)"
    using assms by (metis mset_eq_imp_distinct_iff mset_map)
  have "set xs = set ys" using assms(1) by (rule mset_eq_setD)
  with assms(2) d have "map_of xs k = Some v \<longleftrightarrow> map_of ys k = Some v" for k v
    by (simp add: map_of_eq_Some_iff)
  then show ?thesis by (metis ext not_None_eq)
qed

section \<open>Loops that stop at the first error\<close>

fun mapE :: "(nat \<Rightarrow> 's \<Rightarrow> 'a \<Rightarrow> 'e + ('b \<times> 's)) \<Rightarrow> nat \<Rightarrow> 's \<Rightarrow> 'a list \<Rightarrow> 'e + ('b list \<times> 's)" where
  "mapE f i s [] = Inr ([], s)"
| "mapE f i s (x # xs) =
     (case f i s x of
        Inl e \<Rightarrow> Inl e
      | Inr (y, s') \<Rightarrow>
          (case mapE f (Suc i) s' xs of
             Inl e \<Rightarrow> Inl e
           | Inr (ys, s'') \<Rightarrow> Inr (y # ys, s'')))"

lemma mapE_rule:
  assumes "mapE f i s xs = Inr (ys, s')" "I s"
    "\<And>j t x y t'. x \<in> set xs \<Longrightarrow> I t \<Longrightarrow> f j t x = Inr (y, t') \<Longrightarrow> I t' \<and> R x y"
  shows "I s' \<and> list_all2 R xs ys"
  using assms
proof (induction f i s xs arbitrary: ys rule: mapE.induct)
  case (2 f i s x xs)
  from "2.prems"(1) obtain y t ys' where f: "f i s x = Inr (y, t)"
    "mapE f (Suc i) t xs = Inr (ys', s')" "ys = y # ys'"
    by (auto split: sum.splits prod.splits)
  have "I t \<and> R x y" using "2.prems"(3)[OF _ "2.prems"(2) f(1)] by simp
  moreover have "I s' \<and> list_all2 R xs ys'"
    using \<open>I t \<and> R x y\<close> "2.prems"(3) by (intro "2.IH"[OF f(1) refl f(2)]) (simp, meson list.set_intros(2))
  ultimately show ?case using f(3) by simp
qed auto

end
