(* ===== verification/Go_Values.thy ===== *)
theory Go_Values
  imports Go_Prelude
begin

text \<open>
  The dynamic values of the program (Go's \<^verbatim>\<open>any\<close>, as JSON, YAML and CEL produce them), the values
  a CEL evaluation returns, and \<^verbatim>\<open>http.Header\<close> with its interface as a locale.
\<close>

section \<open>Dynamic values\<close>

text \<open>One constructor per dynamic type the sources switch on. \<open>GFloat64\<close> carries the bits of the
  number, \<open>GRef\<close> is an interface holding a CEL \<^verbatim>\<open>ref.Val\<close> (with what its \<^verbatim>\<open>Value()\<close> returns) and
  \<open>GOther\<close> any other type, by its name.\<close>

datatype goval =
    GNil
  | GBool bool
  | GInt int
  | GInt32 int
  | GInt64 int
  | GFloat64 nat
  | GString string
  | GStrings "string list"                      \<comment> \<open>\<^verbatim>\<open>[]string\<close>\<close>
  | GSlice "goval list"                         \<comment> \<open>\<^verbatim>\<open>[]any\<close>\<close>
  | GRefSlice "goval list"                      \<comment> \<open>\<^verbatim>\<open>[]ref.Val\<close>, by the values\<close>
  | GMapSS "(string \<times> string) list"            \<comment> \<open>\<^verbatim>\<open>map[string]string\<close>\<close>
  | GMapSL "(string \<times> string list) list"       \<comment> \<open>\<^verbatim>\<open>map[string][]string\<close>\<close>
  | GMapSA "(string \<times> goval) list"             \<comment> \<open>\<^verbatim>\<open>map[string]any\<close>\<close>
  | GMapAA "(goval \<times> goval) list"              \<comment> \<open>\<^verbatim>\<open>map[any]any\<close>, \<^verbatim>\<open>map[ref.Val]ref.Val\<close>\<close>
  | GRef goval
  | GOther string

type_synonym vars = "(string \<times> goval) list"

text \<open>What a CEL program returns: the three types \<^verbatim>\<open>celenv\<close> switches on, and any other.\<close>

datatype refval = RefBool bool | RefString string | RefInt int | RefVal goval

fun ref_Value :: "refval \<Rightarrow> goval" where
  "ref_Value (RefBool b) = GBool b"
| "ref_Value (RefString s) = GString s"
| "ref_Value (RefInt i) = GInt64 i"
| "ref_Value (RefVal v) = v"

text \<open>\<^verbatim>\<open>fmt.Sprint\<close> of a map key. The formatting of the remaining comparable types (floats, times) is
  the parameter \<open>fmtv\<close>.\<close>

fun Sprint :: "(goval \<Rightarrow> string) \<Rightarrow> goval \<Rightarrow> string" where
  "Sprint fmtv GNil = ''<nil>''"
| "Sprint fmtv (GBool b) = (if b then ''true'' else ''false'')"
| "Sprint fmtv (GInt i) = Itoa i"
| "Sprint fmtv (GInt32 i) = Itoa i"
| "Sprint fmtv (GInt64 i) = Itoa i"
| "Sprint fmtv (GString s) = s"
| "Sprint fmtv v = fmtv v"

section \<open>Header maps\<close>

type_synonym header = "(string \<times> string list) list"

definition is_token :: "char \<Rightarrow> bool" where
  "is_token c \<longleftrightarrow> is_upper c \<or> is_lower c \<or> is_digit c \<or> c \<in> set ''!#$%&*+-.^_`|~'' \<or> byte c = 39"

fun canon_loop :: "bool \<Rightarrow> string \<Rightarrow> string" where
  "canon_loop up [] = []"
| "canon_loop up (c # s) =
     (if up then upper_byte c else lower_byte c) # canon_loop (c = CHR ''-'') s"

text \<open>\<^verbatim>\<open>textproto.CanonicalMIMEHeaderKey\<close>: a key with a byte that is no token byte stays as it is.\<close>

definition CanonicalHeaderKey :: "string \<Rightarrow> string" where
  "CanonicalHeaderKey k = (if list_all is_token k then canon_loop True k else k)"

definition HdrValues :: "header \<Rightarrow> string \<Rightarrow> string list" where
  "HdrValues h k = (case map_of h (CanonicalHeaderKey k) of None \<Rightarrow> [] | Some vs \<Rightarrow> vs)"

definition HdrGet :: "header \<Rightarrow> string \<Rightarrow> string" where
  "HdrGet h k = (case HdrValues h k of [] \<Rightarrow> [] | v # _ \<Rightarrow> v)"

definition HdrAdd :: "string \<Rightarrow> string \<Rightarrow> header \<Rightarrow> header" where
  "HdrAdd k v h = map_put (CanonicalHeaderKey k) (HdrValues h k @ [v]) h"

definition HdrSet :: "string \<Rightarrow> string \<Rightarrow> header \<Rightarrow> header" where
  "HdrSet k v h = map_put (CanonicalHeaderKey k) [v] h"

lemma lower_canon_loop [simp]: "ToLower (canon_loop up k) = ToLower k"
  by (induction up k rule: canon_loop.induct) auto

lemma lower_CanonicalHeaderKey [simp]: "ToLower (CanonicalHeaderKey k) = ToLower k"
  by (simp add: CanonicalHeaderKey_def)

lemma upper_lower_byte [simp]: "upper_byte (lower_byte c) = upper_byte c"
proof (cases "is_upper c")
  case True
  then have "byte (lower_byte c) = byte c + 32" and b: "65 \<le> byte c" "byte c \<le> 90"
    by (auto simp: lower_byte_def is_upper_def)
  then have "upper_byte (lower_byte c) = char_of (byte c)"
    by (auto simp: upper_byte_def is_lower_def)
  moreover have "upper_byte c = c" using b by (simp add: upper_byte_def is_lower_def)
  ultimately show ?thesis by simp
qed (simp add: lower_byte_def)

lemma lower_byte_dash [simp]: "lower_byte c = CHR ''-'' \<longleftrightarrow> c = CHR ''-''"
proof (cases "is_upper c")
  case True
  then have "byte (lower_byte c) \<noteq> byte (CHR ''-'')" and "byte c \<noteq> byte (CHR ''-'')"
    by (auto simp: lower_byte_def is_upper_def byte_def)
  then show ?thesis by (metis byte_inject)
qed (simp add: lower_byte_def)

lemma canon_loop_lower [simp]: "canon_loop up (ToLower k) = canon_loop up k"
  by (induction up k rule: canon_loop.induct) auto

text \<open>Names made of token bytes have one canonical form per case-insensitive name.\<close>

lemma CanonicalHeaderKey_eq_iff:
  assumes "list_all is_token k" "list_all is_token k'"
  shows "CanonicalHeaderKey k = CanonicalHeaderKey k' \<longleftrightarrow> ToLower k = ToLower k'"
  by (metis CanonicalHeaderKey_def assms canon_loop_lower lower_CanonicalHeaderKey)

subsection \<open>The interface of a header map\<close>

text \<open>What the servers rely on: values are looked up under the canonical name, \<open>hadd\<close> appends,
  \<open>hset\<close> replaces, and \<open>hget\<close> is the first value or the empty string.\<close>

locale header_map =
  fixes hempty :: 'h
    and hadd :: "string \<Rightarrow> string \<Rightarrow> 'h \<Rightarrow> 'h"
    and hset :: "string \<Rightarrow> string \<Rightarrow> 'h \<Rightarrow> 'h"
    and hvalues :: "'h \<Rightarrow> string \<Rightarrow> string list"
    and hget :: "'h \<Rightarrow> string \<Rightarrow> string"
    and canon :: "string \<Rightarrow> string"
  assumes values_empty: "hvalues hempty k = []"
    and values_add: "hvalues (hadd k v h) k' =
          (if canon k' = canon k then hvalues h k' @ [v] else hvalues h k')"
    and values_set: "hvalues (hset k v h) k' =
          (if canon k' = canon k then [v] else hvalues h k')"
    and get_values: "hget h k = (case hvalues h k of [] \<Rightarrow> [] | v # _ \<Rightarrow> v)"
begin

lemma get_empty: "hget hempty k = []"
  by (simp add: get_values values_empty)

lemma get_set: "hget (hset k v h) k' = (if canon k' = canon k then v else hget h k')"
  by (simp add: get_values values_set)

lemma get_add_other: "canon k' \<noteq> canon k \<Longrightarrow> hget (hadd k v h) k' = hget h k'"
  by (simp add: get_values values_add)

lemma get_add_fresh: "hvalues h k = [] \<Longrightarrow> hget (hadd k v h) k = v"
  by (simp add: get_values values_add)

text \<open>A sequence of additions collects, under each name, the values added for it, in order.\<close>

lemma values_add_all:
  "hvalues (fold (\<lambda>(k, v). hadd k v) kvs h) k =
     hvalues h k @ map snd (filter (\<lambda>(k', _). canon k' = canon k) kvs)"
proof (induction kvs arbitrary: h)
  case (Cons kv kvs)
  then show ?case by (cases kv) (auto simp: values_add)
qed simp

lemma values_collect:
  "hvalues (fold (\<lambda>(k, v). hadd k v) kvs hempty) k =
     map snd (filter (\<lambda>(k', _). canon k' = canon k) kvs)"
  by (simp add: values_add_all values_empty)

end

interpretation hdr: header_map "[]" HdrAdd HdrSet HdrValues HdrGet CanonicalHeaderKey
  by unfold_locales (auto simp: HdrValues_def HdrAdd_def HdrSet_def HdrGet_def)

text \<open>Every key of a header map built by the operations is canonical, and no key occurs twice.\<close>

definition wf_header :: "header \<Rightarrow> bool" where
  "wf_header h \<longleftrightarrow> distinct (map fst h) \<and> (\<forall>k \<in> fst ` set h. \<exists>k0. k = CanonicalHeaderKey k0)"

lemma wf_header_Nil [simp, intro]: "wf_header []"
  by (simp add: wf_header_def)

lemma wf_header_HdrAdd [intro]: "wf_header h \<Longrightarrow> wf_header (HdrAdd k v h)"
  by (auto simp: wf_header_def HdrAdd_def)

lemma wf_header_HdrSet [intro]: "wf_header h \<Longrightarrow> wf_header (HdrSet k v h)"
  by (auto simp: wf_header_def HdrSet_def)

lemma wf_header_fold_add: "wf_header h \<Longrightarrow> wf_header (fold (\<lambda>(k, v). HdrAdd k v) kvs h)"
  by (induction kvs arbitrary: h) auto

end
