(* ===== verification/Celenv.thy ===== *)
theory Celenv
  imports Go_Values
begin

text \<open>
  \<^verbatim>\<open>internal/celenv/env.go\<close>: the two CEL environments, the program cache, the four typed
  compilers and the four typed evaluators. The CEL library itself is the record \<open>cel_lib\<close> of
  operations the package calls; a compiled program is its \<^verbatim>\<open>ContextEval\<close> method, a function of the
  context and of the variables. The context stands for everything outside the variables that an
  evaluation may read: cancellation and the clock.
\<close>

section \<open>The CEL library\<close>

datatype celtype =
    CelDyn | CelBool | CelString | CelInt | CelTimestamp | CelList celtype
  | CelMap celtype celtype | CelOther string

type_synonym 'c prog = "'c \<Rightarrow> vars \<Rightarrow> string + refval"

record ('e, 'a, 'c) cel_lib =
  NewEnv :: "(string \<times> celtype) list \<Rightarrow> string list \<Rightarrow> string + 'e"
  EnvCompile :: "'e \<Rightarrow> string \<Rightarrow> string + 'a"
  OutputType :: "'a \<Rightarrow> celtype"
  EnvProgram :: "'e \<Rightarrow> 'a \<Rightarrow> string + 'c prog"

section \<open>Environments and the cache\<close>

type_synonym scope = int

definition ScopeRequest :: scope where "ScopeRequest = 0"
definition ScopeResponse :: scope where "ScopeResponse = 1"

type_synonym cacheKey = "scope \<times> string \<times> string"

record ('e, 'c) env =
  requestEnv :: 'e
  responseEnv :: 'e
  cache :: "cacheKey \<rightharpoonup> 'c prog"

datatype cel_error =
    BuildEnv string string
  | UnknownScope scope
  | CompileError string scope string
  | WrongType celtype celtype string
  | ProgramError string string

text \<open>The extensions and the program's own libraries, in the order in which they are enabled.\<close>

definition commonOpts :: "string list" where
  "commonOpts =
     [''ext.Strings'', ''ext.Encoders'', ''ext.Lists'', ''ext.Sets'', ''ext.Math'', ''ext.Bindings'',
      ''rv.net'', ''rv.strings'', ''rv.encoding'', ''rv.time'', ''rv.data'', ''rv.http'']"

definition celenv_New :: "('e, 'a, 'c) cel_lib \<Rightarrow> cel_error + ('e, 'c) env" where
  "celenv_New lib =
     (case NewEnv lib [(''request'', CelDyn), (''facts'', CelDyn)] commonOpts of
        Inl e \<Rightarrow> Inl (BuildEnv ''request'' e)
      | Inr reqEnv \<Rightarrow>
          (case NewEnv lib [(''request'', CelDyn), (''response'', CelDyn), (''facts'', CelDyn)]
                  commonOpts of
             Inl e \<Rightarrow> Inl (BuildEnv ''response'' e)
           | Inr respEnv \<Rightarrow>
               Inr \<lparr>requestEnv = reqEnv, responseEnv = respEnv, cache = Map.empty\<rparr>))"

definition envForScope :: "('e, 'c) env \<Rightarrow> scope \<Rightarrow> cel_error + 'e" where
  "envForScope e sc =
     (if sc = ScopeRequest then Inr (requestEnv e)
      else if sc = ScopeResponse then Inr (responseEnv e)
      else Inl (UnknownScope sc))"

text \<open>The compilation proper, after the cache missed.\<close>

definition compile_fresh ::
    "('e, 'a, 'c) cel_lib \<Rightarrow> ('e, 'c) env \<Rightarrow> string \<Rightarrow> scope \<Rightarrow> celtype \<Rightarrow> cel_error + 'c prog" where
  "compile_fresh lib e src sc expected =
     (case envForScope e sc of
        Inl err \<Rightarrow> Inl err
      | Inr cenv \<Rightarrow>
          (case EnvCompile lib cenv src of
             Inl iss \<Rightarrow> Inl (CompileError src sc iss)
           | Inr ast \<Rightarrow>
               let t = OutputType lib ast
               in if t \<noteq> expected \<and> t \<noteq> CelDyn then Inl (WrongType expected t src)
                  else (case EnvProgram lib cenv ast of
                          Inl err \<Rightarrow> Inl (ProgramError src err)
                        | Inr prog \<Rightarrow> Inr prog)))"

definition env_compile ::
    "('e, 'a, 'c) cel_lib \<Rightarrow> string \<Rightarrow> scope \<Rightarrow> string \<Rightarrow> celtype \<Rightarrow> ('e, 'c) env \<Rightarrow>
     (cel_error + 'c prog) \<times> ('e, 'c) env" where
  "env_compile lib src sc kind expected e =
     (let key = (sc, kind, src)
      in case cache e key of
           Some p \<Rightarrow> (Inr p, e)
         | None \<Rightarrow>
             (case compile_fresh lib e src sc expected of
                Inl err \<Rightarrow> (Inl err, e)
              | Inr prog \<Rightarrow> (Inr prog, e\<lparr>cache := (cache e)(key \<mapsto> prog)\<rparr>)))"

definition Compile where
  "Compile lib src sc e = env_compile lib src sc ''bool'' CelBool e"

definition CompileString where
  "CompileString lib src sc e = env_compile lib src sc ''string'' CelString e"

definition CompileInt where
  "CompileInt lib src sc e = env_compile lib src sc ''int'' CelInt e"

definition CompileStringMap where
  "CompileStringMap lib src sc e = env_compile lib src sc ''stringmap'' (CelMap CelString CelString) e"

section \<open>Evaluators\<close>

text \<open>\<^verbatim>\<open>%T\<close> of a dynamic value.\<close>

fun type_name :: "goval \<Rightarrow> string" where
  "type_name GNil = ''<nil>''"
| "type_name (GBool _) = ''bool''"
| "type_name (GInt _) = ''int''"
| "type_name (GInt32 _) = ''int32''"
| "type_name (GInt64 _) = ''int64''"
| "type_name (GFloat64 _) = ''float64''"
| "type_name (GString _) = ''string''"
| "type_name (GStrings _) = ''[]string''"
| "type_name (GSlice _) = ''[]interface {}''"
| "type_name (GRefSlice _) = ''[]ref.Val''"
| "type_name (GMapSS _) = ''map[string]string''"
| "type_name (GMapSL _) = ''map[string][]string''"
| "type_name (GMapSA _) = ''map[string]interface {}''"
| "type_name (GMapAA _) = ''map[interface {}]interface {}''"
| "type_name (GRef _) = ''ref.Val''"
| "type_name (GOther t) = t"

text \<open>A nil program panics when its method is called.\<close>

definition Eval :: "'c \<Rightarrow> 'c prog option \<Rightarrow> vars \<Rightarrow> (string + bool) go" where
  "Eval ctx prog vars =
     (case prog of
        None \<Rightarrow> None
      | Some p \<Rightarrow> Some
          (case p ctx vars of
             Inl err \<Rightarrow> Inl err
           | Inr out \<Rightarrow>
               (case ref_Value out of
                  GBool b \<Rightarrow> Inr b
                | v \<Rightarrow> Inl (''expression did not evaluate to a bool, got '' @ type_name v))))"

definition EvalString :: "'c \<Rightarrow> 'c prog option \<Rightarrow> vars \<Rightarrow> (string + string) go" where
  "EvalString ctx prog vars =
     (case prog of
        None \<Rightarrow> None
      | Some p \<Rightarrow> Some
          (case p ctx vars of
             Inl err \<Rightarrow> Inl err
           | Inr out \<Rightarrow>
               (case ref_Value out of
                  GString s \<Rightarrow> Inr s
                | v \<Rightarrow> Inl (''expression did not evaluate to a string, got '' @ type_name v))))"

definition EvalInt :: "'c \<Rightarrow> 'c prog option \<Rightarrow> vars \<Rightarrow> (string + int) go" where
  "EvalInt ctx prog vars =
     (case prog of
        None \<Rightarrow> None
      | Some p \<Rightarrow> Some
          (case p ctx vars of
             Inl err \<Rightarrow> Inl err
           | Inr out \<Rightarrow>
               (case ref_Value out of
                  GInt64 i \<Rightarrow> Inr i
                | GInt i \<Rightarrow> Inr i
                | GInt32 i \<Rightarrow> Inr i
                | v \<Rightarrow> Inl (''expression did not evaluate to an int, got '' @ type_name v))))"

text \<open>The entries of a value whose reflected kind is a map, in the order of the iteration.\<close>

fun map_entries :: "goval \<Rightarrow> (goval \<times> goval) list option" where
  "map_entries (GMapSS m) = Some (map (\<lambda>(k, v). (GString k, GString v)) m)"
| "map_entries (GMapSL m) = Some (map (\<lambda>(k, v). (GString k, GStrings v)) m)"
| "map_entries (GMapSA m) = Some (map (\<lambda>(k, v). (GString k, v)) m)"
| "map_entries (GMapAA m) = Some m"
| "map_entries v = None"

fun unref :: "goval \<Rightarrow> goval" where
  "unref (GRef v) = v"
| "unref v = v"

fun string_map_loop :: "(goval \<times> goval) list \<Rightarrow> (string \<times> string) list \<Rightarrow>
    string + (string \<times> string) list" where
  "string_map_loop [] res = Inr res"
| "string_map_loop ((k, v) # es) res =
     (case unref k of
        GString ks \<Rightarrow>
          (case unref v of
             GString vs \<Rightarrow> string_map_loop es (map_put ks vs res)
           | w \<Rightarrow> Inl (''directResponse headers must be map<string,string>, value for key '' @
                        Quote ks @ '' is '' @ type_name w))
      | w \<Rightarrow> Inl (''directResponse headers must be map<string,string>, key is not a string (got '' @
                   type_name w @ '')''))"

definition EvalStringMap ::
    "'c \<Rightarrow> 'c prog option \<Rightarrow> vars \<Rightarrow> (string + (string \<times> string) list) go" where
  "EvalStringMap ctx prog vars =
     (case prog of
        None \<Rightarrow> None
      | Some p \<Rightarrow> Some
          (case p ctx vars of
             Inl err \<Rightarrow> Inl err
           | Inr out \<Rightarrow>
               (let val = ref_Value out
                in if val = GNil then Inl ''expression evaluated to a nil value''
                   else (case map_entries val of
                           None \<Rightarrow> Inl (''expression did not evaluate to a map, got '' @ type_name val)
                         | Some es \<Rightarrow> string_map_loop es []))))"

lemma Eval_Some [simp]: "Eval ctx (Some p) vars \<noteq> None"
  and EvalString_Some [simp]: "EvalString ctx (Some p) vars \<noteq> None"
  and EvalInt_Some [simp]: "EvalInt ctx (Some p) vars \<noteq> None"
  and EvalStringMap_Some [simp]: "EvalStringMap ctx (Some p) vars \<noteq> None"
  by (simp_all add: Eval_def EvalString_def EvalInt_def EvalStringMap_def)

text \<open>A result of \<open>EvalStringMap\<close> has no key twice.\<close>

lemma string_map_loop_distinct:
  "string_map_loop es res = Inr m \<Longrightarrow> distinct (map fst res) \<Longrightarrow> distinct (map fst m)"
proof (induction es res rule: string_map_loop.induct)
  case (2 k v es res)
  then show ?case by (auto split: goval.splits)
qed simp

lemma EvalStringMap_distinct: "EvalStringMap ctx prog vars = Some (Inr m) \<Longrightarrow> distinct (map fst m)"
  by (auto simp: EvalStringMap_def Let_def split: option.splits sum.splits if_splits
      dest: string_map_loop_distinct)

section \<open>A memo table\<close>

text \<open>
  The contract of a cache in front of a computation: whatever the table holds, an answer is the
  answer of the computation, and the table stays valid. The program cache of the environment and
  the table of compiled glob patterns both have it.
\<close>

locale memo =
  fixes ask :: "'k \<Rightarrow> 's \<Rightarrow> 'r \<times> 's"
    and answer :: "'k \<Rightarrow> 'r"
    and valid :: "'s \<Rightarrow> bool"
  assumes ask_answer: "valid s \<Longrightarrow> fst (ask k s) = answer k"
    and ask_valid: "valid s \<Longrightarrow> valid (snd (ask k s))"
begin

fun asks :: "'k list \<Rightarrow> 's \<Rightarrow> 'r list \<times> 's" where
  "asks [] s = ([], s)"
| "asks (k # ks) s =
     (let (r, s') = ask k s; (rs, s'') = asks ks s' in (r # rs, s''))"

lemma asks_valid: "valid s \<Longrightarrow> valid (snd (asks ks s))"
  by (induction ks arbitrary: s) (auto simp: split_beta Let_def ask_valid)

lemma asks_answers: "valid s \<Longrightarrow> fst (asks ks s) = map answer ks"
  by (induction ks arbitrary: s) (auto simp: split_beta Let_def ask_valid ask_answer)

end

text \<open>The type that belongs to each kind of the cache key.\<close>

definition kind_type :: "string \<Rightarrow> celtype" where
  "kind_type kind =
     (if kind = ''bool'' then CelBool else if kind = ''string'' then CelString
      else if kind = ''int'' then CelInt else CelMap CelString CelString)"

definition same_envs :: "'e \<Rightarrow> 'e \<Rightarrow> ('e, 'c) env \<Rightarrow> bool" where
  "same_envs e1 e2 e \<longleftrightarrow> requestEnv e = e1 \<and> responseEnv e = e2"

definition fresh_answer ::
    "('e, 'a, 'c) cel_lib \<Rightarrow> 'e \<Rightarrow> 'e \<Rightarrow> cacheKey \<Rightarrow> cel_error + 'c prog" where
  "fresh_answer lib e1 e2 key =
     (case key of (sc, kind, src) \<Rightarrow>
        compile_fresh lib \<lparr>requestEnv = e1, responseEnv = e2, cache = Map.empty\<rparr> src sc
          (kind_type kind))"

definition cache_ok :: "('e, 'a, 'c) cel_lib \<Rightarrow> 'e \<Rightarrow> 'e \<Rightarrow> ('e, 'c) env \<Rightarrow> bool" where
  "cache_ok lib e1 e2 e \<longleftrightarrow> same_envs e1 e2 e \<and>
     (\<forall>key p. cache e key = Some p \<longrightarrow> fresh_answer lib e1 e2 key = Inr p)"

definition ask_env ::
    "('e, 'a, 'c) cel_lib \<Rightarrow> cacheKey \<Rightarrow> ('e, 'c) env \<Rightarrow> (cel_error + 'c prog) \<times> ('e, 'c) env" where
  "ask_env lib key e = (case key of (sc, kind, src) \<Rightarrow> env_compile lib src sc kind (kind_type kind) e)"

lemma compile_fresh_envs:
  "same_envs e1 e2 e \<Longrightarrow> compile_fresh lib e src sc (kind_type kind) = fresh_answer lib e1 e2 (sc, kind, src)"
  by (simp add: compile_fresh_def envForScope_def fresh_answer_def same_envs_def)

interpretation progs: memo "ask_env lib" "fresh_answer lib e1 e2" "cache_ok lib e1 e2"
  for lib :: "('e, 'a, 'c) cel_lib" and e1 e2
proof unfold_locales
  fix s :: "('e, 'c) env" and k :: cacheKey
  assume v: "cache_ok lib e1 e2 s"
  obtain sc kind src where k: "k = (sc, kind, src)" by (cases k)
  have env: "compile_fresh lib s src sc (kind_type kind) = fresh_answer lib e1 e2 k"
    using v k by (simp add: cache_ok_def compile_fresh_envs)
  show "fst (ask_env lib k s) = fresh_answer lib e1 e2 k"
    using v k env by (auto simp: ask_env_def env_compile_def cache_ok_def Let_def split: option.split sum.split)
  show "cache_ok lib e1 e2 (snd (ask_env lib k s))"
    using v k env
    by (auto simp: ask_env_def env_compile_def cache_ok_def Let_def same_envs_def
        split: option.split sum.split)
qed

lemma Compile_ask: "Compile lib src sc e = ask_env lib (sc, ''bool'', src) e"
  and CompileString_ask: "CompileString lib src sc e = ask_env lib (sc, ''string'', src) e"
  and CompileInt_ask: "CompileInt lib src sc e = ask_env lib (sc, ''int'', src) e"
  and CompileStringMap_ask: "CompileStringMap lib src sc e = ask_env lib (sc, ''stringmap'', src) e"
  by (simp_all add: Compile_def CompileString_def CompileInt_def CompileStringMap_def ask_env_def
      kind_type_def)

lemmas compile_asks = Compile_ask CompileString_ask CompileInt_ask CompileStringMap_ask

lemma celenv_New_ok: "celenv_New lib = Inr e \<Longrightarrow> cache_ok lib (requestEnv e) (responseEnv e) e"
  by (auto simp: celenv_New_def cache_ok_def same_envs_def split: sum.splits)

section \<open>Properties\<close>

text \<open>C21: The program cache is transparent: in an environment that was built by the constructor, any
  sequence of compilations, in any mix of scopes, result types and texts, gives the answers that
  compiling each text afresh in its scope would give, errors included.\<close>

theorem program_cache_transparent:
  assumes "celenv_New lib = Inr e"
  shows "fst (memo.asks (ask_env lib) keys e) =
    map (fresh_answer lib (requestEnv e) (responseEnv e)) keys"
  by (rule progs.asks_answers[OF celenv_New_ok[OF assms]])

text \<open>One text compiled as a condition, as a string and again as a condition.\<close>

definition toy_lib :: "(nat, string, unit) cel_lib" where
  "toy_lib = \<lparr>NewEnv = (\<lambda>vs _. Inr (length vs)), EnvCompile = (\<lambda>_ src. Inr src),
     OutputType = (\<lambda>_. CelBool), EnvProgram = (\<lambda>_ src. Inr (\<lambda>_ _. Inr (RefBool True)))\<rparr>"

theorem program_cache_transparent_witness:
  "\<exists>e. celenv_New toy_lib = Inr e \<and>
     map isl (fst (memo.asks (ask_env toy_lib) [(0, ''bool'', ''a''), (0, ''string'', ''a''), (0, ''bool'', ''a'')] e)) =
       [False, True, False]"
proof -
  obtain e where e: "celenv_New toy_lib = Inr e" by (simp add: celenv_New_def toy_lib_def)
  show ?thesis
    by (intro exI[of _ e] conjI e, unfold program_cache_transparent[OF e])
       (simp add: fresh_answer_def compile_fresh_def envForScope_def ScopeRequest_def kind_type_def
        toy_lib_def)
qed

end
