(* ===== verification/Facts.thy ===== *)
theory Facts
  imports Go_Values
begin

text \<open>
  \<^verbatim>\<open>internal/facts\<close>: the registry of named values. \<open>New\<close> checks the declarations, \<open>Start\<close> populates
  the file and URL entries and spawns one fetcher per URL entry, \<open>Snapshot\<close> reads the values, and
  \<open>Stop\<close> cancels the fetchers. The life of a started registry is the step relation \<open>reg_step\<close>: a
  fetcher refreshes its entry, fails to, or returns after its cancellation. The file system and the
  network are parameters.
\<close>

section \<open>Declarations\<close>

record filespec =
  FPath :: string

text \<open>Durations are nanoseconds.\<close>

record urlspec =
  Address :: string
  Interval :: int
  Timeout :: int
  UHeaders :: "(string \<times> string) list"

text \<open>\<open>SValue\<close> is \<^const>\<open>GNil\<close> for a nil interface.\<close>

record spec =
  SName :: string
  SMethod :: string
  SValue :: goval
  SFile :: "filespec option"
  SURL :: "urlspec option"

text \<open>The atomic pointer of an entry is an option; a fetcher is known by the name of its entry.
  \<open>cancels\<close> are the cancel functions the registry still holds, \<open>cancelled\<close> those that were called,
  and \<open>running\<close> the goroutines the wait group still counts.\<close>

record entry =
  espec :: spec
  evalue :: "goval option"

record registry =
  entries :: "(string \<times> entry) list"
  cancels :: "string list"
  cancelled :: "string list"
  running :: "string list"

datatype fact_error =
    MissingName nat
  | DuplicateName nat string
  | ValueHasSource string
  | FileNeedsPath string
  | FileHasOther string
  | URLNeedsAddress string
  | URLHasOther string
  | UnknownMethod string string
  | InitialFileRead string string
  | InitialFetch string string

section \<open>New\<close>

definition defaultInterval :: int where "defaultInterval = 600 * 10 ^ 9"
definition defaultTimeout :: int where "defaultTimeout = 15 * 10 ^ 9"

definition url_defaults :: "urlspec \<Rightarrow> urlspec" where
  "url_defaults u =
     (let u1 = (if Interval u \<le> 0 then u\<lparr>Interval := defaultInterval\<rparr> else u)
      in if Timeout u1 \<le> 0 then u1\<lparr>Timeout := defaultTimeout\<rparr> else u1)"

text \<open>The switch on the method: the checked declaration, with the defaults of a URL filled in.\<close>

definition check_spec :: "spec \<Rightarrow> fact_error + spec" where
  "check_spec s =
     (if SMethod s = ''value'' then
        if SFile s \<noteq> None \<or> SURL s \<noteq> None then Inl (ValueHasSource (SName s)) else Inr s
      else if SMethod s = ''file'' then
        if (case SFile s of None \<Rightarrow> True | Some f \<Rightarrow> FPath f = []) then Inl (FileNeedsPath (SName s))
        else if SValue s \<noteq> GNil \<or> SURL s \<noteq> None then Inl (FileHasOther (SName s))
        else Inr s
      else if SMethod s = ''url'' then
        (case SURL s of
           None \<Rightarrow> Inl (URLNeedsAddress (SName s))
         | Some u \<Rightarrow>
             if Address u = [] then Inl (URLNeedsAddress (SName s))
             else if SValue s \<noteq> GNil \<or> SFile s \<noteq> None then Inl (URLHasOther (SName s))
             else Inr (s\<lparr>SURL := Some (url_defaults u)\<rparr>))
      else Inl (UnknownMethod (SName s) (SMethod s)))"

definition new_entry :: "spec \<Rightarrow> entry" where
  "new_entry s = \<lparr>espec = s, evalue = (if SMethod s = ''value'' then Some (SValue s) else None)\<rparr>"

fun new_loop :: "nat \<Rightarrow> string list \<Rightarrow> spec list \<Rightarrow> (string \<times> entry) list \<Rightarrow>
    fact_error + (string \<times> entry) list" where
  "new_loop i seen [] es = Inr es"
| "new_loop i seen (s # ss) es =
     (if SName s = [] then Inl (MissingName i)
      else if SName s \<in> set seen then Inl (DuplicateName i (SName s))
      else (case check_spec s of
              Inl e \<Rightarrow> Inl e
            | Inr s' \<Rightarrow> new_loop (Suc i) (SName s # seen) ss (map_put (SName s) (new_entry s') es)))"

definition facts_New :: "spec list \<Rightarrow> fact_error + registry" where
  "facts_New specs =
     (case new_loop 0 [] specs [] of
        Inl e \<Rightarrow> Inl e
      | Inr es \<Rightarrow> Inr \<lparr>entries = es, cancels = [], cancelled = [], running = []\<rparr>)"

section \<open>Fetching\<close>

record http_get =
  GetURL :: string
  GetHeader :: header

text \<open>What the HTTP client gives: an error, or a status with a body that may fail to arrive.\<close>

record http_reply =
  StatusCode :: int
  StatusText :: string
  ReplyBody :: "string + string"

definition fetch ::
    "(string \<Rightarrow> string option) \<Rightarrow> (http_get \<Rightarrow> string + http_reply) \<Rightarrow> urlspec \<Rightarrow> string + string" where
  "fetch bad_url do_request u =
     (case bad_url (Address u) of
        Some err \<Rightarrow> Inl err
      | None \<Rightarrow>
          let h = fold (\<lambda>(k, v). HdrSet k v) (UHeaders u) (HdrSet ''User-Agent'' ''request-validator'' [])
          in (case do_request \<lparr>GetURL = Address u, GetHeader = h\<rparr> of
                Inl err \<Rightarrow> Inl err
              | Inr resp \<Rightarrow>
                  if StatusCode resp < 200 \<or> StatusCode resp \<ge> 300
                  then Inl (''non-2xx response: '' @ StatusText resp)
                  else ReplyBody resp))"

section \<open>Start, Stop and Snapshot\<close>

definition store_value :: "string \<Rightarrow> goval \<Rightarrow> registry \<Rightarrow> registry" where
  "store_value name v r =
     r\<lparr>entries := map (\<lambda>(n, e). if n = name then (n, e\<lparr>evalue := Some v\<rparr>) else (n, e)) (entries r)\<rparr>"

definition spawnURL :: "string \<Rightarrow> registry \<Rightarrow> registry" where
  "spawnURL name r = r\<lparr>cancels := cancels r @ [name], running := running r @ [name]\<rparr>"

text \<open>The loop of \<^verbatim>\<open>Start\<close> over the entries, in the order in which Go visits them. It stops at the
  first failure, with what was done until then done. A nil file or URL panics.\<close>

fun start_loop ::
    "(string \<Rightarrow> string + string) \<Rightarrow> (urlspec \<Rightarrow> string + string) \<Rightarrow> (string \<times> entry) list \<Rightarrow>
     registry \<Rightarrow> (fact_error option \<times> registry) go" where
  "start_loop read_file get [] r = Some (None, r)"
| "start_loop read_file get ((name, e) # es) r =
     (if SMethod (espec e) = ''file'' then
        (case SFile (espec e) of
           None \<Rightarrow> None
         | Some f \<Rightarrow>
             (case read_file (FPath f) of
                Inl err \<Rightarrow> Some (Some (InitialFileRead name err), r)
              | Inr b \<Rightarrow> start_loop read_file get es (store_value name (GString b) r)))
      else if SMethod (espec e) = ''url'' then
        (case SURL (espec e) of
           None \<Rightarrow> None
         | Some u \<Rightarrow>
             (case get u of
                Inl err \<Rightarrow> Some (Some (InitialFetch name err), r)
              | Inr b \<Rightarrow>
                  start_loop read_file get es (spawnURL name (store_value name (GString b) r))))
      else start_loop read_file get es r)"

definition facts_Start ::
    "(string \<Rightarrow> string + string) \<Rightarrow> (urlspec \<Rightarrow> string + string) \<Rightarrow> registry \<Rightarrow>
     (fact_error option \<times> registry) go" where
  "facts_Start read_file get r = start_loop read_file get (entries r) r"

definition Snapshot :: "registry \<Rightarrow> vars" where
  "Snapshot r = map (\<lambda>(n, e). (n, case evalue e of None \<Rightarrow> GNil | Some v \<Rightarrow> v)) (entries r)"

definition Names :: "registry \<Rightarrow> string list" where
  "Names r = map fst (entries r)"

text \<open>One turn of a fetcher at its tick.\<close>

definition refresh :: "(urlspec \<Rightarrow> string + string) \<Rightarrow> string \<Rightarrow> registry \<Rightarrow> registry" where
  "refresh get name r =
     (case map_of (entries r) name of
        None \<Rightarrow> r
      | Some e \<Rightarrow>
          (case SURL (espec e) of
             None \<Rightarrow> r
           | Some u \<Rightarrow>
               (case get u of
                  Inl _ \<Rightarrow> r
                | Inr b \<Rightarrow> store_value name (GString b) r)))"

text \<open>\<^verbatim>\<open>Stop\<close> takes the cancel functions and calls them; it returns when the wait group is empty.\<close>

definition stop_cancel :: "registry \<Rightarrow> registry" where
  "stop_cancel r = r\<lparr>cancels := [], cancelled := cancelled r @ cancels r\<rparr>"

text \<open>Every fetcher may tick at any time with any answer of the network, also between its
  cancellation and its return.\<close>

inductive reg_step :: "registry \<Rightarrow> registry \<Rightarrow> bool" where
  tick: "name \<in> set (running r) \<Longrightarrow> reg_step r (refresh get name r)"
| stop: "reg_step r (stop_cancel r)"
| return: "name \<in> set (running r) \<Longrightarrow> name \<in> set (cancelled r) \<Longrightarrow>
    reg_step r (r\<lparr>running := remove1 name (running r)\<rparr>)"

abbreviation reg_steps :: "registry \<Rightarrow> registry \<Rightarrow> bool" where
  "reg_steps \<equiv> reg_step\<^sup>*\<^sup>*"

section \<open>Well-formed and ready registries\<close>

definition spec_ok :: "spec \<Rightarrow> bool" where
  "spec_ok s \<longleftrightarrow>
     (SMethod s = ''value'' \<and> SFile s = None \<and> SURL s = None) \<or>
     (SMethod s = ''file'' \<and> (\<exists>f. SFile s = Some f \<and> FPath f \<noteq> []) \<and> SValue s = GNil \<and> SURL s = None) \<or>
     (SMethod s = ''url'' \<and> (\<exists>u. SURL s = Some u \<and> Address u \<noteq> []) \<and> SValue s = GNil \<and> SFile s = None)"

text \<open>What a checked declaration has besides: a URL entry can tick and its fetch can time out.\<close>

definition timed :: "spec \<Rightarrow> bool" where
  "timed s \<longleftrightarrow> (\<forall>u. SURL s = Some u \<longrightarrow> 0 < Interval u \<and> 0 < Timeout u)"

lemma check_spec_iff: "(\<exists>s'. check_spec s = Inr s') \<longleftrightarrow> spec_ok s"
  by (auto simp: check_spec_def spec_ok_def split: option.splits)

lemma check_spec_ok: "check_spec s = Inr s' \<Longrightarrow> spec_ok s' \<and> timed s' \<and> SName s' = SName s"
  by (auto simp: check_spec_def spec_ok_def timed_def url_defaults_def defaultInterval_def
      defaultTimeout_def Let_def split: option.splits if_splits)

definition wf_registry :: "registry \<Rightarrow> bool" where
  "wf_registry r \<longleftrightarrow> distinct (Names r) \<and>
     (\<forall>n e. map_of (entries r) n = Some e \<longrightarrow>
        n \<noteq> [] \<and> SName (espec e) = n \<and> spec_ok (espec e) \<and> timed (espec e) \<and>
        (SMethod (espec e) = ''value'' \<longrightarrow> evalue e = Some (SValue (espec e))))"

definition populated :: "registry \<Rightarrow> string \<Rightarrow> bool" where
  "populated r n \<longleftrightarrow> (\<exists>e s. map_of (entries r) n = Some e \<and> evalue e = Some (GString s))"

definition ready :: "registry \<Rightarrow> bool" where
  "ready r \<longleftrightarrow> wf_registry r \<and>
     (\<forall>n e. map_of (entries r) n = Some e \<longrightarrow> SMethod (espec e) \<noteq> ''value'' \<longrightarrow> populated r n)"

lemma wf_registryD:
  assumes "wf_registry r" "map_of (entries r) n = Some e"
  shows "n \<noteq> []" "SName (espec e) = n" "spec_ok (espec e)" "timed (espec e)"
    "SMethod (espec e) = ''value'' \<Longrightarrow> evalue e = Some (SValue (espec e))"
  using assms by (auto simp: wf_registry_def)

lemma new_loop_ok:
  "new_loop i seen ss es = Inr es' \<Longrightarrow> fst ` set es = set seen \<Longrightarrow>
     distinct (map SName ss) \<and> set (map SName ss) \<inter> set seen = {} \<and>
     list_all (\<lambda>s. SName s \<noteq> [] \<and> spec_ok s) ss \<and>
     es' = es @ map (\<lambda>s. (SName s, new_entry (projr (check_spec s)))) ss"
proof (induction i seen ss es rule: new_loop.induct)
  case (2 i seen s ss es)
  from "2.prems"(1) obtain s' where c: "SName s \<noteq> []" "SName s \<notin> set seen" "check_spec s = Inr s'"
    "new_loop (Suc i) (SName s # seen) ss (map_put (SName s) (new_entry s') es) = Inr es'"
    by (auto split: if_splits sum.splits)
  have "map_put (SName s) (new_entry s') es = es @ [(SName s, new_entry s')]"
    using c(2) "2.prems"(2) by (simp add: map_put_new)
  moreover have "spec_ok s" using c(3) check_spec_iff by blast
  ultimately show ?case
    using "2.IH"[OF c(1,2,3) c(4)] "2.prems"(2) c by auto
qed auto

lemma new_loop_fails:
  "new_loop i seen ss es = Inl err \<Longrightarrow>
     \<not> (distinct (map SName ss) \<and> set (map SName ss) \<inter> set seen = {} \<and>
        list_all (\<lambda>s. SName s \<noteq> [] \<and> spec_ok s) ss)"
proof (induction i seen ss es rule: new_loop.induct)
  case (2 i seen s ss es)
  show ?case
  proof (cases "SName s = [] \<or> SName s \<in> set seen \<or> \<not> spec_ok s")
    case False
    then obtain s' where "check_spec s = Inr s'" using check_spec_iff by blast
    with 2 False show ?thesis by auto
  qed auto
qed simp

lemma facts_New_entries:
  "facts_New specs = Inr r \<Longrightarrow>
     entries r = map (\<lambda>s. (SName s, new_entry (projr (check_spec s)))) specs \<and>
     distinct (map SName specs) \<and> list_all (\<lambda>s. SName s \<noteq> [] \<and> spec_ok s) specs \<and>
     cancels r = [] \<and> running r = [] \<and> cancelled r = []"
  by (auto simp: facts_New_def split: sum.splits dest!: new_loop_ok)

lemma facts_New_wf:
  assumes "facts_New specs = Inr r"
  shows "wf_registry r"
proof -
  note E = facts_New_entries[OF assms]
  have "distinct (Names r)" using E by (simp add: Names_def comp_def)
  moreover {
    fix n e assume "map_of (entries r) n = Some e"
    then have "(n, e) \<in> set (entries r)" by (rule map_of_SomeD)
    then obtain s where s: "s \<in> set specs" "n = SName s" "e = new_entry (projr (check_spec s))"
      using E by auto
    with E obtain s' where "check_spec s = Inr s'" and "SName s \<noteq> []"
      using check_spec_iff by (auto simp: list_all_iff)
    then have "n \<noteq> [] \<and> SName (espec e) = n \<and> spec_ok (espec e) \<and> timed (espec e) \<and>
        (SMethod (espec e) = ''value'' \<longrightarrow> evalue e = Some (SValue (espec e)))"
      using s check_spec_ok[of s s'] by (auto simp: new_entry_def)
  }
  ultimately show ?thesis by (auto simp: wf_registry_def)
qed

section \<open>Storing\<close>

lemma map_of_store_value:
  "map_of (entries (store_value n v r)) m =
     map_option (\<lambda>e. if m = n then e\<lparr>evalue := Some v\<rparr> else e) (map_of (entries r) m)"
proof -
  have "map_of (map (\<lambda>(k, e). if k = n then (k, e\<lparr>evalue := Some v\<rparr>) else (k, e)) es) m =
      map_option (\<lambda>e. if m = n then e\<lparr>evalue := Some v\<rparr> else e) (map_of es m)"
    for es :: "(string \<times> entry) list"
    by (induction es) auto
  then show ?thesis by (simp add: store_value_def)
qed

lemma Names_store_value [simp]: "Names (store_value n v r) = Names r"
proof -
  have "map fst (map (\<lambda>(k, e). if k = n then (k, e\<lparr>evalue := Some v\<rparr>) else (k, e)) es) = map fst es"
    for es :: "(string \<times> entry) list"
    by (induction es) auto
  then show ?thesis by (simp add: Names_def store_value_def)
qed

lemma store_value_fields [simp]:
  "cancels (store_value n v r) = cancels r"
  "cancelled (store_value n v r) = cancelled r"
  "running (store_value n v r) = running r"
  by (simp_all add: store_value_def)

lemma spawnURL_fields [simp]:
  "entries (spawnURL n r) = entries r"
  "cancels (spawnURL n r) = cancels r @ [n]"
  "running (spawnURL n r) = running r @ [n]"
  "cancelled (spawnURL n r) = cancelled r"
  by (simp_all add: spawnURL_def)

text \<open>Only entries that are no inline values are stored to.\<close>

definition external :: "registry \<Rightarrow> string \<Rightarrow> bool" where
  "external r n \<longleftrightarrow> (\<exists>e. map_of (entries r) n = Some e \<and> SMethod (espec e) \<noteq> ''value'')"

lemma wf_store_value:
  assumes "wf_registry r" "external r n"
  shows "wf_registry (store_value n v r)"
  unfolding wf_registry_def
proof (intro conjI allI impI)
  show "distinct (Names (store_value n v r))" using assms by (simp add: wf_registry_def)
  fix m e assume "map_of (entries (store_value n v r)) m = Some e"
  then obtain e0 where e0: "map_of (entries r) m = Some e0"
    "e = (if m = n then e0\<lparr>evalue := Some v\<rparr> else e0)"
    by (auto simp: map_of_store_value)
  note W = wf_registryD[OF assms(1) e0(1)]
  show "m \<noteq> []" "SName (espec e) = m" "spec_ok (espec e)" "timed (espec e)"
    using W e0 by auto
  assume "SMethod (espec e) = ''value''"
  with e0 assms(2) have "m \<noteq> n" by (auto simp: external_def split: if_splits)
  with W e0 \<open>SMethod (espec e) = ''value''\<close> show "evalue e = Some (SValue (espec e))" by auto
qed

lemma populated_store_value:
  "populated r m \<or> m = n \<and> external r n \<Longrightarrow> populated (store_value n (GString b) r) m"
  by (cases "m = n") (auto simp: populated_def external_def map_of_store_value)

lemma external_store_value [simp]: "external (store_value n v r) m = external r m"
  by (cases "m = n") (auto simp: external_def map_of_store_value)

text \<open>A registry is ready when it is well-formed and every external entry holds a string.\<close>

lemma ready_iff: "ready r \<longleftrightarrow> wf_registry r \<and> (\<forall>n. external r n \<longrightarrow> populated r n)"
  by (auto simp: ready_def external_def)

lemma ready_store_value:
  assumes "ready r" "external r n"
  shows "ready (store_value n (GString b) r)"
  using assms wf_store_value[OF _ assms(2)] populated_store_value by (auto simp: ready_iff)

section \<open>Starting\<close>

definition url_names :: "(string \<times> entry) list \<Rightarrow> string list" where
  "url_names es = map fst (filter (\<lambda>(n, e). SMethod (espec e) = ''url'') es)"

lemma url_names_simps [simp]:
  "url_names [] = []"
  "url_names ((n, e) # es) = (if SMethod (espec e) = ''url'' then n # url_names es else url_names es)"
  by (simp_all add: url_names_def)

definition spec_of :: "registry \<Rightarrow> string \<Rightarrow> spec option" where
  "spec_of r n = map_option espec (map_of (entries r) n)"

definition covers :: "registry \<Rightarrow> (string \<times> entry) list \<Rightarrow> bool" where
  "covers r es \<longleftrightarrow> (\<forall>(n, e) \<in> set es. spec_of r n = Some (espec e))"

lemma spec_of_store_value [simp]: "spec_of (store_value n v r) m = spec_of r m"
  by (cases "m = n") (auto simp: spec_of_def map_of_store_value option.map_comp comp_def)

lemma spec_of_external: "external r n \<longleftrightarrow> (\<exists>s. spec_of r n = Some s \<and> SMethod s \<noteq> ''value'')"
  by (auto simp: external_def spec_of_def)

lemma spec_of_ok: "wf_registry r \<Longrightarrow> spec_of r n = Some s \<Longrightarrow> spec_ok s"
  by (auto simp: spec_of_def dest: wf_registryD(3))

lemma covers_store_value: "covers r es \<Longrightarrow> covers (store_value n v r) es"
  by (simp add: covers_def)

lemma covers_spawnURL [simp]: "covers (spawnURL n r) es = covers r es"
  by (simp add: covers_def spec_of_def)

lemma wf_spawnURL [simp]: "wf_registry (spawnURL n r) = wf_registry r"
  by (simp add: wf_registry_def Names_def)

lemma populated_spawnURL [simp]: "populated (spawnURL n r) m = populated r m"
  by (simp add: populated_def)

lemma external_spawnURL [simp]: "external (spawnURL n r) m = external r m"
  by (simp add: external_def)

lemma Names_spawnURL [simp]: "Names (spawnURL n r) = Names r"
  by (simp add: Names_def)

lemma covers_external:
  "covers r ((n, e) # es) \<Longrightarrow> SMethod (espec e) \<noteq> ''value'' \<Longrightarrow> external r n"
  by (auto simp: covers_def spec_of_external)

text \<open>The state after some turns of the loop: nothing but stores to external entries and spawned
  fetchers.\<close>

definition grown :: "registry \<Rightarrow> registry \<Rightarrow> bool" where
  "grown r r' \<longleftrightarrow> Names r' = Names r \<and> cancelled r' = cancelled r \<and>
     (\<forall>n. external r' n = external r n) \<and> (\<forall>n. populated r n \<longrightarrow> populated r' n)"

lemma grown_refl [simp]: "grown r r"
  by (simp add: grown_def)

lemma grown_store_value: "external r n \<Longrightarrow> grown (store_value n (GString b) r) r' \<Longrightarrow> grown r r'"
  by (auto simp: grown_def populated_store_value)

lemma grown_spawnURL: "grown (spawnURL n r) r' \<Longrightarrow> grown r r'"
  by (simp add: grown_def)

text \<open>How far a start came: the entries before the first failure have their values and their fetchers.\<close>

definition started ::
    "(string \<times> entry) list \<Rightarrow> registry \<Rightarrow> fact_error option \<Rightarrow> registry \<Rightarrow> bool" where
  "started es r err r' \<longleftrightarrow> wf_registry r' \<and> grown r r' \<and>
    (\<exists>pre post. es = pre @ post \<and> (err = None \<longleftrightarrow> post = []) \<and>
       running r' = running r @ url_names pre \<and> cancels r' = cancels r @ url_names pre \<and>
       (\<forall>(n, e) \<in> set pre. SMethod (espec e) \<noteq> ''value'' \<longrightarrow> populated r' n))"

lemma started_Cons:
  assumes "started es r1 err r'" "grown r r'" "running r1 = running r @ url_names [(n, e)]"
    "cancels r1 = cancels r @ url_names [(n, e)]" "SMethod (espec e) \<noteq> ''value'' \<Longrightarrow> populated r1 n"
  shows "started ((n, e) # es) r err r'"
proof -
  from assms(1) obtain pre post where H: "es = pre @ post" "err = None \<longleftrightarrow> post = []"
    "running r' = running r1 @ url_names pre" "cancels r' = cancels r1 @ url_names pre"
    "\<forall>(n, e) \<in> set pre. SMethod (espec e) \<noteq> ''value'' \<longrightarrow> populated r' n"
    "wf_registry r'" "grown r1 r'" unfolding started_def by blast
  with assms(2-5) show ?thesis unfolding started_def
    by (intro conjI exI[of _ "(n, e) # pre"] exI[of _ post]) (auto simp: grown_def)
qed

lemma start_loop_spec:
  assumes "start_loop rf get es r = Some (err, r')" "wf_registry r" "covers r es"
  shows "started es r err r'"
  using assms
proof (induction rf get es r rule: start_loop.induct)
  case (1 rf get r)
  then show ?case by (auto simp: started_def)
next
  case (2 rf get n e es r)
  have cov: "covers r es" using "2.prems"(3) by (simp add: covers_def)
  note ext = covers_external[OF "2.prems"(3)]
  consider (Read) f b where "SMethod (espec e) = ''file''" "SFile (espec e) = Some f"
      "rf (FPath f) = Inr b"
      "start_loop rf get es (store_value n (GString b) r) = Some (err, r')"
    | (Fetched) u b where "SMethod (espec e) = ''url''" "SURL (espec e) = Some u" "get u = Inr b"
      "start_loop rf get es (spawnURL n (store_value n (GString b) r)) = Some (err, r')"
    | (Inline) "SMethod (espec e) \<noteq> ''file''" "SMethod (espec e) \<noteq> ''url''"
      "start_loop rf get es r = Some (err, r')"
    | (Failed) "r' = r" "err \<noteq> None"
    using "2.prems"(1) by (auto split: if_splits option.splits sum.splits)
  then show ?case
  proof cases
    case Read
    let ?r = "store_value n (GString b) r"
    have x: "external r n" using ext Read(1) by simp
    have S: "started es ?r err r'"
      using "2.IH"(1)[OF Read(1-4)] "2.prems"(2) x cov by (simp add: wf_store_value covers_store_value)
    then have "grown r r'" using grown_store_value[OF x] unfolding started_def by blast
    with S x Read(1) show ?thesis by (intro started_Cons[OF S]) (simp_all add: populated_store_value)
  next
    case Fetched
    let ?r = "spawnURL n (store_value n (GString b) r)"
    have x: "external r n" using ext Fetched(1) by simp
    have S: "started es ?r err r'"
      using "2.IH"(2)[OF _ Fetched(1-4)] "2.prems"(2) x cov Fetched(1)
      by (simp add: wf_store_value covers_store_value)
    then have "grown r r'" using grown_store_value[OF x grown_spawnURL] unfolding started_def by blast
    with S x Fetched(1) show ?thesis by (intro started_Cons[OF S]) (simp_all add: populated_store_value)
  next
    case Inline
    then have v: "SMethod (espec e) = ''value''"
      using "2.prems"(2,3) spec_of_ok[of r n "espec e"] by (auto simp: covers_def spec_ok_def)
    have S: "started es r err r'" using "2.IH"(3)[OF Inline] "2.prems"(2) cov by simp
    with v show ?thesis by (intro started_Cons[OF S]) (simp_all add: started_def)
  next
    case Failed
    with "2.prems"(2) show ?thesis unfolding started_def
      by (intro conjI exI[of _ "[]"] exI[of _ "(n, e) # es"]) auto
  qed
qed

lemma covers_entries: "wf_registry r \<Longrightarrow> covers r (entries r)"
  by (auto simp: covers_def spec_of_def wf_registry_def Names_def map_of_eq_Some_iff)

lemma start_loop_total:
  assumes "covers r es" "wf_registry r"
  shows "start_loop rf get es r0 \<noteq> None"
  using assms
proof (induction rf get es r0 rule: start_loop.induct)
  case (2 rf get n e es r0)
  then have "spec_ok (espec e)" "covers r es"
    by (auto simp: covers_def dest: spec_of_ok)
  with 2 show ?case by (auto simp: spec_ok_def split: option.splits sum.splits)
qed simp

section \<open>The interface the policy reads facts through\<close>

text \<open>
  What the evaluators rely on: the snapshot has one value per declared name, a source that was
  populated shows a string, an inline value never changes, and all of that survives whatever the
  fetchers do.
\<close>

locale fact_source =
  fixes step :: "'r \<Rightarrow> 'r \<Rightarrow> bool"
    and good :: "'r \<Rightarrow> bool"
    and names :: "'r \<Rightarrow> string list"
    and snapshot :: "'r \<Rightarrow> vars"
    and source :: "'r \<Rightarrow> string \<Rightarrow> bool"
    and inline :: "'r \<Rightarrow> string \<Rightarrow> goval \<Rightarrow> bool"
  assumes step_good: "good r \<Longrightarrow> step r r' \<Longrightarrow> good r'"
    and step_names: "good r \<Longrightarrow> step r r' \<Longrightarrow> names r' = names r"
    and step_source: "good r \<Longrightarrow> step r r' \<Longrightarrow> source r n \<Longrightarrow> source r' n"
    and step_inline: "good r \<Longrightarrow> step r r' \<Longrightarrow> inline r n v \<Longrightarrow> inline r' n v"
    and snapshot_names: "map fst (snapshot r) = names r"
    and snapshot_source: "good r \<Longrightarrow> source r n \<Longrightarrow> \<exists>s. map_of (snapshot r) n = Some (GString s)"
    and snapshot_inline: "good r \<Longrightarrow> inline r n v \<Longrightarrow> map_of (snapshot r) n = Some v"
begin

lemma steps_keep:
  assumes "step\<^sup>*\<^sup>* r r'" "good r"
  shows "good r' \<and> names r' = names r \<and> (\<forall>n. source r n \<longrightarrow> source r' n) \<and>
    (\<forall>n v. inline r n v \<longrightarrow> inline r' n v)"
  using assms
proof (induction rule: rtranclp_induct)
  case (step a b)
  then have a: "good a" "step a b" by auto
  with step.IH step.prems show ?case
    using step_good[OF a] step_names[OF a] step_source[OF a] step_inline[OF a] by auto
qed simp

lemma steps_snapshot_source:
  "step\<^sup>*\<^sup>* r r' \<Longrightarrow> good r \<Longrightarrow> source r n \<Longrightarrow> \<exists>s. map_of (snapshot r') n = Some (GString s)"
  using steps_keep snapshot_source by blast

lemma steps_snapshot_inline:
  "step\<^sup>*\<^sup>* r r' \<Longrightarrow> good r \<Longrightarrow> inline r n v \<Longrightarrow> map_of (snapshot r') n = Some v"
  using steps_keep snapshot_inline by blast

lemma steps_snapshot_names: "step\<^sup>*\<^sup>* r r' \<Longrightarrow> good r \<Longrightarrow> map fst (snapshot r') = names r"
  using steps_keep by (simp add: snapshot_names)

end

definition inline_value :: "registry \<Rightarrow> string \<Rightarrow> goval \<Rightarrow> bool" where
  "inline_value r n v \<longleftrightarrow> (\<exists>s. spec_of r n = Some s \<and> SMethod s = ''value'' \<and> SValue s = v)"

lemma stop_cancel_fields [simp]:
  "entries (stop_cancel r) = entries r"
  "running (stop_cancel r) = running r"
  "cancels (stop_cancel r) = []"
  "cancelled (stop_cancel r) = cancelled r @ cancels r"
  by (simp_all add: stop_cancel_def)

text \<open>A step either leaves the entries alone or stores a string into an external entry.\<close>

lemma reg_step_entries:
  assumes "reg_step r r'" "wf_registry r"
  shows "entries r' = entries r \<or> (\<exists>n b. external r n \<and> r' = store_value n (GString b) r)"
  using assms(1)
proof cases
  case (tick name get)
  show ?thesis
  proof (cases "\<exists>e u b. map_of (entries r) name = Some e \<and> SURL (espec e) = Some u \<and> get u = Inr b")
    case True
    then obtain e u b where e: "map_of (entries r) name = Some e" "SURL (espec e) = Some u"
      "get u = Inr b" by blast
    have "external r name"
      using e wf_registryD(3)[OF assms(2) e(1)] by (auto simp: external_def spec_ok_def)
    with tick e show ?thesis by (auto simp: refresh_def)
  next
    case False
    with tick show ?thesis by (auto simp: refresh_def split: option.splits sum.splits)
  qed
qed auto

lemma wf_entries_cong: "entries r' = entries r \<Longrightarrow> wf_registry r' = wf_registry r"
  by (simp add: wf_registry_def Names_def)

lemma ready_entries_cong: "entries r' = entries r \<Longrightarrow> ready r' = ready r"
  by (simp add: ready_def populated_def wf_registry_def Names_def)

lemma reg_step_ready: "ready r \<Longrightarrow> reg_step r r' \<Longrightarrow> ready r'"
  using reg_step_entries ready_store_value ready_entries_cong by (metis ready_iff)

lemma reg_step_spec_of: "wf_registry r \<Longrightarrow> reg_step r r' \<Longrightarrow> spec_of r' n = spec_of r n"
  using reg_step_entries[of r r'] by (metis spec_of_def spec_of_store_value)

lemma reg_step_Names: "wf_registry r \<Longrightarrow> reg_step r r' \<Longrightarrow> Names r' = Names r"
  using reg_step_entries[of r r'] by (metis Names_def Names_store_value)

lemma map_of_Snapshot:
  "map_of (Snapshot r) n =
     map_option (\<lambda>e. case evalue e of None \<Rightarrow> GNil | Some v \<Rightarrow> v) (map_of (entries r) n)"
proof -
  have "map_of (map (\<lambda>(k, e). (k, f e)) es) n = map_option f (map_of es n)"
    for f :: "entry \<Rightarrow> goval" and es
    by (induction es) auto
  then show ?thesis by (simp add: Snapshot_def)
qed

interpretation reg: fact_source reg_step ready Names Snapshot external inline_value
proof unfold_locales
  fix r r' n v
  assume R: "ready r"
  then have W: "wf_registry r" by (simp add: ready_iff)
  show "external r n \<Longrightarrow> \<exists>s. map_of (Snapshot r) n = Some (GString s)"
    using R by (auto simp: ready_iff populated_def map_of_Snapshot)
  show "inline_value r n v \<Longrightarrow> map_of (Snapshot r) n = Some v"
    using W by (auto simp: inline_value_def spec_of_def map_of_Snapshot dest: wf_registryD(5))
  assume S: "reg_step r r'"
  show "ready r'" using R S by (rule reg_step_ready)
  show "Names r' = Names r" using W S by (rule reg_step_Names)
  show "external r n \<Longrightarrow> external r' n"
    using reg_step_spec_of[OF W S] by (simp add: spec_of_external)
  show "inline_value r n v \<Longrightarrow> inline_value r' n v"
    using reg_step_spec_of[OF W S] by (simp add: inline_value_def)
qed (auto simp: Snapshot_def Names_def)

section \<open>Stopping\<close>

text \<open>Every running fetcher can be cancelled: the registry holds its cancel function or has called
  it. Without that \<^verbatim>\<open>Stop\<close> would wait for ever.\<close>

definition owned :: "registry \<Rightarrow> bool" where
  "owned r \<longleftrightarrow> set (running r) \<subseteq> set (cancels r) \<union> set (cancelled r)"

lemma reg_step_owned: "owned r \<Longrightarrow> reg_step r r' \<Longrightarrow> owned r'"
proof (erule reg_step.cases)
  fix name r0 get
  assume "owned r" "r = r0" "r' = refresh get name r0"
  then show "owned r'" by (auto simp: owned_def refresh_def split: option.splits sum.splits)
next
  fix name r0
  assume "owned r" "r = r0" "r' = r0\<lparr>running := remove1 name (running r0)\<rparr>"
  then show "owned r'" using set_remove1_subset[of name "running r0"] by (auto simp: owned_def)
qed (auto simp: owned_def)

lemma returns_drain:
  "set (running r) \<subseteq> set (cancelled r) \<Longrightarrow> reg_steps r (r\<lparr>running := []\<rparr>)"
proof (induction "running r" arbitrary: r)
  case (Cons n ns)
  let ?r = "r\<lparr>running := ns\<rparr>"
  have run: "running r = n # ns" using Cons.hyps(2) by simp
  then have "reg_step r (r\<lparr>running := remove1 n (running r)\<rparr>)"
    using Cons.prems by (intro reg_step.return) auto
  then have "reg_step r ?r" using run by simp
  moreover have "reg_steps ?r (?r\<lparr>running := []\<rparr>)"
    using Cons.prems run by (intro Cons.hyps(1)) auto
  ultimately show ?case by (simp add: converse_rtranclp_into_rtranclp)
next
  case Nil
  then have "r\<lparr>running := []\<rparr> = r" by (cases r) simp
  then show ?case by simp
qed

lemma quiet_step: "running r = [] \<Longrightarrow> reg_step r r' \<Longrightarrow> running r' = [] \<and> entries r' = entries r"
  by (erule reg_step.cases) auto

lemma quiet_steps:
  "reg_steps r r' \<Longrightarrow> running r = [] \<Longrightarrow> running r' = [] \<and> entries r' = entries r"
  by (induction rule: rtranclp_induct) (auto dest: quiet_step)

lemma reg_steps_owned: "reg_steps r r' \<Longrightarrow> owned r \<Longrightarrow> owned r'"
  by (induction rule: rtranclp_induct) (auto dest: reg_step_owned)

lemma facts_Start_spec:
  assumes "facts_New specs = Inr r" "facts_Start rf get r = Some (err, r1)"
  shows "wf_registry r1" "grown r r1" "owned r1"
    "\<exists>pre post. entries r = pre @ post \<and> (err = None \<longleftrightarrow> post = []) \<and> running r1 = url_names pre"
    "err = None \<Longrightarrow> ready r1"
proof -
  note W = facts_New_wf[OF assms(1)]
  note S = start_loop_spec[OF assms(2)[unfolded facts_Start_def] W covers_entries[OF W], unfolded started_def]
  note N = facts_New_entries[OF assms(1)]
  from S show "wf_registry r1" and g: "grown r r1" by auto
  from S N show "owned r1"
    and "\<exists>pre post. entries r = pre @ post \<and> (err = None \<longleftrightarrow> post = []) \<and> running r1 = url_names pre"
    by (auto simp: owned_def)
  assume "err = None"
  with S have pop: "\<forall>(n, e) \<in> set (entries r). SMethod (espec e) \<noteq> ''value'' \<longrightarrow> populated r1 n" by auto
  {
    fix n assume "external r1 n"
    then have "external r n" using g by (simp add: grown_def)
    then obtain e where "(n, e) \<in> set (entries r)" "SMethod (espec e) \<noteq> ''value''"
      by (auto simp: external_def dest: map_of_SomeD)
    with pop have "populated r1 n" by blast
  }
  with \<open>wf_registry r1\<close> show "ready r1" by (simp add: ready_iff)
qed

lemma start_loop_spec_of:
  "start_loop rf get es r = Some (err, r1) \<Longrightarrow> spec_of r1 n = spec_of r n"
proof (induction rf get es r rule: start_loop.induct)
  case (2 rf get m e es r)
  have "spec_of (spawnURL m r') = spec_of r'" for m r' by (simp add: spec_of_def[abs_def])
  with 2 show ?case by (auto split: if_splits option.splits sum.splits)
qed simp

lemma facts_New_spec_of:
  assumes "facts_New specs = Inr r" "s \<in> set specs"
  shows "\<exists>s'. spec_of r (SName s) = Some s' \<and> check_spec s = Inr s'"
proof -
  note N = facts_New_entries[OF assms(1)]
  have "distinct (map fst (entries r))" using N by (simp add: comp_def)
  moreover have "(SName s, new_entry (projr (check_spec s))) \<in> set (entries r)" using N assms(2) by auto
  ultimately have m: "map_of (entries r) (SName s) = Some (new_entry (projr (check_spec s)))"
    by (simp add: map_of_eq_Some_iff)
  obtain s' where "check_spec s = Inr s'" using N assms(2) check_spec_iff by (auto simp: list_all_iff)
  with m show ?thesis by (auto simp: spec_of_def new_entry_def)
qed

section \<open>Properties\<close>

text \<open>The constructor accepts exactly the lists of declarations in which every name is present
  and unique and every declaration carries the source of its method and no other.\<close>

theorem facts_New_accepts:
  "(\<exists>r. facts_New specs = Inr r) \<longleftrightarrow>
     distinct (map SName specs) \<and> list_all (\<lambda>s. SName s \<noteq> [] \<and> spec_ok s) specs"
proof
  assume "distinct (map SName specs) \<and> list_all (\<lambda>s. SName s \<noteq> [] \<and> spec_ok s) specs"
  then have "new_loop 0 [] specs [] \<noteq> Inl err" for err
    using new_loop_fails[of 0 "[]" specs "[]" err] by auto
  then show "\<exists>r. facts_New specs = Inr r" by (auto simp: facts_New_def split: sum.split)
qed (auto dest: facts_New_entries)

text \<open>C19: Once a registry started, every evaluation sees every declared fact populated, whatever the
  fetchers do afterwards: an inline value is the declared one and a file or URL fact is a string.\<close>

theorem started_facts_stay_populated:
  assumes "facts_New specs = Inr r" "facts_Start rf get r = Some (None, r1)" "reg_steps r1 r2"
    "s \<in> set specs"
  shows "if SMethod s = ''value'' then map_of (Snapshot r2) (SName s) = Some (SValue s)
    else \<exists>b. map_of (Snapshot r2) (SName s) = Some (GString b)"
proof -
  have R: "ready r1" by (rule facts_Start_spec(5)[OF assms(1,2)]) simp
  obtain s' where s': "spec_of r (SName s) = Some s'" "check_spec s = Inr s'"
    using facts_New_spec_of[OF assms(1,4)] by blast
  then have sp: "spec_of r1 (SName s) = Some s'"
    using assms(2) start_loop_spec_of by (simp add: facts_Start_def)
  show ?thesis
  proof (cases "SMethod s = ''value''")
    case True
    then have "s' = s" using s'(2) by (auto simp: check_spec_def split: if_splits)
    with True sp have "inline_value r1 (SName s) (SValue s)" by (simp add: inline_value_def)
    with True show ?thesis using reg.steps_snapshot_inline[OF assms(3) R] by simp
  next
    case False
    then have "SMethod s' \<noteq> ''value''"
      using s'(2) by (auto simp: check_spec_def split: if_splits option.splits)
    with sp have "external r1 (SName s)" by (simp add: spec_of_external)
    with False show ?thesis using reg.steps_snapshot_source[OF assms(3) R] by simp
  qed
qed

definition url_spec_example :: spec where
  "url_spec_example = \<lparr>SName = ''feed'', SMethod = ''url'', SValue = GNil, SFile = None,
     SURL = Some \<lparr>Address = ''http://h/'', Interval = 0, Timeout = 0, UHeaders = []\<rparr>\<rparr>"

definition file_spec_example :: spec where
  "file_spec_example = \<lparr>SName = ''page'', SMethod = ''file'', SValue = GNil,
     SFile = Some \<lparr>FPath = ''/p''\<rparr>, SURL = None\<rparr>"

lemmas spec_examples = url_spec_example_def file_spec_example_def facts_New_def check_spec_def
  new_entry_def facts_Start_def store_value_def spawnURL_def url_defaults_def Let_def

theorem started_facts_stay_populated_witness:
  "\<exists>r r1 b. facts_New [url_spec_example, file_spec_example] = Inr r \<and>
     facts_Start (\<lambda>_. Inr ''html'') (\<lambda>_. Inr ''[]'') r = Some (None, r1) \<and>
     map_of (Snapshot r1) ''feed'' = Some (GString b)"
proof -
  obtain r where r: "facts_New [url_spec_example, file_spec_example] = Inr r"
    by (simp add: spec_examples)
  then obtain r1 where r1: "facts_Start (\<lambda>_. Inr ''html'') (\<lambda>_. Inr ''[]'') r = Some (None, r1)"
    by (auto simp: spec_examples)
  have "\<exists>b. map_of (Snapshot r1) ''feed'' = Some (GString b)"
    using started_facts_stay_populated[OF r r1 rtranclp.rtrancl_refl, of url_spec_example]
    by (simp add: url_spec_example_def)
  with r r1 show ?thesis by blast
qed

text \<open>A start of an accepted registry never panics. If it fails, the fetchers of the URL facts
  that came before the failing one are left running.\<close>

theorem failed_start_leaves_fetchers:
  assumes "facts_New specs = Inr r"
  shows "\<exists>err r1. facts_Start rf get r = Some (err, r1) \<and>
    (\<exists>pre post. entries r = pre @ post \<and> (err = None \<longleftrightarrow> post = []) \<and> running r1 = url_names pre)"
proof -
  have W: "wf_registry r" using assms by (rule facts_New_wf)
  obtain err r1 where "facts_Start rf get r = Some (err, r1)"
    using start_loop_total[OF covers_entries[OF W] W, of rf get r]
    by (cases "facts_Start rf get r") (auto simp: facts_Start_def)
  with facts_Start_spec(4)[OF assms this] show ?thesis by blast
qed

theorem failed_start_leaves_fetchers_witness:
  "\<exists>r err r1. facts_New [url_spec_example, file_spec_example] = Inr r \<and>
     facts_Start (\<lambda>_. Inl ''no such file'') (\<lambda>_. Inr ''[]'') r = Some (Some err, r1) \<and>
     running r1 = [''feed'']"
proof -
  obtain r where r: "facts_New [url_spec_example, file_spec_example] = Inr r"
    by (simp add: spec_examples)
  obtain err r1 where s: "facts_Start (\<lambda>_. Inl ''no such file'') (\<lambda>_. Inr ''[]'') r = Some (err, r1)"
    using failed_start_leaves_fetchers[OF r] by blast
  moreover from s r have "err \<noteq> None \<and> running r1 = [''feed'']"
    by (auto simp: spec_examples)
  ultimately show ?thesis using r by auto
qed

text \<open>C20: Stopping a started registry can always finish: the fetchers it cancels can all return,
  and from then on no fact changes any more.\<close>

theorem stop_drains:
  assumes "facts_New specs = Inr r" "facts_Start rf get r = Some (err, r1)" "reg_steps r1 r2"
  shows "\<exists>r3. reg_steps (stop_cancel r2) r3 \<and> running r3 = [] \<and>
    (\<forall>r4. reg_steps r3 r4 \<longrightarrow> running r4 = [] \<and> Snapshot r4 = Snapshot r3)"
proof -
  have "owned r2" using facts_Start_spec(3)[OF assms(1,2)] assms(3) by (rule reg_steps_owned[rotated])
  then have drain: "reg_steps (stop_cancel r2) ((stop_cancel r2)\<lparr>running := []\<rparr>)"
    (is "reg_steps _ ?r")
    by (intro returns_drain) (auto simp: owned_def)
  have quiet: "running r4 = [] \<and> Snapshot r4 = Snapshot ?r" if "reg_steps ?r r4" for r4
    using quiet_steps[OF that] by (simp add: Snapshot_def)
  show ?thesis
  proof (intro exI conjI)
    show "reg_steps (stop_cancel r2) ?r" by (rule drain)
    show "\<forall>r4. reg_steps ?r r4 \<longrightarrow> running r4 = [] \<and> Snapshot r4 = Snapshot ?r" using quiet by blast
  qed simp
qed

theorem stop_drains_witness:
  "\<exists>r r1 r3. facts_New [url_spec_example] = Inr r \<and>
     facts_Start (\<lambda>_. Inr ''html'') (\<lambda>_. Inr ''[]'') r = Some (None, r1) \<and> running r1 = [''feed''] \<and>
     reg_steps (stop_cancel r1) r3 \<and> running r3 = []"
proof -
  obtain r where r: "facts_New [url_spec_example] = Inr r" by (simp add: spec_examples)
  then obtain r1 where r1: "facts_Start (\<lambda>_. Inr ''html'') (\<lambda>_. Inr ''[]'') r = Some (None, r1)"
      "running r1 = [''feed'']"
    by (auto simp: spec_examples)
  obtain r3 where "reg_steps (stop_cancel r1) r3" "running r3 = []"
    using stop_drains[OF r r1(1) rtranclp.rtrancl_refl] by auto
  with r r1 show ?thesis by auto
qed

end
