(* ===== verification/Policy_Config.thy ===== *)
theory Policy_Config
  imports Celenv Facts
begin

text \<open>
  \<^verbatim>\<open>internal/policy/policy.go\<close>, the configuration: its types, the defaults, the byte sizes and the
  structural validation. A slice that the code compares with nil is an option.
\<close>

section \<open>Types\<close>

record extAuthzDefaults =
  Action :: string
  DenyStatus :: int
  DenyBody :: string
  AllowOnError :: bool
  AzMaxBodyBytes :: int

record extProcDefaults =
  ProcMaxBodyBytes :: int
  OnBodyOverflow :: string

record defaults =
  ExtAuthz :: extAuthzDefaults
  ExtProc :: extProcDefaults
  DefDryRun :: bool

record logging =
  Level :: string
  Format :: string
  LogBody :: bool
  ExcludeHeaders :: "string list option"
  RedactHeaders :: "string list option"
  RedactReveal :: int
  RedactQueryParams :: "string list option"

record parameters =
  Engine :: string
  Mode :: string
  Phase :: string

record validation =
  VAction :: string

record 'c mutation =
  Op :: string
  MName :: string
  MValue :: string
  Code :: string
  MStatus :: int
  MHeaders :: string
  MBody :: string
  valueProg :: "'c prog option"
  codeProg :: "'c prog option"
  headersProg :: "'c prog option"
  bodyProg :: "'c prog option"

record 'c rule =
  RName :: string
  RDescription :: string
  RMatch :: string
  Validation :: "validation option"
  Mutations :: "'c mutation list"
  RDryRun :: bool
  rmatchProg :: "'c prog option"

record 'c group =
  GName :: string
  GDescription :: string
  Parameters :: parameters
  GMatch :: string
  Rules :: "'c rule list"
  gmatchProg :: "'c prog option"

record ('e, 'c) config =
  Defaults :: defaults
  Logging :: logging
  CFacts :: "spec list"
  Groups :: "'c group list"
  cenv :: "('e, 'c) env option"
  cregistry :: "registry option"

section \<open>Byte sizes\<close>

datatype yaml_node = ScalarNode string | OtherNode

datatype size_error = ExpectedScalar | InvalidSize string num_error

text \<open>The suffix of the lower-cased text, as the multiplier and the number of bytes to cut.\<close>

definition size_suffix :: "string \<Rightarrow> int \<times> nat" where
  "size_suffix lower =
     (if HasSuffix lower ''kib'' then (2 ^ 10, 3)
      else if HasSuffix lower ''mib'' then (2 ^ 20, 3)
      else if HasSuffix lower ''gib'' then (2 ^ 30, 3)
      else if HasSuffix lower ''kb'' then (1000, 2)
      else if HasSuffix lower ''mb'' then (1000 * 1000, 2)
      else if HasSuffix lower ''b'' then (1, 1)
      else (1, 0))"

definition BytesSize_UnmarshalYAML :: "yaml_node \<Rightarrow> size_error + int" where
  "BytesSize_UnmarshalYAML n =
     (case n of
        OtherNode \<Rightarrow> Inl ExpectedScalar
      | ScalarNode value \<Rightarrow>
          let s = TrimSpace value
          in case ParseInt s of
               Inr v \<Rightarrow> Inr v
             | Inl _ \<Rightarrow>
                 let (mul, cut) = size_suffix (ToLower s)
                 in case ParseInt (TrimSpace (take (length s - cut) s)) of
                      Inl err \<Rightarrow> Inl (InvalidSize value err)
                    | Inr v \<Rightarrow> Inr (wrap64 (v * mul)))"

section \<open>Defaults\<close>

definition defaultExclude :: "string list" where
  "defaultExclude = [''cookie'', ''set-cookie'']"

definition defaultRedact :: "string list" where
  "defaultRedact = [''authorization'', ''proxy-authorization'', ''x-api-key'', ''x-auth-token'']"

definition defaultRedactQuery :: "string list" where
  "defaultRedactQuery = [''access_token'', ''id_token'', ''code'']"

definition or_default :: "'a \<Rightarrow> 'a \<Rightarrow> 'a \<Rightarrow> 'a" where
  "or_default zero d v = (if v = zero then d else v)"

definition applyDefaults :: "('e, 'c) config \<Rightarrow> ('e, 'c) config" where
  "applyDefaults c =
     c\<lparr>Defaults := (Defaults c)
         \<lparr>ExtAuthz := (ExtAuthz (Defaults c))
            \<lparr>Action := or_default [] ''deny'' (Action (ExtAuthz (Defaults c))),
             DenyStatus := or_default 0 403 (DenyStatus (ExtAuthz (Defaults c))),
             DenyBody := or_default [] ''Forbidden'' (DenyBody (ExtAuthz (Defaults c))),
             AzMaxBodyBytes := or_default 0 (2 ^ 20) (AzMaxBodyBytes (ExtAuthz (Defaults c)))\<rparr>,
          ExtProc := (ExtProc (Defaults c))
            \<lparr>ProcMaxBodyBytes := or_default 0 (2 ^ 20) (ProcMaxBodyBytes (ExtProc (Defaults c))),
             OnBodyOverflow := or_default [] ''fail'' (OnBodyOverflow (ExtProc (Defaults c)))\<rparr>\<rparr>,
       Logging := (Logging c)
         \<lparr>Level := or_default [] ''info'' (Level (Logging c)),
          Format := or_default [] ''json'' (Format (Logging c)),
          ExcludeHeaders := or_default None (Some defaultExclude) (ExcludeHeaders (Logging c)),
          RedactHeaders := or_default None (Some defaultRedact) (RedactHeaders (Logging c)),
          RedactReveal := or_default 0 6 (RedactReveal (Logging c)),
          RedactQueryParams := or_default None (Some defaultRedactQuery) (RedactQueryParams (Logging c))\<rparr>\<rparr>"

section \<open>Validation\<close>

datatype mut_problem =
    BadStatus int
  | Required string
  | MustBeEmpty string
  | IllegalPhase string
  | UnknownOp

datatype cfg_error =
    BadDefaultAction string
  | BadOnBodyOverflow string
  | NoGroups
  | GroupNoName nat
  | DuplicateGroup string
  | BadEngine string string
  | BadMode string string
  | BadPhase string string
  | PhaseForbidden string string
  | NoRules string
  | RuleNoName string nat
  | DuplicateRule string string
  | EmptyMatch string string
  | NoValidation string string
  | MutationsForbidden string string
  | BadAction string string string
  | MatchAllAction string string string
  | ValidationForbidden string string
  | DirectNotAlone string string
  | BadMutation string string nat string mut_problem
  | YamlError string
  | EnvError cel_error
  | FactsError fact_error
  | GroupCompile string cel_error
  | RuleCompile string string cel_error
  | MutationCompile string string nat string string cel_error

definition blank :: "string \<Rightarrow> bool" where
  "blank s \<longleftrightarrow> TrimSpace s = []"

definition is_response_phase :: "string \<Rightarrow> bool" where
  "is_response_phase p \<longleftrightarrow> p = ''responseHeaders'' \<or> p = ''responseBody''"

definition is_body_phase :: "string \<Rightarrow> bool" where
  "is_body_phase p \<longleftrightarrow> p = ''requestBody'' \<or> p = ''responseBody''"

definition check_mutation :: "string \<Rightarrow> 'c mutation \<Rightarrow> mut_problem option" where
  "check_mutation phase m =
     (if Op m = ''directResponse'' then
        if MStatus m \<le> 0 \<or> MStatus m > 599 then Some (BadStatus (MStatus m))
        else if blank (MHeaders m) then Some (Required ''headers'')
        else if blank (MBody m) then Some (Required ''body'')
        else if MName m \<noteq> [] then Some (MustBeEmpty ''name'')
        else if MValue m \<noteq> [] then Some (MustBeEmpty ''value'')
        else if Code m \<noteq> [] then Some (MustBeEmpty ''code'')
        else if \<not> is_response_phase phase then Some (IllegalPhase phase)
        else None
      else if Op m = ''setHeader'' \<or> Op m = ''appendHeader'' then
        if blank (MName m) then Some (Required ''name'')
        else if blank (MValue m) then Some (Required ''value'')
        else if Code m \<noteq> [] then Some (MustBeEmpty ''code'')
        else None
      else if Op m = ''removeHeader'' then
        if blank (MName m) then Some (Required ''name'')
        else if MValue m \<noteq> [] then Some (MustBeEmpty ''value'')
        else if Code m \<noteq> [] then Some (MustBeEmpty ''code'')
        else None
      else if Op m = ''setBody'' then
        if blank (MValue m) then Some (Required ''value'')
        else if MName m \<noteq> [] then Some (MustBeEmpty ''name'')
        else if Code m \<noteq> [] then Some (MustBeEmpty ''code'')
        else if \<not> is_body_phase phase then Some (IllegalPhase phase)
        else None
      else if Op m = ''setStatus'' then
        if blank (Code m) then Some (Required ''code'')
        else if MName m \<noteq> [] then Some (MustBeEmpty ''name'')
        else if MValue m \<noteq> [] then Some (MustBeEmpty ''value'')
        else if \<not> is_response_phase phase then Some (IllegalPhase phase)
        else None
      else Some UnknownOp)"

fun check_mutations :: "string \<Rightarrow> string \<Rightarrow> string \<Rightarrow> nat \<Rightarrow> 'c mutation list \<Rightarrow> cfg_error option" where
  "check_mutations gn rn phase mi [] = None"
| "check_mutations gn rn phase mi (m # ms) =
     (case check_mutation phase m of
        Some p \<Rightarrow> Some (BadMutation gn rn mi (Op m) p)
      | None \<Rightarrow> check_mutations gn rn phase (Suc mi) ms)"

definition check_authz_rule :: "'c group \<Rightarrow> 'c rule \<Rightarrow> cfg_error option" where
  "check_authz_rule g r =
     (case Validation r of
        None \<Rightarrow> Some (NoValidation (GName g) (RName r))
      | Some v \<Rightarrow>
          if Mutations r \<noteq> [] then Some (MutationsForbidden (GName g) (RName r))
          else if VAction v \<noteq> ''allow'' \<and> VAction v \<noteq> ''deny''
            then Some (BadAction (GName g) (RName r) (VAction v))
          else if Mode (Parameters g) = ''matchAll'' \<and> VAction v \<noteq> ''allow''
            then Some (MatchAllAction (GName g) (RName r) (VAction v))
          else None)"

definition check_proc_rule :: "'c group \<Rightarrow> 'c rule \<Rightarrow> cfg_error option" where
  "check_proc_rule g r =
     (if Validation r \<noteq> None then Some (ValidationForbidden (GName g) (RName r))
      else if list_ex (\<lambda>m. Op m = ''directResponse'') (Mutations r) \<and> length (Mutations r) > 1
        then Some (DirectNotAlone (GName g) (RName r))
      else check_mutations (GName g) (RName r) (Phase (Parameters g)) 0 (Mutations r))"

fun check_rules :: "'c group \<Rightarrow> nat \<Rightarrow> string list \<Rightarrow> 'c rule list \<Rightarrow> cfg_error option" where
  "check_rules g ri seen [] = None"
| "check_rules g ri seen (r # rs) =
     (if RName r = [] then Some (RuleNoName (GName g) ri)
      else if RName r \<in> set seen then Some (DuplicateRule (GName g) (RName r))
      else if blank (RMatch r) then Some (EmptyMatch (GName g) (RName r))
      else
        (case (if Engine (Parameters g) = ''extAuthz'' then check_authz_rule g r
               else check_proc_rule g r) of
           Some e \<Rightarrow> Some e
         | None \<Rightarrow> check_rules g (Suc ri) (RName r # seen) rs))"

definition check_parameters :: "string \<Rightarrow> parameters \<Rightarrow> cfg_error option" where
  "check_parameters gn p =
     (if Engine p \<noteq> ''extAuthz'' \<and> Engine p \<noteq> ''extProc'' then Some (BadEngine gn (Engine p))
      else if Engine p = ''extAuthz'' \<and> Mode p \<noteq> ''firstMatch'' \<and> Mode p \<noteq> ''matchAll''
        then Some (BadMode gn (Mode p))
      else if Engine p \<noteq> ''extAuthz'' \<and> Mode p \<noteq> ''firstMatch'' \<and> Mode p \<noteq> ''applyAll''
        then Some (BadMode gn (Mode p))
      else if Engine p = ''extProc'' then
        if Phase p \<noteq> ''requestHeaders'' \<and> Phase p \<noteq> ''requestBody'' \<and>
           Phase p \<noteq> ''responseHeaders'' \<and> Phase p \<noteq> ''responseBody''
        then Some (BadPhase gn (Phase p)) else None
      else if Phase p \<noteq> [] then Some (PhaseForbidden gn (Phase p))
      else None)"

fun check_groups :: "nat \<Rightarrow> string list \<Rightarrow> 'c group list \<Rightarrow> cfg_error option" where
  "check_groups gi seen [] = None"
| "check_groups gi seen (g # gs) =
     (if GName g = [] then Some (GroupNoName gi)
      else if GName g \<in> set seen then Some (DuplicateGroup (GName g))
      else
        (case check_parameters (GName g) (Parameters g) of
           Some e \<Rightarrow> Some e
         | None \<Rightarrow>
             if Rules g = [] then Some (NoRules (GName g))
             else
               (case check_rules g 0 [] (Rules g) of
                  Some e \<Rightarrow> Some e
                | None \<Rightarrow> check_groups (Suc gi) (GName g # seen) gs)))"

definition validate :: "('e, 'c) config \<Rightarrow> cfg_error option" where
  "validate c =
     (let a = Action (ExtAuthz (Defaults c)); ov = OnBodyOverflow (ExtProc (Defaults c))
      in if a \<noteq> ''allow'' \<and> a \<noteq> ''deny'' then Some (BadDefaultAction a)
         else if ov \<noteq> ''skip'' \<and> ov \<noteq> ''fail'' then Some (BadOnBodyOverflow ov)
         else if Groups c = [] then Some NoGroups
         else check_groups 0 [] (Groups c))"

end
