(* ===== verification/Policy_Valid.thy ===== *)
theory Policy_Valid
  imports Policy_Config
begin

text \<open>
  What a valid policy is, stated from the documentation of the policy language (a table of the
  operations with their operands and phases), and that \<open>validate\<close> accepts exactly the valid ones.
\<close>

section \<open>The language\<close>

datatype field = FName | FValue | FCode | FHeaders | FBody

fun field_text :: "'c mutation \<Rightarrow> field \<Rightarrow> string" where
  "field_text m FName = MName m"
| "field_text m FValue = MValue m"
| "field_text m FCode = Code m"
| "field_text m FHeaders = MHeaders m"
| "field_text m FBody = MBody m"

definition all_phases :: "string list" where
  "all_phases = [''requestHeaders'', ''requestBody'', ''responseHeaders'', ''responseBody'']"

definition response_phases :: "string list" where
  "response_phases = [''responseHeaders'', ''responseBody'']"

definition body_phases :: "string list" where
  "body_phases = [''requestBody'', ''responseBody'']"

text \<open>Operation, operands it needs, operands it must not have, phases it is legal in.\<close>

definition op_table :: "(string \<times> field list \<times> field list \<times> string list) list" where
  "op_table =
     [(''setHeader'', [FName, FValue], [FCode], all_phases),
      (''appendHeader'', [FName, FValue], [FCode], all_phases),
      (''removeHeader'', [FName], [FValue, FCode], all_phases),
      (''setBody'', [FValue], [FName, FCode], body_phases),
      (''setStatus'', [FCode], [FName, FValue], response_phases),
      (''directResponse'', [FHeaders, FBody], [FName, FValue, FCode], response_phases)]"

definition legal_phases :: "string \<Rightarrow> string list" where
  "legal_phases op = (case map_of op_table op of None \<Rightarrow> [] | Some (_, _, phases) \<Rightarrow> phases)"

definition valid_mutation :: "string \<Rightarrow> 'c mutation \<Rightarrow> bool" where
  "valid_mutation phase m \<longleftrightarrow>
     (case map_of op_table (Op m) of
        None \<Rightarrow> False
      | Some (needed, forbidden, phases) \<Rightarrow>
          (\<forall>f \<in> set needed. \<not> blank (field_text m f)) \<and>
          (\<forall>f \<in> set forbidden. field_text m f = []) \<and> phase \<in> set phases) \<and>
     (Op m = ''directResponse'' \<longrightarrow> 0 < MStatus m \<and> MStatus m \<le> 599)"

definition valid_parameters :: "parameters \<Rightarrow> bool" where
  "valid_parameters p \<longleftrightarrow>
     (Engine p = ''extAuthz'' \<and> Mode p \<in> {''firstMatch'', ''matchAll''} \<and> Phase p = []) \<or>
     (Engine p = ''extProc'' \<and> Mode p \<in> {''firstMatch'', ''applyAll''} \<and> Phase p \<in> set all_phases)"

definition valid_authz_rule :: "parameters \<Rightarrow> 'c rule \<Rightarrow> bool" where
  "valid_authz_rule p r \<longleftrightarrow> Mutations r = [] \<and>
     (\<exists>v. Validation r = Some v \<and> VAction v \<in> {''allow'', ''deny''} \<and>
        (Mode p = ''matchAll'' \<longrightarrow> VAction v = ''allow''))"

definition valid_proc_rule :: "parameters \<Rightarrow> 'c rule \<Rightarrow> bool" where
  "valid_proc_rule p r \<longleftrightarrow> Validation r = None \<and>
     (\<forall>m \<in> set (Mutations r). valid_mutation (Phase p) m) \<and>
     ((\<exists>m \<in> set (Mutations r). Op m = ''directResponse'') \<longrightarrow> length (Mutations r) = 1)"

definition valid_rule :: "parameters \<Rightarrow> 'c rule \<Rightarrow> bool" where
  "valid_rule p r \<longleftrightarrow> RName r \<noteq> [] \<and> \<not> blank (RMatch r) \<and>
     (if Engine p = ''extAuthz'' then valid_authz_rule p r else valid_proc_rule p r)"

definition valid_group :: "'c group \<Rightarrow> bool" where
  "valid_group g \<longleftrightarrow> GName g \<noteq> [] \<and> valid_parameters (Parameters g) \<and> Rules g \<noteq> [] \<and>
     distinct (map RName (Rules g)) \<and> (\<forall>r \<in> set (Rules g). valid_rule (Parameters g) r)"

definition valid_config :: "('e, 'c) config \<Rightarrow> bool" where
  "valid_config c \<longleftrightarrow>
     Action (ExtAuthz (Defaults c)) \<in> {''allow'', ''deny''} \<and>
     OnBodyOverflow (ExtProc (Defaults c)) \<in> {''skip'', ''fail''} \<and>
     Groups c \<noteq> [] \<and> distinct (map GName (Groups c)) \<and> (\<forall>g \<in> set (Groups c). valid_group g)"

section \<open>The checks decide it\<close>

lemmas phase_defs = all_phases_def response_phases_def body_phases_def is_response_phase_def
  is_body_phase_def

lemma check_mutation_iff:
  assumes "phase \<in> set all_phases"
  shows "check_mutation phase m = None \<longleftrightarrow> valid_mutation phase m"
proof -
  consider "Op m = ''setHeader''" | "Op m = ''appendHeader''" | "Op m = ''removeHeader''"
    | "Op m = ''setBody''" | "Op m = ''setStatus''" | "Op m = ''directResponse''"
    | "Op m \<notin> fst ` set op_table"
    by (auto simp: op_table_def)
  then show ?thesis
  proof cases
    case 7
    then have "map_of op_table (Op m) = None" by (simp add: map_of_eq_None_iff)
    with 7 show ?thesis by (auto simp: check_mutation_def valid_mutation_def op_table_def)
  qed (use assms in \<open>auto simp: check_mutation_def valid_mutation_def op_table_def phase_defs\<close>)
qed

lemma check_mutations_iff:
  assumes "phase \<in> set all_phases"
  shows "check_mutations gn rn phase mi ms = None \<longleftrightarrow> (\<forall>m \<in> set ms. valid_mutation phase m)"
proof (induction ms arbitrary: mi)
  case (Cons m ms)
  then show ?case using check_mutation_iff[OF assms, of m]
    by (cases "check_mutation phase m") auto
qed simp

lemma check_proc_rule_iff:
  assumes "Phase (Parameters g) \<in> set all_phases"
  shows "check_proc_rule g r = None \<longleftrightarrow> valid_proc_rule (Parameters g) r"
proof -
  have "(\<exists>m \<in> set (Mutations r). Op m = ''directResponse'') \<Longrightarrow>
      length (Mutations r) > 1 \<longleftrightarrow> length (Mutations r) \<noteq> 1"
    by (cases "Mutations r") auto
  then show ?thesis
    by (auto simp: check_proc_rule_def valid_proc_rule_def list_ex_iff check_mutations_iff[OF assms])
qed

lemma check_authz_rule_iff: "check_authz_rule g r = None \<longleftrightarrow> valid_authz_rule (Parameters g) r"
  by (auto simp: check_authz_rule_def valid_authz_rule_def split: option.split)

lemma check_rule_iff:
  assumes "valid_parameters (Parameters g)"
  shows "(if Engine (Parameters g) = ''extAuthz'' then check_authz_rule g r else check_proc_rule g r) = None
    \<longleftrightarrow> (if Engine (Parameters g) = ''extAuthz'' then valid_authz_rule (Parameters g) r
         else valid_proc_rule (Parameters g) r)"
  using assms check_proc_rule_iff[of g r] by (auto simp: check_authz_rule_iff valid_parameters_def)

lemma check_rules_iff:
  assumes "valid_parameters (Parameters g)"
  shows "check_rules g ri seen rs = None \<longleftrightarrow>
     distinct (map RName rs) \<and> set (map RName rs) \<inter> set seen = {} \<and>
     (\<forall>r \<in> set rs. valid_rule (Parameters g) r)"
proof (induction rs arbitrary: ri seen)
  case (Cons r rs)
  let ?c = "if Engine (Parameters g) = ''extAuthz'' then check_authz_rule g r else check_proc_rule g r"
  have "valid_rule (Parameters g) r \<longleftrightarrow> RName r \<noteq> [] \<and> \<not> blank (RMatch r) \<and> ?c = None"
    using check_rule_iff[OF assms, of r] by (simp add: valid_rule_def)
  then show ?case using Cons[of "Suc ri" "RName r # seen"]
    by (cases ?c) (simp_all add: if_split_eq1, blast)
qed simp

lemma check_parameters_iff: "check_parameters gn p = None \<longleftrightarrow> valid_parameters p"
  by (auto simp: check_parameters_def valid_parameters_def all_phases_def)

lemma check_groups_iff:
  "check_groups gi seen gs = None \<longleftrightarrow>
     distinct (map GName gs) \<and> set (map GName gs) \<inter> set seen = {} \<and> (\<forall>g \<in> set gs. valid_group g)"
proof (induction gs arbitrary: gi seen)
  case (Cons g gs)
  have "valid_group g \<longleftrightarrow> GName g \<noteq> [] \<and> check_parameters (GName g) (Parameters g) = None \<and>
      Rules g \<noteq> [] \<and> check_rules g 0 [] (Rules g) = None"
    by (auto simp: valid_group_def check_parameters_iff check_rules_iff)
  then show ?case using Cons[of "Suc gi" "GName g # seen"]
    by (simp split: option.split) blast
qed simp

lemma validate_iff: "validate c = None \<longleftrightarrow> valid_config c"
  by (auto simp: validate_def valid_config_def Let_def check_groups_iff)

text \<open>What the rest of the development takes from a valid policy.\<close>

lemma valid_configD:
  assumes "valid_config c" "g \<in> set (Groups c)"
  shows "valid_group g"
  using assms by (simp add: valid_config_def)

lemma valid_groupD:
  assumes "valid_group g" "r \<in> set (Rules g)"
  shows "valid_rule (Parameters g) r"
  using assms by (simp add: valid_group_def)

lemma valid_authz_validation:
  assumes "valid_group g" "r \<in> set (Rules g)" "Engine (Parameters g) = ''extAuthz''"
  shows "\<exists>v. Validation r = Some v \<and> VAction v \<in> {''allow'', ''deny''}"
  using valid_groupD[OF assms(1,2)] assms(3) by (auto simp: valid_rule_def valid_authz_rule_def)

lemma valid_proc_mutation:
  assumes "valid_group g" "r \<in> set (Rules g)" "Engine (Parameters g) = ''extProc''"
    "m \<in> set (Mutations r)"
  shows "valid_mutation (Phase (Parameters g)) m"
  using valid_groupD[OF assms(1,2)] assms(3,4) by (auto simp: valid_rule_def valid_proc_rule_def)

lemma valid_mutation_legal:
  "valid_mutation phase m \<Longrightarrow> Op m \<in> fst ` set op_table \<and> phase \<in> set (legal_phases (Op m))"
  by (auto simp: valid_mutation_def legal_phases_def split: option.splits
      dest!: map_of_SomeD intro: rev_image_eqI)

lemma legal_phases_simps:
  "legal_phases ''setHeader'' = all_phases" "legal_phases ''appendHeader'' = all_phases"
  "legal_phases ''removeHeader'' = all_phases" "legal_phases ''setBody'' = body_phases"
  "legal_phases ''setStatus'' = response_phases" "legal_phases ''directResponse'' = response_phases"
  by (simp_all add: legal_phases_def op_table_def)

section \<open>Byte sizes\<close>

text \<open>The documented units.\<close>

definition size_units :: "(string \<times> int) list" where
  "size_units = [(''KiB'', 2 ^ 10), (''MiB'', 2 ^ 20), (''GiB'', 2 ^ 30), (''KB'', 1000),
     (''MB'', 1000000), (''b'', 1)]"

lemma digit_not_letter: "is_digit c \<Longrightarrow> lower_byte c = c \<and> c \<notin> set ''kmgib''"
  by (auto simp: is_digit_def lower_byte_def is_upper_def byte_def)

lemma size_suffix_unit:
  assumes "(u, mul) \<in> set size_units"
  shows "size_suffix (ToLower (Itoa v @ u)) = (mul, length u)"
proof -
  obtain d ds where d: "rev (Itoa v) = d # ds" by (cases "rev (Itoa v)") auto
  then have "last (Itoa v) = d" by (metis hd_rev list.sel(1))
  then have "is_digit d" using last_Itoa by metis
  then have dl: "lower_byte d = d" "d \<notin> set ''kmgib''" using digit_not_letter by auto
  have r: "rev (ToLower (Itoa v)) = d # ToLower ds"
    using d dl by (simp add: ToLower_def rev_map)
  have lb: "lower_byte (CHR ''K'') = CHR ''k''" "lower_byte (CHR ''M'') = CHR ''m''"
    "lower_byte (CHR ''G'') = CHR ''g''" "lower_byte (CHR ''B'') = CHR ''b''"
    "lower_byte (CHR ''i'') = CHR ''i''" "lower_byte (CHR ''b'') = CHR ''b''"
    by code_simp+
  have nd: "d \<noteq> CHR ''k''" "d \<noteq> CHR ''m''" "d \<noteq> CHR ''g''" "d \<noteq> CHR ''i''" using dl(2) by auto
  have tail: "HasSuffix (ToLower (Itoa v) @ w) p \<longleftrightarrow> HasPrefix (rev w @ d # ToLower ds) (rev p)"
    for w p
    by (simp add: HasSuffix_rev r)
  consider "u = ''KiB''" "mul = 2 ^ 10" | "u = ''MiB''" "mul = 2 ^ 20" | "u = ''GiB''" "mul = 2 ^ 30"
    | "u = ''KB''" "mul = 1000" | "u = ''MB''" "mul = 1000000" | "u = ''b''" "mul = 1"
    using assms unfolding size_units_def by fastforce
  then show ?thesis
    by cases (simp_all add: size_suffix_def tail lb nd)
qed

lemma unit_shape:
  assumes "(u, mul) \<in> set size_units"
  shows "u \<noteq> []" "is_graph (last u)" "\<not> list_all is_digit u"
  using assms by (auto simp: size_units_def is_graph_def is_digit_def byte_def)

lemma BytesSize_unit:
  assumes "(u, mul) \<in> set size_units" "int64 v"
  shows "BytesSize_UnmarshalYAML (ScalarNode (Itoa v @ u)) = Inr (wrap64 (v * mul))"
proof -
  note U = unit_shape[OF assms(1)]
  have t: "TrimSpace (Itoa v @ u) = Itoa v @ u"
    by (rule TrimSpace_id) (use U hd_Itoa in auto)
  have "\<not> list_all is_digit (tl (Itoa v @ u))" using U(3) by (simp add: tl_append split: list.split)
  then obtain e where "ParseInt (Itoa v @ u) = Inl e" using ParseInt_not_digit by blast
  with t size_suffix_unit[OF assms(1), of v] show ?thesis
    by (simp add: BytesSize_UnmarshalYAML_def ParseInt_Itoa[OF assms(2)])
qed

section \<open>Properties\<close>

text \<open>C7: The validation of a configuration succeeds exactly for the valid policies of the language:
  engines, modes, phases, unique names, rule bodies and the table of mutation operations.\<close>

theorem validate_accepts: "validate c = None \<longleftrightarrow> valid_config c"
  by (rule validate_iff)

text \<open>C40: A size written as a number with a unit is the product, computed in 64 bits: it wraps
  around when the product does not fit.\<close>

theorem bytes_size_units:
  assumes "(u, mul) \<in> set size_units" "int64 v"
  shows "BytesSize_UnmarshalYAML (ScalarNode (Itoa v @ u)) = Inr (wrap64 (v * mul)) \<and>
    BytesSize_UnmarshalYAML (ScalarNode (Itoa v)) = Inr v"
  using BytesSize_unit[OF assms] by (simp add: BytesSize_UnmarshalYAML_def ParseInt_Itoa[OF assms(2)])

text \<open>The witness is a size whose product overflows: \<^verbatim>\<open>8589934592GiB\<close> is read as the most negative
  number.\<close>

theorem bytes_size_units_witness:
  "BytesSize_UnmarshalYAML (ScalarNode (Itoa (2 ^ 33) @ ''GiB'')) = Inr (- (2 ^ 63))"
proof -
  have "(''GiB'', 2 ^ 30) \<in> set size_units" by (simp add: size_units_def)
  moreover have "int64 (2 ^ 33)" by (simp add: int64_def)
  ultimately have "BytesSize_UnmarshalYAML (ScalarNode (Itoa (2 ^ 33) @ ''GiB'')) =
      Inr (wrap64 (2 ^ 33 * 2 ^ 30))"
    using bytes_size_units by blast
  then show ?thesis by (simp add: wrap64_def)
qed

text \<open>Filling in the defaults is idempotent and leaves no field of the engines or of the access
  log unset. In particular the number of revealed characters is never 0, although the
  documentation gives 0 the meaning of masking everything.\<close>

theorem applyDefaults_complete:
  "applyDefaults (applyDefaults c) = applyDefaults c \<and>
   Action (ExtAuthz (Defaults (applyDefaults c))) \<noteq> [] \<and>
   DenyStatus (ExtAuthz (Defaults (applyDefaults c))) \<noteq> 0 \<and>
   AzMaxBodyBytes (ExtAuthz (Defaults (applyDefaults c))) \<noteq> 0 \<and>
   ProcMaxBodyBytes (ExtProc (Defaults (applyDefaults c))) \<noteq> 0 \<and>
   OnBodyOverflow (ExtProc (Defaults (applyDefaults c))) \<noteq> [] \<and>
   ExcludeHeaders (Logging (applyDefaults c)) \<noteq> None \<and>
   RedactHeaders (Logging (applyDefaults c)) \<noteq> None \<and>
   RedactQueryParams (Logging (applyDefaults c)) \<noteq> None \<and>
   RedactReveal (Logging (applyDefaults c)) \<noteq> 0"
  by (simp add: applyDefaults_def or_default_def)

end
