(* ===== verification/Policy_Load.thy ===== *)
theory Policy_Load
  imports Policy_Valid
begin

text \<open>
  \<^verbatim>\<open>internal/policy/policy.go\<close>, loading: the expansion of environment variables, the compilation of
  every CEL expression in the scope of its group, and \<^verbatim>\<open>LoadBytes\<close>. The YAML decoder is a parameter
  that is given the decoder of byte sizes, as the library is through the \<^verbatim>\<open>UnmarshalYAML\<close> method.
\<close>

section \<open>Compilation\<close>

definition group_scope :: "'c group \<Rightarrow> scope" where
  "group_scope g =
     (if Engine (Parameters g) = ''extAuthz'' then ScopeRequest
      else if Phase (Parameters g) = ''requestHeaders'' \<or> Phase (Parameters g) = ''requestBody''
        then ScopeRequest
      else if is_response_phase (Phase (Parameters g)) then ScopeResponse
      else 0)"

definition compile_mutation ::
    "('e, 'a, 'c) cel_lib \<Rightarrow> scope \<Rightarrow> string \<Rightarrow> string \<Rightarrow> nat \<Rightarrow> ('e, 'c) env \<Rightarrow> 'c mutation \<Rightarrow>
     cfg_error + ('c mutation \<times> ('e, 'c) env)" where
  "compile_mutation lib sc gn rn mi e m =
     (if Op m = ''directResponse'' then
        (case CompileStringMap lib (MHeaders m) sc e of
           (Inl err, _) \<Rightarrow> Inl (MutationCompile gn rn mi ''headers'' (Op m) err)
         | (Inr hp, e1) \<Rightarrow>
             (case CompileString lib (MBody m) sc e1 of
                (Inl err, _) \<Rightarrow> Inl (MutationCompile gn rn mi ''body'' (Op m) err)
              | (Inr bp, e2) \<Rightarrow> Inr (m\<lparr>headersProg := Some hp, bodyProg := Some bp\<rparr>, e2)))
      else if Op m = ''setHeader'' \<or> Op m = ''appendHeader'' \<or> Op m = ''setBody'' then
        (case CompileString lib (MValue m) sc e of
           (Inl err, _) \<Rightarrow> Inl (MutationCompile gn rn mi ''value'' (Op m) err)
         | (Inr vp, e1) \<Rightarrow> Inr (m\<lparr>valueProg := Some vp\<rparr>, e1))
      else if Op m = ''setStatus'' then
        (case CompileInt lib (Code m) sc e of
           (Inl err, _) \<Rightarrow> Inl (MutationCompile gn rn mi ''code'' (Op m) err)
         | (Inr cp, e1) \<Rightarrow> Inr (m\<lparr>codeProg := Some cp\<rparr>, e1))
      else Inr (m, e))"

definition compile_rule ::
    "('e, 'a, 'c) cel_lib \<Rightarrow> scope \<Rightarrow> string \<Rightarrow> nat \<Rightarrow> ('e, 'c) env \<Rightarrow> 'c rule \<Rightarrow>
     cfg_error + ('c rule \<times> ('e, 'c) env)" where
  "compile_rule lib sc gn ri e r =
     (case Compile lib (RMatch r) sc e of
        (Inl err, _) \<Rightarrow> Inl (RuleCompile gn (RName r) err)
      | (Inr p, e1) \<Rightarrow>
          (case mapE (compile_mutation lib sc gn (RName r)) 0 e1 (Mutations r) of
             Inl err \<Rightarrow> Inl err
           | Inr (ms, e2) \<Rightarrow> Inr (r\<lparr>Mutations := ms, rmatchProg := Some p\<rparr>, e2)))"

definition compile_match ::
    "('e, 'a, 'c) cel_lib \<Rightarrow> ('e, 'c) env \<Rightarrow> 'c group \<Rightarrow> cfg_error + ('c group \<times> ('e, 'c) env)" where
  "compile_match lib e g =
     (if \<not> blank (GMatch g) then
        (case Compile lib (GMatch g) (group_scope g) e of
           (Inl err, _) \<Rightarrow> Inl (GroupCompile (GName g) err)
         | (Inr p, e1) \<Rightarrow> Inr (g\<lparr>gmatchProg := Some p\<rparr>, e1))
      else Inr (g, e))"

definition compile_group ::
    "('e, 'a, 'c) cel_lib \<Rightarrow> nat \<Rightarrow> ('e, 'c) env \<Rightarrow> 'c group \<Rightarrow> cfg_error + ('c group \<times> ('e, 'c) env)" where
  "compile_group lib gi e g =
     (case compile_match lib e g of
        Inl err \<Rightarrow> Inl err
      | Inr (g1, e1) \<Rightarrow>
          (case mapE (compile_rule lib (group_scope g) (GName g)) 0 e1 (Rules g) of
             Inl err \<Rightarrow> Inl err
           | Inr (rs, e2) \<Rightarrow> Inr (g1\<lparr>Rules := rs\<rparr>, e2)))"

definition policy_compile ::
    "('e, 'a, 'c) cel_lib \<Rightarrow> ('e, 'c) env \<Rightarrow> 'c group list \<Rightarrow> cfg_error + ('c group list \<times> ('e, 'c) env)" where
  "policy_compile lib e gs = mapE (compile_group lib) 0 e gs"

section \<open>Loading\<close>

type_synonym ('e, 'c) yaml_decoder =
  "(yaml_node \<Rightarrow> size_error + int) \<Rightarrow> string \<Rightarrow> string + ('e, 'c) config"

text \<open>The decoder starts from the zero \<^verbatim>\<open>Config\<close> and fills exported fields only: whatever a decoder answers, the
  compiled programs, the environment and the registry are nil in what \<^verbatim>\<open>LoadBytes\<close> goes on with.\<close>

definition erase_mutation :: "'c mutation \<Rightarrow> 'c mutation" where
  "erase_mutation m = m\<lparr>valueProg := None, codeProg := None, headersProg := None, bodyProg := None\<rparr>"

definition erase_rule :: "'c rule \<Rightarrow> 'c rule" where
  "erase_rule r = r\<lparr>Mutations := map erase_mutation (Mutations r), rmatchProg := None\<rparr>"

definition erase_group :: "'c group \<Rightarrow> 'c group" where
  "erase_group g = g\<lparr>Rules := map erase_rule (Rules g), gmatchProg := None\<rparr>"

definition exported_fields :: "('e, 'c) config \<Rightarrow> ('e, 'c) config" where
  "exported_fields c = c\<lparr>Groups := map erase_group (Groups c), cenv := None, cregistry := None\<rparr>"

definition LoadBytes ::
    "('e, 'a, 'c) cel_lib \<Rightarrow> ('e, 'c) yaml_decoder \<Rightarrow> string \<Rightarrow> cfg_error + ('e, 'c) config" where
  "LoadBytes lib yaml b =
     (case yaml BytesSize_UnmarshalYAML b of
        Inl err \<Rightarrow> Inl (YamlError err)
      | Inr c0 \<Rightarrow>
          let c = applyDefaults (exported_fields c0)
          in case validate c of
               Some err \<Rightarrow> Inl err
             | None \<Rightarrow>
                 (case celenv_New lib of
                    Inl err \<Rightarrow> Inl (EnvError err)
                  | Inr env \<Rightarrow>
                      (case facts_New (CFacts c) of
                         Inl err \<Rightarrow> Inl (FactsError err)
                       | Inr reg \<Rightarrow>
                           (case policy_compile lib env (Groups c) of
                              Inl err \<Rightarrow> Inl err
                            | Inr (gs, env') \<Rightarrow>
                                Inr (c\<lparr>Groups := gs, cenv := Some env', cregistry := Some reg\<rparr>)))))"

definition isShellSpecialVar :: "char \<Rightarrow> bool" where
  "isShellSpecialVar c \<longleftrightarrow> c \<in> set ''*#$@!?-'' \<or> is_digit c"

definition isAlphaNum :: "char \<Rightarrow> bool" where
  "isAlphaNum c \<longleftrightarrow> c = CHR ''_'' \<or> is_digit c \<or> is_lower c \<or> is_upper c"

text \<open>\<^verbatim>\<open>os.Expand\<close>: the name after a dollar sign and the number of bytes it takes.\<close>

definition getShellName :: "string \<Rightarrow> string \<times> nat" where
  "getShellName s =
     (case s of
        [] \<Rightarrow> ([], 0)
      | c # cs \<Rightarrow>
          if c = CHR ''{'' then
            (case cs of
               d # e # _ \<Rightarrow>
                 if isShellSpecialVar d \<and> e = CHR ''}'' then ([d], 3)
                 else (case IndexByte cs (CHR ''}'') of
                         None \<Rightarrow> ([], 1)
                       | Some i \<Rightarrow> if i = 0 then ([], 2) else (take i cs, i + 2))
             | _ \<Rightarrow> (case IndexByte cs (CHR ''}'') of
                       None \<Rightarrow> ([], 1)
                     | Some i \<Rightarrow> if i = 0 then ([], 2) else (take i cs, i + 2)))
          else if isShellSpecialVar c then ([c], 1)
          else (takeWhile isAlphaNum s, length (takeWhile isAlphaNum s)))"

function ExpandEnv :: "(string \<Rightarrow> string) \<Rightarrow> string \<Rightarrow> string" where
  "ExpandEnv env s =
     (case s of
        [] \<Rightarrow> []
      | c # cs \<Rightarrow>
          if c = CHR ''$'' \<and> cs \<noteq> [] then
            let (name, w) = getShellName cs
            in (if name = [] \<and> w > 0 then [] else if name = [] then [c] else env name) @
               ExpandEnv env (drop w cs)
          else c # ExpandEnv env cs)"
  by pat_completeness auto
termination
  by (relation "measure (length \<circ> snd)") auto

declare ExpandEnv.simps [simp del]

datatype load_error = ReadError string | ConfigError cfg_error

definition LoadFile ::
    "(string \<Rightarrow> string + string) \<Rightarrow> (string \<Rightarrow> string) \<Rightarrow> ('e, 'a, 'c) cel_lib \<Rightarrow>
     ('e, 'c) yaml_decoder \<Rightarrow> string \<Rightarrow> load_error + ('e, 'c) config" where
  "LoadFile read_file env lib yaml path =
     (case read_file path of
        Inl err \<Rightarrow> Inl (ReadError err)
      | Inr raw \<Rightarrow>
          (case LoadBytes lib yaml (ExpandEnv env raw) of
             Inl err \<Rightarrow> Inl (ConfigError err)
           | Inr c \<Rightarrow> Inr c))"

text \<open>\<^verbatim>\<open>Config.Start\<close> and the cancellation of \<^verbatim>\<open>Config.Stop\<close> hand over to the registry.\<close>

definition policy_Start ::
    "(string \<Rightarrow> string + string) \<Rightarrow> (urlspec \<Rightarrow> string + string) \<Rightarrow> ('e, 'c) config \<Rightarrow>
     (fact_error option \<times> ('e, 'c) config) go" where
  "policy_Start read_file get c =
     (case cregistry c of
        None \<Rightarrow> Some (None, c)
      | Some reg \<Rightarrow>
          (case facts_Start read_file get reg of
             None \<Rightarrow> None
           | Some (err, reg') \<Rightarrow> Some (err, c\<lparr>cregistry := Some reg'\<rparr>)))"

definition policy_Stop :: "('e, 'c) config \<Rightarrow> ('e, 'c) config" where
  "policy_Stop c =
     (case cregistry c of
        None \<Rightarrow> c
      | Some reg \<Rightarrow> c\<lparr>cregistry := Some (stop_cancel reg)\<rparr>)"

section \<open>What a compiled policy is\<close>

text \<open>The program of an expression is what a fresh compilation in the right scope and at the right
  type gives. Where there is no expression to compile (a blank match of a group, a field that the operation of a
  mutation does not have) there is no program.\<close>

definition prog_for ::
    "('e, 'a, 'c) cel_lib \<Rightarrow> 'e \<Rightarrow> 'e \<Rightarrow> scope \<Rightarrow> string \<Rightarrow> string \<Rightarrow> 'c prog option \<Rightarrow> bool" where
  "prog_for lib e1 e2 sc kind src p \<longleftrightarrow>
     (\<exists>q. p = Some q \<and> fresh_answer lib e1 e2 (sc, kind, src) = Inr q)"

definition compiled_mutation ::
    "('e, 'a, 'c) cel_lib \<Rightarrow> 'e \<Rightarrow> 'e \<Rightarrow> scope \<Rightarrow> 'c mutation \<Rightarrow> bool" where
  "compiled_mutation lib e1 e2 sc m \<longleftrightarrow>
     (if Op m = ''directResponse''
      then prog_for lib e1 e2 sc ''stringmap'' (MHeaders m) (headersProg m) \<and>
        prog_for lib e1 e2 sc ''string'' (MBody m) (bodyProg m)
      else headersProg m = None \<and> bodyProg m = None) \<and>
     (if Op m \<in> {''setHeader'', ''appendHeader'', ''setBody''}
      then prog_for lib e1 e2 sc ''string'' (MValue m) (valueProg m) else valueProg m = None) \<and>
     (if Op m = ''setStatus'' then prog_for lib e1 e2 sc ''int'' (Code m) (codeProg m) else codeProg m = None)"

definition compiled_rule ::
    "('e, 'a, 'c) cel_lib \<Rightarrow> 'e \<Rightarrow> 'e \<Rightarrow> scope \<Rightarrow> 'c rule \<Rightarrow> bool" where
  "compiled_rule lib e1 e2 sc r \<longleftrightarrow>
     prog_for lib e1 e2 sc ''bool'' (RMatch r) (rmatchProg r) \<and>
     (\<forall>m \<in> set (Mutations r). compiled_mutation lib e1 e2 sc m)"

text \<open>The response variables exist in the response phases of ext-proc alone.\<close>

definition declared_scope :: "'c group \<Rightarrow> scope" where
  "declared_scope g =
     (if Engine (Parameters g) \<noteq> ''extAuthz'' \<and> Phase (Parameters g) \<in> {''responseHeaders'', ''responseBody''}
      then ScopeResponse else ScopeRequest)"

lemma group_scope_declared: "group_scope g = declared_scope g"
  by (auto simp: group_scope_def declared_scope_def is_response_phase_def ScopeRequest_def)

definition compiled_group :: "('e, 'a, 'c) cel_lib \<Rightarrow> 'e \<Rightarrow> 'e \<Rightarrow> 'c group \<Rightarrow> bool" where
  "compiled_group lib e1 e2 g \<longleftrightarrow>
     (if blank (GMatch g) then gmatchProg g = None
      else prog_for lib e1 e2 (declared_scope g) ''bool'' (GMatch g) (gmatchProg g)) \<and>
     (\<forall>r \<in> set (Rules g). compiled_rule lib e1 e2 (declared_scope g) r)"

lemma ask_envD:
  assumes "ask_env lib (sc, kind, src) e = (Inr p, e')" "cache_ok lib e1 e2 e"
  shows "cache_ok lib e1 e2 e' \<and> prog_for lib e1 e2 sc kind src (Some p)"
  using progs.ask_answer[OF assms(2), of "(sc, kind, src)"]
    progs.ask_valid[OF assms(2), of "(sc, kind, src)"] assms(1)
  by (simp add: prog_for_def)

lemma erase_mutation_nil:
  "erase_mutation m = m \<Longrightarrow>
   valueProg m = None \<and> codeProg m = None \<and> headersProg m = None \<and> bodyProg m = None"
  by (cases m) (simp add: erase_mutation_def)

lemma erase_rule_nil: "erase_rule r = r \<Longrightarrow> m \<in> set (Mutations r) \<Longrightarrow> erase_mutation m = m"
  by (cases r) (simp add: erase_rule_def map_idI map_eq_conv[of _ _ id, simplified])

lemma erase_group_nil:
  "erase_group g = g \<Longrightarrow> gmatchProg g = None \<and> (\<forall>r \<in> set (Rules g). erase_rule r = r)"
  by (cases g) (simp add: erase_group_def map_eq_conv[of _ _ id, simplified])

lemma erase_idem [simp]:
  "erase_mutation (erase_mutation m) = erase_mutation m" "erase_rule (erase_rule r) = erase_rule r"
  "erase_group (erase_group g) = erase_group g"
  by (simp_all add: erase_mutation_def erase_rule_def erase_group_def comp_def)

lemma compile_mutation_ok:
  assumes "cache_ok lib e1 e2 e" "compile_mutation lib sc gn rn mi e m = Inr (m', e')" "erase_mutation m = m"
  shows "cache_ok lib e1 e2 e' \<and> compiled_mutation lib e1 e2 sc m' \<and> erase_mutation m' = erase_mutation m"
proof -
  consider (direct) "Op m = ''directResponse''"
    | (val) "Op m \<in> {''setHeader'', ''appendHeader'', ''setBody''}"
    | (status) "Op m = ''setStatus''"
    | (other) "Op m \<notin> {''directResponse'', ''setHeader'', ''appendHeader'', ''setBody'', ''setStatus''}"
    by auto
  moreover note n = erase_mutation_nil[OF assms(3)]
  ultimately show ?thesis
  proof cases
    case direct
    then obtain hp ea bp where c: "ask_env lib (sc, ''stringmap'', MHeaders m) e = (Inr hp, ea)"
      "ask_env lib (sc, ''string'', MBody m) ea = (Inr bp, e')"
      "m' = m\<lparr>headersProg := Some hp, bodyProg := Some bp\<rparr>"
      using assms(2) by (auto simp: compile_mutation_def compile_asks split: sum.splits prod.splits)
    from ask_envD[OF c(1) assms(1)] ask_envD[OF c(2)] c(3) direct n show ?thesis
      by (simp add: compiled_mutation_def erase_mutation_def)
  next
    case val
    then obtain vp where c: "ask_env lib (sc, ''string'', MValue m) e = (Inr vp, e')"
      "m' = m\<lparr>valueProg := Some vp\<rparr>"
      using assms(2) by (auto simp: compile_mutation_def compile_asks split: sum.splits prod.splits)
    from ask_envD[OF c(1) assms(1)] c(2) val n show ?thesis
      by (auto simp: compiled_mutation_def erase_mutation_def)
  next
    case status
    then obtain cp where c: "ask_env lib (sc, ''int'', Code m) e = (Inr cp, e')"
      "m' = m\<lparr>codeProg := Some cp\<rparr>"
      using assms(2) by (auto simp: compile_mutation_def compile_asks split: sum.splits prod.splits)
    from ask_envD[OF c(1) assms(1)] c(2) status n show ?thesis
      by (simp add: compiled_mutation_def erase_mutation_def)
  next
    case other
    with assms n show ?thesis by (simp add: compile_mutation_def compiled_mutation_def)
  qed
qed

lemma list_all2_map_eq: "list_all2 (\<lambda>x y. P y \<and> f y = f x) xs ys \<Longrightarrow> map f ys = map f xs \<and> (\<forall>y \<in> set ys. P y)"
  by (induction rule: list_all2_induct) auto

lemma compile_rule_ok:
  assumes "cache_ok lib e1 e2 e" "compile_rule lib sc gn ri e r = Inr (r', e')" "erase_rule r = r"
  shows "cache_ok lib e1 e2 e' \<and> compiled_rule lib e1 e2 sc r' \<and> erase_rule r' = erase_rule r"
proof -
  obtain p ea ms where c: "ask_env lib (sc, ''bool'', RMatch r) e = (Inr p, ea)"
    "mapE (compile_mutation lib sc gn (RName r)) 0 ea (Mutations r) = Inr (ms, e')"
    "r' = r\<lparr>Mutations := ms, rmatchProg := Some p\<rparr>"
    using assms(2) by (auto simp: compile_rule_def compile_asks split: sum.splits prod.splits)
  note a = ask_envD[OF c(1) assms(1)]
  have "cache_ok lib e1 e2 e' \<and>
      list_all2 (\<lambda>m m'. compiled_mutation lib e1 e2 sc m' \<and> erase_mutation m' = erase_mutation m)
        (Mutations r) ms"
    by (rule mapE_rule[OF c(2), where I = "cache_ok lib e1 e2"])
       (use a compile_mutation_ok[of lib e1 e2] erase_rule_nil[OF assms(3)] in blast)+
  with a c(3) list_all2_map_eq[of _ erase_mutation "Mutations r" ms] show ?thesis
    by (auto simp: compiled_rule_def erase_rule_def)
qed

lemma compile_match_ok:
  assumes "cache_ok lib e1 e2 e" "compile_match lib e g = Inr (g1, e')" "gmatchProg g = None"
  shows "cache_ok lib e1 e2 e' \<and> erase_group g1 = erase_group g \<and> Rules g1 = Rules g \<and>
    (if blank (GMatch g) then gmatchProg g1 = None
     else prog_for lib e1 e2 (group_scope g) ''bool'' (GMatch g) (gmatchProg g1))"
proof (cases "blank (GMatch g)")
  case False
  then obtain p where c: "ask_env lib (group_scope g, ''bool'', GMatch g) e = (Inr p, e')"
    "g1 = g\<lparr>gmatchProg := Some p\<rparr>"
    using assms(2) by (auto simp: compile_match_def compile_asks split: sum.splits prod.splits)
  from ask_envD[OF c(1) assms(1)] c(2) False show ?thesis by (simp add: erase_group_def)
qed (use assms in \<open>simp add: compile_match_def\<close>)

lemma group_scope_erase: "erase_group g' = erase_group g \<Longrightarrow> group_scope g' = group_scope g"
  and GMatch_erase: "erase_group g' = erase_group g \<Longrightarrow> GMatch g' = GMatch g"
  by (cases g; cases g'; simp add: erase_group_def group_scope_def)+

lemma compile_group_ok:
  assumes "cache_ok lib e1 e2 e" "compile_group lib gi e g = Inr (g', e')" "erase_group g = g"
  shows "cache_ok lib e1 e2 e' \<and> compiled_group lib e1 e2 g' \<and> erase_group g' = erase_group g"
proof -
  obtain g1 ea rs where c: "compile_match lib e g = Inr (g1, ea)"
    "mapE (compile_rule lib (group_scope g) (GName g)) 0 ea (Rules g) = Inr (rs, e')"
    "g' = g1\<lparr>Rules := rs\<rparr>"
    using assms(2) by (auto simp: compile_group_def split: sum.splits prod.splits)
  note n = erase_group_nil[OF assms(3)]
  note a = compile_match_ok[OF assms(1) c(1) conjunct1[OF n]]
  have b: "cache_ok lib e1 e2 e' \<and>
      list_all2 (\<lambda>r r'. compiled_rule lib e1 e2 (group_scope g) r' \<and> erase_rule r' = erase_rule r)
        (Rules g) rs"
    by (rule mapE_rule[OF c(2), where I = "cache_ok lib e1 e2"])
       (use a compile_rule_ok[of lib e1 e2] n in blast)+
  then have rs: "map erase_rule rs = map erase_rule (Rules g)"
      "\<forall>r \<in> set rs. compiled_rule lib e1 e2 (group_scope g) r"
    using list_all2_map_eq[of _ erase_rule "Rules g" rs] by auto
  have er: "erase_group g' = erase_group g"
    using a c(3) rs(1) by (cases g; cases g1) (simp add: erase_group_def)
  have "gmatchProg g' = gmatchProg g1" "Rules g' = rs" using c(3) by simp_all
  with a b rs er show ?thesis
    by (simp add: compiled_group_def group_scope_declared[symmetric] group_scope_erase[OF er] GMatch_erase[OF er])
qed

lemma policy_compile_ok:
  assumes "cache_ok lib e1 e2 e" "policy_compile lib e gs = Inr (gs', e')" "\<forall>g \<in> set gs. erase_group g = g"
  shows "(\<forall>g \<in> set gs'. compiled_group lib e1 e2 g) \<and> map erase_group gs' = map erase_group gs"
proof -
  have "cache_ok lib e1 e2 e' \<and>
      list_all2 (\<lambda>g g'. compiled_group lib e1 e2 g' \<and> erase_group g' = erase_group g) gs gs'"
    by (rule mapE_rule[OF assms(2)[unfolded policy_compile_def], where I = "cache_ok lib e1 e2"])
       (use assms(1,3) compile_group_ok[of lib e1 e2] in blast)+
  then show ?thesis using list_all2_map_eq[of _ erase_group gs gs'] by auto
qed

section \<open>Validity does not depend on the programs\<close>

lemma erase_mutation_fields [simp]:
  "Op (erase_mutation m) = Op m" "field_text (erase_mutation m) f = field_text m f"
  "MStatus (erase_mutation m) = MStatus m"
  by (simp_all add: erase_mutation_def) (cases f; simp)

lemma erase_rule_fields [simp]:
  "RName (erase_rule r) = RName r" "RMatch (erase_rule r) = RMatch r"
  "Validation (erase_rule r) = Validation r" "Mutations (erase_rule r) = map erase_mutation (Mutations r)"
  by (simp_all add: erase_rule_def)

lemma erase_group_fields [simp]:
  "GName (erase_group g) = GName g" "Parameters (erase_group g) = Parameters g"
  "Rules (erase_group g) = map erase_rule (Rules g)"
  by (simp_all add: erase_group_def)

lemma valid_mutation_erase [simp]: "valid_mutation p (erase_mutation m) = valid_mutation p m"
  by (simp add: valid_mutation_def split: option.split)

lemma valid_rule_erase [simp]: "valid_rule p (erase_rule r) = valid_rule p r"
  by (simp add: valid_rule_def valid_authz_rule_def valid_proc_rule_def)

lemma valid_group_erase [simp]: "valid_group (erase_group g) = valid_group g"
  by (simp add: valid_group_def comp_def)

lemma valid_groups_cong:
  assumes "map erase_group gs' = map erase_group gs"
  shows "(gs' = []) = (gs = [])" "map GName gs' = map GName gs"
    "(\<forall>g \<in> set gs'. valid_group g) = (\<forall>g \<in> set gs. valid_group g)"
proof -
  have *: "(\<forall>g \<in> set gs. valid_group g) = (\<forall>g \<in> set (map erase_group gs). valid_group g)"
    for gs :: "'a group list" by simp
  show "(\<forall>g \<in> set gs'. valid_group g) = (\<forall>g \<in> set gs. valid_group g)"
    unfolding *[of gs'] *[of gs] assms ..
  show "(gs' = []) = (gs = [])" using assms by (metis map_is_Nil_conv)
  have "map GName (map erase_group gs') = map GName (map erase_group gs)" by (simp only: assms)
  then show "map GName gs' = map GName gs" by (simp add: comp_def)
qed

text \<open>What loading establishes, and all that the evaluators rely on.\<close>

definition loaded :: "('e, 'a, 'c) cel_lib \<Rightarrow> ('e, 'c) config \<Rightarrow> bool" where
  "loaded lib c \<longleftrightarrow> valid_config c \<and>
     (\<exists>env reg. cenv c = Some env \<and> cregistry c = Some reg \<and> facts_New (CFacts c) = Inr reg \<and>
        (\<forall>g \<in> set (Groups c). compiled_group lib (requestEnv env) (responseEnv env) g))"

lemma policy_compile_envs:
  assumes "cache_ok lib e1 e2 e" "policy_compile lib e gs = Inr (gs', e')" "\<forall>g \<in> set gs. erase_group g = g"
  shows "same_envs e1 e2 e'"
proof -
  have "cache_ok lib e1 e2 e' \<and> list_all2 (\<lambda>g g'. True) gs gs'"
    by (rule mapE_rule[OF assms(2)[unfolded policy_compile_def], where I = "cache_ok lib e1 e2"])
       (use assms(1,3) compile_group_ok[of lib e1 e2] in blast)+
  then show ?thesis by (simp add: cache_ok_def)
qed

lemma Groups_applyDefaults [simp]: "Groups (applyDefaults c) = Groups c"
  by (simp add: applyDefaults_def)

lemma LoadBytes_loaded:
  assumes "LoadBytes lib yaml b = Inr c"
  shows "loaded lib c \<and> (\<exists>c0. yaml BytesSize_UnmarshalYAML b = Inr c0 \<and>
    exported_fields c = applyDefaults (exported_fields c0))"
proof -
  obtain c0 d env reg gs env' where L: "validate d = None" "celenv_New lib = Inr env"
    "facts_New (CFacts d) = Inr reg" "policy_compile lib env (Groups d) = Inr (gs, env')"
    "c = d\<lparr>Groups := gs, cenv := Some env', cregistry := Some reg\<rparr>"
    and d: "yaml BytesSize_UnmarshalYAML b = Inr c0" "d = applyDefaults (exported_fields c0)"
    using assms by (auto simp: LoadBytes_def Let_def split: sum.splits option.splits prod.splits)
  note ok = celenv_New_ok[OF L(2)]
  have n: "\<forall>g \<in> set (Groups d). erase_group g = g" using d(2) by (auto simp: exported_fields_def)
  note gs = policy_compile_ok[OF ok L(4) n]
  have "valid_config d" using L(1) by (simp add: validate_iff)
  then have "valid_config c"
    using valid_groups_cong[OF conjunct2[OF gs]] L(5) by (simp add: valid_config_def)
  moreover have "requestEnv env' = requestEnv env" "responseEnv env' = responseEnv env"
    using policy_compile_envs[OF ok L(4) n] by (simp_all add: same_envs_def)
  ultimately have "loaded lib c" using gs L(3,5) by (simp add: loaded_def)
  moreover have "map erase_group gs = map erase_group (Groups c0)"
    using gs d(2) by (simp add: exported_fields_def comp_def)
  then have "exported_fields c = d"
    using L(5) d(2) by (simp add: exported_fields_def applyDefaults_def)
  ultimately show ?thesis using d by blast
qed

lemma LoadBytes_keeps:
  assumes "LoadBytes lib yaml b = Inr c" "yaml BytesSize_UnmarshalYAML b = Inr c0"
  shows "Defaults c = Defaults (applyDefaults c0) \<and> Logging c = Logging (applyDefaults c0)"
proof -
  have "exported_fields c = applyDefaults (exported_fields c0)" using LoadBytes_loaded[OF assms(1)] assms(2) by auto
  then have "Defaults (exported_fields c) = Defaults (applyDefaults (exported_fields c0))"
    "Logging (exported_fields c) = Logging (applyDefaults (exported_fields c0))" by simp_all
  then show ?thesis by (simp add: exported_fields_def applyDefaults_def)
qed

text \<open>The part of it that stays true while the facts are refreshed.\<close>

definition runnable :: "('e, 'a, 'c) cel_lib \<Rightarrow> ('e, 'c) config \<Rightarrow> bool" where
  "runnable lib c \<longleftrightarrow> valid_config c \<and> (\<exists>e1 e2. \<forall>g \<in> set (Groups c). compiled_group lib e1 e2 g)"

lemma LoadBytes_runnable: "LoadBytes lib yaml b = Inr c \<Longrightarrow> runnable lib c"
  using LoadBytes_loaded[of lib yaml b c] by (auto simp: loaded_def runnable_def)

lemma runnable_registry [simp]: "runnable lib (c\<lparr>cregistry := r\<rparr>) = runnable lib c"
  by (simp add: runnable_def valid_config_def)

lemma runnableD:
  assumes "runnable lib c" "g \<in> set (Groups c)"
  shows "valid_group g" "\<exists>e1 e2. compiled_group lib e1 e2 g"
  using assms by (auto simp: runnable_def valid_config_def)

lemma runnable_rule:
  assumes "runnable lib c" "g \<in> set (Groups c)" "r \<in> set (Rules g)"
  shows "\<exists>p. rmatchProg r = Some p"
  using runnableD(2)[OF assms(1,2)] assms(3)
  by (auto simp: compiled_group_def compiled_rule_def prog_for_def)

lemma runnable_mutation:
  assumes "runnable lib c" "g \<in> set (Groups c)" "r \<in> set (Rules g)" "m \<in> set (Mutations r)"
  shows "Op m = ''directResponse'' \<Longrightarrow> \<exists>h b. headersProg m = Some h \<and> bodyProg m = Some b"
    "Op m \<in> {''setHeader'', ''appendHeader'', ''setBody''} \<Longrightarrow> \<exists>v. valueProg m = Some v"
    "Op m = ''setStatus'' \<Longrightarrow> \<exists>v. codeProg m = Some v"
proof -
  obtain e1 e2 where "compiled_mutation lib e1 e2 (declared_scope g) m"
    using runnableD(2)[OF assms(1,2)] assms(3,4) by (auto simp: compiled_group_def compiled_rule_def)
  note m = this[unfolded compiled_mutation_def prog_for_def]
  show "Op m = ''directResponse'' \<Longrightarrow> \<exists>h b. headersProg m = Some h \<and> bodyProg m = Some b" using m by auto
  show "Op m \<in> {''setHeader'', ''appendHeader'', ''setBody''} \<Longrightarrow> \<exists>v. valueProg m = Some v" using m by auto
  show "Op m = ''setStatus'' \<Longrightarrow> \<exists>v. codeProg m = Some v" using m by auto
qed

section \<open>A small policy\<close>

text \<open>Used by the witnesses: a library that takes every text for an expression of dynamic type, and
  a policy with one group per engine.\<close>

definition sample_lib :: "(nat, string, unit) cel_lib" where
  "sample_lib = \<lparr>NewEnv = (\<lambda>vs _. Inr (length vs)), EnvCompile = (\<lambda>_ src. Inr src),
     OutputType = (\<lambda>_. CelDyn), EnvProgram = (\<lambda>_ src. Inr (\<lambda>_ _.
       if src = ''true'' then Inr (RefBool True)
       else if src = ''false'' then Inr (RefBool False) else Inr (RefString src)))\<rparr>"

definition sample_defaults :: defaults where
  "sample_defaults = \<lparr>ExtAuthz = \<lparr>Action = ''deny'', DenyStatus = 403, DenyBody = ''Forbidden'',
       AllowOnError = False, AzMaxBodyBytes = 1024\<rparr>,
     ExtProc = \<lparr>ProcMaxBodyBytes = 1024, OnBodyOverflow = ''fail''\<rparr>, DefDryRun = False\<rparr>"

definition sample_logging :: logging where
  "sample_logging = \<lparr>Level = ''info'', Format = ''json'', LogBody = False,
     ExcludeHeaders = Some [''cookie''], RedactHeaders = Some [''authorization''], RedactReveal = 6,
     RedactQueryParams = Some [''code'']\<rparr>"

definition sample_rule :: "unit rule" where
  "sample_rule = \<lparr>RName = ''ok'', RDescription = [], RMatch = ''true'',
     Validation = Some \<lparr>VAction = ''allow''\<rparr>, Mutations = [], RDryRun = False, rmatchProg = None\<rparr>"

definition sample_group :: "unit group" where
  "sample_group = \<lparr>GName = ''api'', GDescription = [],
     Parameters = \<lparr>Engine = ''extAuthz'', Mode = ''firstMatch'', Phase = []\<rparr>, GMatch = [],
     Rules = [sample_rule], gmatchProg = None\<rparr>"

definition sample_mutation :: "unit mutation" where
  "sample_mutation = \<lparr>Op = ''setHeader'', MName = ''x-env'', MValue = ''prod'', Code = [], MStatus = 0,
     MHeaders = [], MBody = [], valueProg = None, codeProg = None, headersProg = None, bodyProg = None\<rparr>"

definition sample_proc_group :: "unit group" where
  "sample_proc_group = \<lparr>GName = ''tag'', GDescription = [],
     Parameters = \<lparr>Engine = ''extProc'', Mode = ''applyAll'', Phase = ''requestHeaders''\<rparr>, GMatch = [],
     Rules = [sample_rule\<lparr>Validation := None, Mutations := [sample_mutation]\<rparr>], gmatchProg = None\<rparr>"

definition sample_config :: "(nat, unit) config" where
  "sample_config = \<lparr>Defaults = sample_defaults, Logging = sample_logging, CFacts = [],
     Groups = [sample_group, sample_proc_group], cenv = None, cregistry = None\<rparr>"

definition sample_yaml :: "(nat, unit) yaml_decoder" where
  "sample_yaml = (\<lambda>_ _. Inr sample_config)"

lemmas sample_defs = sample_lib_def sample_defaults_def sample_logging_def sample_rule_def
  sample_group_def sample_mutation_def sample_proc_group_def sample_config_def sample_yaml_def

definition sample_policy :: "(nat, unit) config" where
  "sample_policy = projr (LoadBytes sample_lib sample_yaml [])"

lemma not_blank: "s \<noteq> [] \<Longrightarrow> is_graph (hd s) \<Longrightarrow> is_graph (last s) \<Longrightarrow> \<not> blank s"
  by (simp add: blank_def TrimSpace_id)

lemma sample_blank:
  "\<not> blank ''true''" "\<not> blank ''x-env''" "\<not> blank ''prod''" "blank []"
  by (simp_all add: not_blank is_graph_def byte_def) (simp add: blank_def)

lemma sample_exported: "exported_fields sample_config = sample_config"
  by (simp add: exported_fields_def erase_group_def erase_rule_def erase_mutation_def sample_defs)

lemma sample_valid: "validate (applyDefaults sample_config) = None"
  by (simp add: validate_def applyDefaults_def or_default_def sample_defs Let_def check_parameters_def
      check_authz_rule_def check_proc_rule_def check_mutation_def sample_blank)

lemma sample_policy_loads: "LoadBytes sample_lib sample_yaml [] = Inr sample_policy"
proof -
  have "\<exists>c. LoadBytes sample_lib sample_yaml [] = Inr c"
    unfolding LoadBytes_def sample_yaml_def
    by (simp add: sample_valid sample_exported, simp add: applyDefaults_def sample_defs celenv_New_def facts_New_def
        policy_compile_def compile_group_def compile_match_def compile_rule_def compile_mutation_def
        Compile_def CompileString_def env_compile_def compile_fresh_def envForScope_def group_scope_def
        sample_blank Let_def ScopeRequest_def)
  then show ?thesis by (auto simp: sample_policy_def)
qed

lemma sample_policy_settings:
  "Defaults sample_policy = sample_defaults" "Logging sample_policy = sample_logging"
proof -
  have "Defaults sample_policy = Defaults (applyDefaults sample_config)"
    "Logging sample_policy = Logging (applyDefaults sample_config)"
    using LoadBytes_keeps[OF sample_policy_loads] by (simp_all add: sample_yaml_def)
  then show "Defaults sample_policy = sample_defaults" "Logging sample_policy = sample_logging"
    by (simp_all add: applyDefaults_def or_default_def sample_defs)
qed

lemma sample_policy_defaults:
  "Action (ExtAuthz (Defaults sample_policy)) = ''deny''"
  "\<not> AllowOnError (ExtAuthz (Defaults sample_policy))"
  by (simp_all add: sample_policy_settings sample_defaults_def)

section \<open>Properties\<close>

text \<open>C8: A policy that loads is the declared one with the defaults filled in; it is valid, has its facts registered, and
  the programs it holds are exactly these: for every expression that its place requires, the
  compilation of the declared text at the declared type, in the request scope for extAuthz groups
  and request phases and in the response scope for response phases; none for a blank match of a group, and none in
  the fields of a mutation that its operation does not have.\<close>

theorem loaded_policy_is_compiled:
  assumes "LoadBytes lib yaml b = Inr c"
  shows "(\<exists>c0. yaml BytesSize_UnmarshalYAML b = Inr c0 \<and> exported_fields c = applyDefaults (exported_fields c0)) \<and>
    valid_config c \<and>
    (\<exists>env reg. cenv c = Some env \<and> cregistry c = Some reg \<and> facts_New (CFacts c) = Inr reg \<and>
       (\<forall>g \<in> set (Groups c). compiled_group lib (requestEnv env) (responseEnv env) g))"
  using LoadBytes_loaded[OF assms] by (simp add: loaded_def)

theorem loaded_policy_is_compiled_witness:
  "LoadBytes sample_lib sample_yaml [] = Inr sample_policy \<and> valid_config sample_policy \<and>
   exported_fields sample_policy = applyDefaults sample_config"
  using sample_policy_loads loaded_policy_is_compiled[OF sample_policy_loads]
  by (simp add: sample_yaml_def sample_exported)

end
