(* ===== verification/Go_Url.thy ===== *)
theory Go_Url
  imports Go_Values
begin

text \<open>
  The part of \<^verbatim>\<open>net/url\<close> and \<^verbatim>\<open>net\<close> that the program uses on texts: query unescaping, query parsing
  and \<^verbatim>\<open>net.SplitHostPort\<close>.
\<close>

section \<open>Queries\<close>

definition is_hex :: "char \<Rightarrow> bool" where
  "is_hex c \<longleftrightarrow> is_digit c \<or> 97 \<le> byte c \<and> byte c \<le> 102 \<or> 65 \<le> byte c \<and> byte c \<le> 70"

definition unhex :: "char \<Rightarrow> nat" where
  "unhex c = (if is_digit c then byte c - 48 else if 97 \<le> byte c then byte c - 87 else byte c - 55)"

text \<open>\<^verbatim>\<open>url.QueryUnescape\<close>: a broken escape gives the error with the offending text.\<close>

fun QueryUnescape :: "string \<Rightarrow> string + string" where
  "QueryUnescape [] = Inr []"
| "QueryUnescape (c # s) =
     (if c = CHR ''%'' then
        (case s of
           a # b # r \<Rightarrow>
             if is_hex a \<and> is_hex b then
               (case QueryUnescape r of
                  Inl e \<Rightarrow> Inl e
                | Inr t \<Rightarrow> Inr (char_of (16 * unhex a + unhex b) # t))
             else Inl [c, a, b]
         | _ \<Rightarrow> Inl (c # s))
      else
        (case QueryUnescape s of
           Inl e \<Rightarrow> Inl e
         | Inr t \<Rightarrow> Inr ((if c = CHR ''+'' then CHR '' '' else c) # t)))"

definition Cut :: "string \<Rightarrow> char \<Rightarrow> string \<times> string" where
  "Cut s c = (case IndexByte s c of None \<Rightarrow> (s, []) | Some i \<Rightarrow> (take i s, drop (Suc i) s))"

text \<open>One pair of a query: nothing, an error, or a key with a value.\<close>

definition query_pair :: "string \<Rightarrow> string + (string \<times> string) option" where
  "query_pair kv =
     (if CHR '';'' \<in> set kv then Inl ''invalid semicolon separator in query''
      else if kv = [] then Inr None
      else let (k, v) = Cut kv (CHR ''='')
           in case QueryUnescape k of
                Inl e \<Rightarrow> Inl e
              | Inr key \<Rightarrow>
                  (case QueryUnescape v of
                     Inl e \<Rightarrow> Inl e
                   | Inr val \<Rightarrow> Inr (Some (key, val))))"

fun query_loop :: "string list \<Rightarrow> (string \<times> string list) list \<Rightarrow> string option \<Rightarrow>
    (string \<times> string list) list \<times> string option" where
  "query_loop [] m err = (m, err)"
| "query_loop (kv # kvs) m err =
     (case query_pair kv of
        Inl e \<Rightarrow> query_loop kvs m (Some (case err of None \<Rightarrow> e | Some e0 \<Rightarrow> e0))
      | Inr None \<Rightarrow> query_loop kvs m err
      | Inr (Some (k, v)) \<Rightarrow>
          query_loop kvs
            (map_put k ((case map_of m k of None \<Rightarrow> [] | Some vs \<Rightarrow> vs) @ [v]) m) err)"

text \<open>\<^verbatim>\<open>url.ParseQuery\<close>: the error is only tested for nil by its caller.\<close>

definition ParseQuery :: "string \<Rightarrow> (string \<times> string list) list \<times> string option" where
  "ParseQuery q = query_loop (Split q (CHR ''&'')) [] None"

lemma query_loop_distinct:
  "distinct (map fst m) \<Longrightarrow> distinct (map fst (fst (query_loop kvs m err)))"
  by (induction kvs m err rule: query_loop.induct) (auto split: sum.split option.split)

section \<open>Host and port\<close>

text \<open>The index of the last occurrence of a byte.\<close>

definition LastIndexByte :: "string \<Rightarrow> char \<Rightarrow> nat option" where
  "LastIndexByte s c = map_option (\<lambda>i. length s - Suc i) (IndexByte (rev s) c)"

datatype addr_error =
    MissingPort | TooManyColons | MissingBracket | UnexpectedOpen | UnexpectedClose

text \<open>\<^verbatim>\<open>net.SplitHostPort\<close>. The brackets are looked for from the positions where none is allowed.\<close>

definition SplitHostPort :: "string \<Rightarrow> addr_error + string \<times> string" where
  "SplitHostPort hostport =
     (case LastIndexByte hostport (CHR '':'') of
        None \<Rightarrow> Inl MissingPort
      | Some i \<Rightarrow>
          let finish = (\<lambda>host j k.
            if CHR ''['' \<in> set (drop j hostport) then Inl UnexpectedOpen
            else if CHR '']'' \<in> set (drop k hostport) then Inl UnexpectedClose
            else Inr (host, drop (Suc i) hostport))
          in if hostport \<noteq> [] \<and> hd hostport = CHR ''['' then
               (case IndexByte hostport (CHR '']'') of
                  None \<Rightarrow> Inl MissingBracket
                | Some e \<Rightarrow>
                    if e + 1 = length hostport then Inl MissingPort
                    else if e + 1 = i then finish (take (e - 1) (drop 1 hostport)) 1 (e + 1)
                    else if hostport ! (e + 1) = CHR '':'' then Inl TooManyColons
                    else Inl MissingPort)
             else let host = take i hostport
                  in if CHR '':'' \<in> set host then Inl TooManyColons
                     else finish host 0 0)"

lemma SplitHostPort_plain:
  assumes "CHR '':'' \<notin> set h" "CHR ''['' \<notin> set h" "CHR '']'' \<notin> set h"
    "CHR '':'' \<notin> set p" "CHR ''['' \<notin> set p" "CHR '']'' \<notin> set p"
  shows "SplitHostPort (h @ CHR '':'' # p) = Inr (h, p)"
proof -
  have l: "LastIndexByte (h @ CHR '':'' # p) (CHR '':'') = Some (length h)"
    using assms(4) by (simp add: LastIndexByte_def)
  have "hd (h @ CHR '':'' # p) \<noteq> CHR ''[''"
    using assms(2) by (cases h) auto
  with assms l show ?thesis by (simp add: SplitHostPort_def Let_def)
qed

end
