(* ===== verification/Policy_Vars.thy ===== *)
theory Policy_Vars
  imports Go_Url Celenv
begin

text \<open>
  \<^verbatim>\<open>internal/policy/policy.go\<close>, the variables of an evaluation: requests and responses, the decoding of
  bodies and the projection to the \<^verbatim>\<open>request\<close> and \<^verbatim>\<open>response\<close> variables of CEL. The decoders of JSON
  and YAML are the record \<open>codec\<close>.
\<close>

section \<open>Requests and responses\<close>

record request =
  Method :: string
  Scheme :: string
  Host :: string
  Path :: string
  RawQuery :: string
  RemoteIP :: string
  Headers :: header
  Body :: string

record response =
  Status :: int
  RHeaders :: header
  RBody :: string

record codec =
  json_Unmarshal :: "string \<Rightarrow> string + goval"
  yaml_Unmarshal :: "string \<Rightarrow> string + goval"
  fmt_other :: "goval \<Rightarrow> string"

section \<open>Bodies\<close>

fun normaliseDecoded :: "(goval \<Rightarrow> string) \<Rightarrow> goval \<Rightarrow> goval" where
  "normaliseDecoded fmtv (GMapAA m) =
     GMapSA (fold (\<lambda>(k, v). map_put k v)
               (map (\<lambda>(k, v). (Sprint fmtv k, normaliseDecoded fmtv v)) m) [])"
| "normaliseDecoded fmtv (GMapSA m) = GMapSA (map (\<lambda>(k, v). (k, normaliseDecoded fmtv v)) m)"
| "normaliseDecoded fmtv (GSlice xs) = GSlice (map (normaliseDecoded fmtv) xs)"
| "normaliseDecoded fmtv v = v"

definition tryJSON :: "codec \<Rightarrow> string \<Rightarrow> goval \<times> bool" where
  "tryJSON cd b =
     (if b = [] then (GNil, False)
      else case json_Unmarshal cd b of
             Inl _ \<Rightarrow> (GNil, False)
           | Inr v \<Rightarrow> (normaliseDecoded (fmt_other cd) v, True))"

definition tryYAML :: "codec \<Rightarrow> string \<Rightarrow> goval \<times> bool" where
  "tryYAML cd b =
     (if b = [] then (GNil, False)
      else case yaml_Unmarshal cd b of
             Inl _ \<Rightarrow> (GNil, False)
           | Inr v \<Rightarrow> (normaliseDecoded (fmt_other cd) v, True))"

section \<open>The variables\<close>

text \<open>The two maps a multi-valued map is projected to: all values, and the first value where there
  is one. \<open>f\<close> maps the keys (lower case for headers).\<close>

fun project :: "(string \<Rightarrow> string) \<Rightarrow> (string \<times> string list) list \<Rightarrow>
    (string \<times> string list) list \<Rightarrow> (string \<times> string) list \<Rightarrow>
    (string \<times> string list) list \<times> (string \<times> string) list" where
  "project f [] alls firsts = (alls, firsts)"
| "project f ((k, vs) # h) alls firsts =
     project f h (map_put (f k) vs alls)
       (case vs of [] \<Rightarrow> firsts | v # _ \<Rightarrow> map_put (f k) v firsts)"

definition or_empty :: "string option \<Rightarrow> string" where
  "or_empty x = (case x of None \<Rightarrow> [] | Some s \<Rightarrow> s)"

definition body_var :: "codec \<Rightarrow> string \<Rightarrow> (string \<times> string) list \<Rightarrow> vars" where
  "body_var cd b headersFirst =
     (let (jv, jok) = tryJSON cd b; (yv, yok) = tryYAML cd b
      in [(''raw'', GString b),
          (''size'', GInt64 (int (length b))),
          (''contentType'', GString (or_empty (map_of headersFirst ''content-type''))),
          (''json'', if jok then jv else GMapSA []),
          (''jsonOk'', GBool jok),
          (''yaml'', if yok then yv else GMapSA []),
          (''yamlOk'', GBool yok)])"

definition query_vars :: "string \<Rightarrow> (string \<times> string list) list \<times> (string \<times> string) list" where
  "query_vars raw =
     (if raw = [] then ([], [])
      else case ParseQuery raw of
             (qs, None) \<Rightarrow> project (\<lambda>k. k) qs [] []
           | (qs, Some _) \<Rightarrow> ([], []))"

definition buildRequestVar :: "codec \<Rightarrow> request \<Rightarrow> vars" where
  "buildRequestVar cd r =
     (let (headersAll, headersFirst) = project ToLower (Headers r) [] [];
          (queryAll, queryFirst) = query_vars (RawQuery r)
      in [(''method'', GString (Method r)),
          (''scheme'', GString (Scheme r)),
          (''host'', GString (Host r)),
          (''path'', GString (Path r)),
          (''remoteIp'', GString (RemoteIP r)),
          (''headers'', GMapSL headersAll),
          (''header'', GMapSS headersFirst),
          (''queries'', GMapSL queryAll),
          (''query'', GMapSS queryFirst),
          (''body'', GMapSA (body_var cd (Body r) headersFirst))])"

definition buildResponseVar :: "codec \<Rightarrow> response option \<Rightarrow> vars" where
  "buildResponseVar cd resp =
     (case resp of
        None \<Rightarrow> []
      | Some rs \<Rightarrow>
          let (headersAll, headersFirst) = project ToLower (RHeaders rs) [] []
          in [(''status'', GInt64 (Status rs)),
              (''headers'', GMapSL headersAll),
              (''header'', GMapSS headersFirst),
              (''body'', GMapSA (body_var cd (RBody rs) headersFirst))])"

section \<open>Projection\<close>

lemma project_spec:
  assumes "distinct (map (f \<circ> fst) h)"
  shows "map_of (fst (project f h alls firsts)) x =
       (case find (\<lambda>(k, _). f k = x) h of None \<Rightarrow> map_of alls x | Some (_, vs) \<Rightarrow> Some vs) \<and>
    map_of (snd (project f h alls firsts)) x =
       (case find (\<lambda>(k, _). f k = x) h of
          Some (_, v # _) \<Rightarrow> Some v
        | _ \<Rightarrow> map_of firsts x)"
  using assms
proof (induction f h alls firsts rule: project.induct)
  case (2 f k vs h alls firsts)
  have nf: "f k = x \<Longrightarrow> find (\<lambda>(k', _). f k' = x) h = None"
    using 2(2) by (force simp: find_None_iff)
  have "distinct (map (f \<circ> fst) h)" using 2(2) by (simp add: comp_def)
  note IH = 2(1)[OF this]
  show ?case
  proof (cases "f k = x")
    case True
    with nf IH show ?thesis by (cases vs) auto
  next
    case False
    with IH show ?thesis by (cases vs) (auto split: option.split list.split)
  qed
qed simp

text \<open>The header maps that \<^verbatim>\<open>net/http\<close> hands over: names made of token bytes, in canonical form.\<close>

definition token_header :: "header \<Rightarrow> bool" where
  "token_header h \<longleftrightarrow> distinct (map fst h) \<and>
     (\<forall>k \<in> fst ` set h. list_all is_token k \<and> CanonicalHeaderKey k = k)"

lemma token_keys_lower:
  assumes "token_header h" "k \<in> fst ` set h" "list_all is_token k'"
  shows "ToLower k = ToLower k' \<longleftrightarrow> k = CanonicalHeaderKey k'"
proof -
  have "list_all is_token k" "CanonicalHeaderKey k = k" using assms by (auto simp: token_header_def)
  then show ?thesis using CanonicalHeaderKey_eq_iff[of k k'] assms(3) by simp
qed

lemma token_distinct_lower:
  assumes "token_header h"
  shows "distinct (map (ToLower \<circ> fst) h)"
proof -
  have "inj_on ToLower (set (map fst h))"
  proof (rule inj_onI)
    fix k k' assume k: "k \<in> set (map fst h)" "k' \<in> set (map fst h)" "ToLower k = ToLower k'"
    then have t: "list_all is_token k'" "CanonicalHeaderKey k' = k'" "k \<in> fst ` set h"
      using assms by (auto simp: token_header_def)
    show "k = k'" using token_keys_lower[OF assms t(3,1)] k(3) t(2) by simp
  qed
  then show ?thesis using assms by (simp add: token_header_def distinct_map flip: map_map)
qed

lemma token_find:
  assumes "token_header h" "list_all is_token k"
  shows "map_option snd (find (\<lambda>(k', _). ToLower k' = ToLower k) h) = map_of h (CanonicalHeaderKey k)"
proof -
  have "find (\<lambda>(k', _). ToLower k' = ToLower k) h = find (\<lambda>(k', _). k' = CanonicalHeaderKey k) h"
    using token_keys_lower[OF assms(1) _ assms(2)] by (intro find_cong) force+
  moreover have "map_option snd (find (\<lambda>(k', _). k' = x) h) = map_of h x" for x
    by (induction h) auto
  ultimately show ?thesis by simp
qed

lemma project_headers:
  assumes "token_header h" "list_all is_token k"
  shows "map_of (fst (project ToLower h [] [])) (ToLower k) = map_of h (CanonicalHeaderKey k)"
    "map_of (snd (project ToLower h [] [])) (ToLower k) =
       (if HdrValues h k = [] then None else Some (HdrGet h k))"
proof -
  note F = token_find[OF assms]
  note P = project_spec[OF token_distinct_lower[OF assms(1)], of "[]" "[]" "ToLower k"]
  show "map_of (fst (project ToLower h [] [])) (ToLower k) = map_of h (CanonicalHeaderKey k)"
    using conjunct1[OF P] F by (auto split: option.splits)
  show "map_of (snd (project ToLower h [] [])) (ToLower k) =
       (if HdrValues h k = [] then None else Some (HdrGet h k))"
    using conjunct2[OF P] F by (auto simp: HdrGet_def HdrValues_def split: option.splits list.splits)
qed

section \<open>Normal form of decoded values\<close>

text \<open>No \<^verbatim>\<open>map[any]any\<close> is left where the evaluators look.\<close>

fun normal :: "goval \<Rightarrow> bool" where
  "normal (GMapAA m) = False"
| "normal (GMapSA m) = list_all (\<lambda>(k, v). normal v) m"
| "normal (GSlice xs) = list_all normal xs"
| "normal v = True"

lemma map_put_all: "list_all P m \<Longrightarrow> P (k, v) \<Longrightarrow> list_all P (map_put k v m)"
  by (induction k v m rule: map_put.induct) auto

lemma fold_map_put_all:
  "list_all P kvs \<Longrightarrow> list_all P m \<Longrightarrow> list_all P (fold (\<lambda>(k, v). map_put k v) kvs m)"
  by (induction kvs arbitrary: m) (auto simp: map_put_all)

lemma fold_map_put_distinct:
  "distinct (map fst m) \<Longrightarrow> distinct (map fst (fold (\<lambda>(k, v). map_put k v) kvs m))"
  by (induction kvs arbitrary: m) auto

lemma normaliseDecoded_normal: "normal (normaliseDecoded fmtv v)"
proof (induction fmtv v rule: normaliseDecoded.induct)
  case (1 fmtv m)
  have "list_all (\<lambda>(k, v). normal v) (map (\<lambda>(k, v). (Sprint fmtv k, normaliseDecoded fmtv v)) m)"
    using 1 by (auto simp: list_all_iff)
  then show ?case by (simp add: fold_map_put_all)
next
  case (2 fmtv m)
  then show ?case by (auto simp: list_all_iff)
next
  case (3 fmtv xs)
  then show ?case by (auto simp: list_all_iff)
qed auto

lemma normal_fixed: "normal v \<Longrightarrow> normaliseDecoded fmtv v = v"
proof (induction v rule: normal.induct)
  case (2 m)
  then show ?case by (auto simp: list_all_iff intro!: map_idI)
next
  case (3 xs)
  then show ?case by (auto simp: list_all_iff intro!: map_idI)
qed auto

lemma body_var_normal: "list_all (\<lambda>(k, v). normal v) (body_var cd b hf)"
  by (auto simp: body_var_def tryJSON_def tryYAML_def Let_def normaliseDecoded_normal
      split: sum.splits if_splits)

section \<open>Queries\<close>

definition query_values :: "string \<Rightarrow> string \<Rightarrow> string list" where
  "query_values raw k =
     concat (map (\<lambda>kv. case query_pair kv of Inr (Some (k', v)) \<Rightarrow> if k' = k then [v] else [] | _ \<Rightarrow> [])
       (Split raw (CHR ''&'')))"

definition values_opt :: "string list \<Rightarrow> string list option" where
  "values_opt vs = (if vs = [] then None else Some vs)"

lemma query_loop_error:
  "(\<exists>e. snd (query_loop kvs m err) = Some e) \<longleftrightarrow> err \<noteq> None \<or> (\<exists>kv \<in> set kvs. \<exists>e. query_pair kv = Inl e)"
proof (induction kvs m err rule: query_loop.induct)
  case (2 kv kvs m err)
  then show ?case
    by (cases "query_pair kv") (auto split: option.splits)
qed auto

lemma query_loop_values:
  assumes "\<And>kv. kv \<in> set kvs \<Longrightarrow> query_pair kv \<noteq> Inl e" "values_opt vs = map_of m k"
  shows "map_of (fst (query_loop kvs m err)) k =
    values_opt (vs @ concat (map (\<lambda>kv. case query_pair kv of
        Inr (Some (k', v)) \<Rightarrow> if k' = k then [v] else [] | _ \<Rightarrow> []) kvs))"
  using assms
proof (induction kvs m err arbitrary: vs rule: query_loop.induct)
  case (2 kv kvs m err)
  show ?case
  proof (cases "query_pair kv")
    case (Inl e')
    then show ?thesis using 2 by simp
  next
    case r: (Inr p)
    show ?thesis
    proof (cases p)
      case None
      then show ?thesis using 2(2)[OF r None] 2(4,5) r by simp
    next
      case (Some kv')
      obtain k' v' where kv': "kv' = (k', v')" by (cases kv')
      let ?m = "map_put k' ((case map_of m k' of None \<Rightarrow> [] | Some vs \<Rightarrow> vs) @ [v']) m"
      have "values_opt (if k' = k then vs @ [v'] else vs) = map_of ?m k"
        using 2(5) by (auto simp: values_opt_def split: option.splits if_splits)
      then show ?thesis using 2(3)[OF r Some kv'[symmetric]] 2(4) r Some kv'
        by (cases "k' = k") auto
    qed
  qed
qed simp

lemma find_map_of: "map_option snd (find (\<lambda>(k', _). k' = x) h) = map_of h x"
  by (induction h) auto

lemma query_vars_spec:
  assumes "raw \<noteq> []"
  shows "if \<exists>kv \<in> set (Split raw (CHR ''&'')). \<exists>e. query_pair kv = Inl e
     then query_vars raw = ([], [])
     else \<forall>k. map_of (fst (query_vars raw)) k = values_opt (query_values raw k) \<and>
            map_of (snd (query_vars raw)) k = map_option hd (values_opt (query_values raw k))"
proof (cases "\<exists>kv \<in> set (Split raw (CHR ''&'')). \<exists>e. query_pair kv = Inl e")
  case True
  then have "\<exists>e. snd (ParseQuery raw) = Some e" by (simp add: ParseQuery_def query_loop_error)
  then have "query_vars raw = ([], [])" by (auto simp: query_vars_def split: prod.split option.split)
  with True show ?thesis by simp
next
  case False
  then have "\<not> (\<exists>e. snd (ParseQuery raw) = Some e)" by (simp add: ParseQuery_def query_loop_error)
  then obtain qs where qs: "ParseQuery raw = (qs, None)" by (cases "ParseQuery raw") auto
  have vals: "map_of qs k = values_opt (query_values raw k)" for k
    using query_loop_values[of "Split raw (CHR ''&'')" undefined "[]" "[]" k None] False qs
    by (simp add: ParseQuery_def query_values_def values_opt_def)
  have "distinct (map fst qs)"
    using query_loop_distinct[of "[]" "Split raw (CHR ''&'')" None] qs by (simp add: ParseQuery_def)
  then have P: "map_of (fst (project (\<lambda>k. k) qs [] [])) k = map_of qs k \<and>
      map_of (snd (project (\<lambda>k. k) qs [] [])) k =
        (case map_of qs k of Some (v # _) \<Rightarrow> Some v | _ \<Rightarrow> None)" for k
    using project_spec[of "\<lambda>k. k" qs "[]" "[]" k]
    by (cases "find (\<lambda>(k', _). k' = k) qs")
       (auto simp: comp_def find_map_of[symmetric] split: list.splits)
  have "query_vars raw = project (\<lambda>k. k) qs [] []" using assms qs by (simp add: query_vars_def)
  then have "map_of (fst (query_vars raw)) k = values_opt (query_values raw k) \<and>
      map_of (snd (query_vars raw)) k = map_option hd (values_opt (query_values raw k))" for k
    using P[of k] vals[of k] by (auto simp: values_opt_def split: list.splits)
  with False show ?thesis by simp
qed

section \<open>Properties\<close>

text \<open>C38: The header variables of a request: for a header map with token names, looking a name up in
  lower case gives all the values of that header whatever case the client used, and the first of
  them, with no entry for a header that is absent.\<close>

theorem request_headers_case_insensitive:
  assumes "token_header (Headers r)" "list_all is_token k"
  shows "\<exists>alls firsts.
      map_of (buildRequestVar cd r) ''headers'' = Some (GMapSL alls) \<and>
      map_of (buildRequestVar cd r) ''header'' = Some (GMapSS firsts) \<and>
      map_of alls (ToLower k) = map_of (Headers r) (CanonicalHeaderKey k) \<and>
      map_of firsts (ToLower k) =
        (if HdrValues (Headers r) k = [] then None else Some (HdrGet (Headers r) k))"
  using project_headers[OF assms] by (auto simp: buildRequestVar_def split_beta Let_def)

definition sample_request :: request where
  "sample_request = \<lparr>Method = ''GET'', Scheme = ''https'', Host = ''a.example'', Path = ''/v1'',
     RawQuery = ''code=1'', RemoteIP = ''10.0.0.1'', Headers = HdrAdd ''x-env'' ''prod'' [], Body = []\<rparr>"

lemma sample_request_headers:
  "Headers sample_request = [(''X-Env'', [''prod''])]"
  "token_header (Headers sample_request)"
proof -
  show h: "Headers sample_request = [(''X-Env'', [''prod''])]" by code_simp
  have "list_all is_token ''X-Env'' \<and> CanonicalHeaderKey ''X-Env'' = ''X-Env''" by code_simp
  then show "token_header (Headers sample_request)" by (simp add: h token_header_def)
qed

definition sample_codec :: codec where
  "sample_codec = \<lparr>json_Unmarshal = (\<lambda>b. if b = ''{}'' then Inr (GMapSA []) else Inl ''syntax''),
     yaml_Unmarshal = (\<lambda>b. if b = ''{}'' then Inr (GMapAA []) else Inl ''yaml''), fmt_other = (\<lambda>_. [])\<rparr>"

theorem request_headers_case_insensitive_witness:
  "\<exists>firsts. map_of (buildRequestVar sample_codec sample_request) ''header'' = Some (GMapSS firsts) \<and>
     map_of firsts (ToLower ''X-ENV'') = Some ''prod''"
proof -
  have t: "list_all is_token ''X-ENV''" and g: "HdrGet (Headers sample_request) ''X-ENV'' = ''prod''"
    and v: "HdrValues (Headers sample_request) ''X-ENV'' \<noteq> []"
    by code_simp+
  obtain firsts where "map_of (buildRequestVar sample_codec sample_request) ''header'' = Some (GMapSS firsts)"
    "map_of firsts (ToLower ''X-ENV'') = Some ''prod''"
    using request_headers_case_insensitive[OF sample_request_headers(2) t, of sample_codec]
    unfolding g if_not_P[OF v] by blast
  then show ?thesis by blast
qed

text \<open>C39: The query variables of a request are all or nothing: when every pair of the query decodes,
  each key has the list of its values in the order of the query and its first value; when one pair
  does not decode, both maps are empty.\<close>

theorem request_query_all_or_nothing:
  assumes "RawQuery r \<noteq> []"
  shows "\<exists>alls firsts.
      map_of (buildRequestVar cd r) ''queries'' = Some (GMapSL alls) \<and>
      map_of (buildRequestVar cd r) ''query'' = Some (GMapSS firsts) \<and>
      (if \<exists>kv \<in> set (Split (RawQuery r) (CHR ''&'')). \<exists>e. query_pair kv = Inl e
       then alls = [] \<and> firsts = []
       else \<forall>k. map_of alls k = values_opt (query_values (RawQuery r) k) \<and>
              map_of firsts k = map_option hd (values_opt (query_values (RawQuery r) k)))"
  using query_vars_spec[OF assms] by (auto simp: buildRequestVar_def split_beta Let_def)

theorem request_query_all_or_nothing_witness:
  "\<exists>firsts. map_of (buildRequestVar sample_codec (sample_request\<lparr>RawQuery := ''role=a&x=%zz''\<rparr>)) ''query'' =
      Some (GMapSS firsts) \<and> firsts = []"
proof -
  let ?r = "sample_request\<lparr>RawQuery := ''role=a&x=%zz''\<rparr>"
  have ne: "RawQuery ?r \<noteq> []" by simp
  have sp: "''x=%zz'' \<in> set (Split (RawQuery ?r) (CHR ''&''))" by simp
  have "query_pair ''x=%zz'' = Inl ''%zz''" by code_simp
  with sp have bad: "\<exists>kv \<in> set (Split (RawQuery ?r) (CHR ''&'')). \<exists>e. query_pair kv = Inl e" by blast
  show ?thesis
    using request_query_all_or_nothing[OF ne, of sample_codec] unfolding if_P[OF bad] by blast
qed

end
