(* ===== verification/Policy_Eval.thy ===== *)
theory Policy_Eval
  imports Policy_Load Policy_Vars
begin

text \<open>
  \<^verbatim>\<open>internal/policy/policy.go\<close>, the ext-authz evaluator: \<^verbatim>\<open>Evaluate\<close> and \<^verbatim>\<open>evalGroup\<close>, their
  specification as a search for the first group that decides, and the properties of a verdict.
\<close>

section \<open>The evaluator\<close>

record decision =
  Allowed :: bool
  DRule :: string
  Reason :: string
  DDryRun :: bool

definition errorDecision :: "('e, 'c) config \<Rightarrow> string \<Rightarrow> string \<Rightarrow> bool \<Rightarrow> decision" where
  "errorDecision c rule reason dry =
     (if AllowOnError (ExtAuthz (Defaults c))
      then \<lparr>Allowed = True, DRule = rule, Reason = reason @ '' (allowOnError)'', DDryRun = dry\<rparr>
      else \<lparr>Allowed = False, DRule = rule, Reason = reason, DDryRun = dry\<rparr>)"

definition snapshot :: "('e, 'c) config \<Rightarrow> vars" where
  "snapshot c = (case cregistry c of None \<Rightarrow> [] | Some reg \<Rightarrow> Snapshot reg)"

definition authz_vars :: "vars \<Rightarrow> vars \<Rightarrow> vars" where
  "authz_vars requestVar factsVar = [(''request'', GMapSA requestVar), (''facts'', GMapSA factsVar)]"

definition rule_path :: "'c group \<Rightarrow> 'c rule \<Rightarrow> string" where
  "rule_path g r = GName g @ ''/'' @ RName r"

fun matchAll_loop ::
    "('e, 'c) config \<Rightarrow> 'c \<Rightarrow> 'c group \<Rightarrow> vars \<Rightarrow> 'c rule list \<Rightarrow> decision option go" where
  "matchAll_loop c ctx g vs [] =
     Some (Some \<lparr>Allowed = True, DRule = GName g, Reason = ''matchAll: all rules held'', DDryRun = False\<rparr>)"
| "matchAll_loop c ctx g vs (r # rs) =
     (case Eval ctx (rmatchProg r) vs of
        None \<Rightarrow> None
      | Some (Inl err) \<Rightarrow>
          Some (Some (errorDecision c (rule_path g r) (''match error: '' @ err) (RDryRun r)))
      | Some (Inr ok) \<Rightarrow>
          if \<not> ok then
            Some (Some \<lparr>Allowed = False, DRule = rule_path g r,
              Reason = ''matchAll: rule '' @ RName r @ '' failed'', DDryRun = RDryRun r\<rparr>)
          else matchAll_loop c ctx g vs rs)"

text \<open>A rule of a first-match group that holds reads its validation, which panics when it is nil.\<close>

fun firstMatch_loop ::
    "('e, 'c) config \<Rightarrow> 'c \<Rightarrow> 'c group \<Rightarrow> vars \<Rightarrow> 'c rule list \<Rightarrow> decision option go" where
  "firstMatch_loop c ctx g vs [] = Some None"
| "firstMatch_loop c ctx g vs (r # rs) =
     (case Eval ctx (rmatchProg r) vs of
        None \<Rightarrow> None
      | Some (Inl err) \<Rightarrow>
          Some (Some (errorDecision c (rule_path g r) (''match error: '' @ err) (RDryRun r)))
      | Some (Inr ok) \<Rightarrow>
          if ok then
            (case Validation r of
               None \<Rightarrow> None
             | Some v \<Rightarrow>
                 Some (Some \<lparr>Allowed = (VAction v = ''allow''), DRule = rule_path g r,
                   Reason = ''matched'', DDryRun = RDryRun r\<rparr>))
          else firstMatch_loop c ctx g vs rs)"

definition eval_rules ::
    "('e, 'c) config \<Rightarrow> 'c \<Rightarrow> 'c group \<Rightarrow> vars \<Rightarrow> decision option go" where
  "eval_rules c ctx g vs =
     (if Mode (Parameters g) = ''matchAll'' then matchAll_loop c ctx g vs (Rules g)
      else firstMatch_loop c ctx g vs (Rules g))"

text \<open>A group that does not decide is \<^term>\<open>Some None\<close>.\<close>

definition evalGroup ::
    "('e, 'c) config \<Rightarrow> 'c \<Rightarrow> 'c group \<Rightarrow> vars \<Rightarrow> vars \<Rightarrow> decision option go" where
  "evalGroup c ctx g requestVar factsVar =
     (if gmatchProg g \<noteq> None then
        (case Eval ctx (gmatchProg g) (authz_vars requestVar factsVar) of
           None \<Rightarrow> None
         | Some (Inl err) \<Rightarrow> Some (Some (errorDecision c (GName g) (''group match error: '' @ err) False))
         | Some (Inr ok) \<Rightarrow>
             if \<not> ok then Some None else eval_rules c ctx g (authz_vars requestVar factsVar))
      else eval_rules c ctx g (authz_vars requestVar factsVar))"

fun eval_groups ::
    "('e, 'c) config \<Rightarrow> 'c \<Rightarrow> vars \<Rightarrow> vars \<Rightarrow> 'c group list \<Rightarrow> decision go" where
  "eval_groups c ctx requestVar factsVar [] =
     Some \<lparr>Allowed = (Action (ExtAuthz (Defaults c)) = ''allow''), DRule = ''<defaults>'',
       Reason = ''no group matched'', DDryRun = False\<rparr>"
| "eval_groups c ctx requestVar factsVar (g # gs) =
     (if Engine (Parameters g) \<noteq> ''extAuthz'' then eval_groups c ctx requestVar factsVar gs
      else
        (case evalGroup c ctx g requestVar factsVar of
           None \<Rightarrow> None
         | Some (Some d) \<Rightarrow> Some d
         | Some None \<Rightarrow> eval_groups c ctx requestVar factsVar gs))"

definition Evaluate :: "codec \<Rightarrow> ('e, 'c) config \<Rightarrow> 'c \<Rightarrow> request \<Rightarrow> decision go" where
  "Evaluate cd c ctx r = eval_groups c ctx (buildRequestVar cd r) (snapshot c) (Groups c)"

section \<open>Specification\<close>

text \<open>Each expression has one of three outcomes, and a group is decided by its first rule with an
  interesting one.\<close>

datatype outcome = Holds | Fails | Errs string

definition outcome_of :: "'c \<Rightarrow> vars \<Rightarrow> 'c prog option \<Rightarrow> outcome" where
  "outcome_of ctx vs p =
     (case Eval ctx p vs of
        Some (Inr True) \<Rightarrow> Holds
      | Some (Inr False) \<Rightarrow> Fails
      | Some (Inl err) \<Rightarrow> Errs err
      | None \<Rightarrow> Errs ''panic'')"

definition gate :: "'c \<Rightarrow> vars \<Rightarrow> 'c group \<Rightarrow> outcome" where
  "gate ctx vs g = (if gmatchProg g = None then Holds else outcome_of ctx vs (gmatchProg g))"

definition rule_action :: "'c rule \<Rightarrow> string" where
  "rule_action r = (case Validation r of None \<Rightarrow> [] | Some v \<Rightarrow> VAction v)"

definition all_verdict ::
    "('e, 'c) config \<Rightarrow> 'c group \<Rightarrow> ('c rule \<Rightarrow> outcome) \<Rightarrow> 'c rule list \<Rightarrow> decision" where
  "all_verdict c g out rs =
     (case find (\<lambda>r. out r \<noteq> Holds) rs of
        None \<Rightarrow> \<lparr>Allowed = True, DRule = GName g, Reason = ''matchAll: all rules held'', DDryRun = False\<rparr>
      | Some r \<Rightarrow>
          (case out r of
             Errs err \<Rightarrow> errorDecision c (rule_path g r) (''match error: '' @ err) (RDryRun r)
           | _ \<Rightarrow> \<lparr>Allowed = False, DRule = rule_path g r,
                    Reason = ''matchAll: rule '' @ RName r @ '' failed'', DDryRun = RDryRun r\<rparr>))"

definition first_verdict ::
    "('e, 'c) config \<Rightarrow> 'c group \<Rightarrow> ('c rule \<Rightarrow> outcome) \<Rightarrow> 'c rule list \<Rightarrow> decision option" where
  "first_verdict c g out rs =
     map_option (\<lambda>r.
       case out r of
         Errs err \<Rightarrow> errorDecision c (rule_path g r) (''match error: '' @ err) (RDryRun r)
       | _ \<Rightarrow> \<lparr>Allowed = (rule_action r = ''allow''), DRule = rule_path g r, Reason = ''matched'',
                DDryRun = RDryRun r\<rparr>)
     (find (\<lambda>r. out r \<noteq> Fails) rs)"

definition group_verdict :: "('e, 'c) config \<Rightarrow> 'c \<Rightarrow> vars \<Rightarrow> 'c group \<Rightarrow> decision option" where
  "group_verdict c ctx vs g =
     (case gate ctx vs g of
        Errs err \<Rightarrow> Some (errorDecision c (GName g) (''group match error: '' @ err) False)
      | Fails \<Rightarrow> None
      | Holds \<Rightarrow>
          if Mode (Parameters g) = ''matchAll''
          then Some (all_verdict c g (outcome_of ctx vs \<circ> rmatchProg) (Rules g))
          else first_verdict c g (outcome_of ctx vs \<circ> rmatchProg) (Rules g))"

definition authz_groups :: "('e, 'c) config \<Rightarrow> 'c group list" where
  "authz_groups c = filter (\<lambda>g. Engine (Parameters g) = ''extAuthz'') (Groups c)"

definition default_decision :: "('e, 'c) config \<Rightarrow> decision" where
  "default_decision c = \<lparr>Allowed = (Action (ExtAuthz (Defaults c)) = ''allow''), DRule = ''<defaults>'',
     Reason = ''no group matched'', DDryRun = False\<rparr>"

definition request_vars :: "codec \<Rightarrow> ('e, 'c) config \<Rightarrow> request \<Rightarrow> vars" where
  "request_vars cd c r = authz_vars (buildRequestVar cd r) (snapshot c)"

definition spec_decision :: "codec \<Rightarrow> ('e, 'c) config \<Rightarrow> 'c \<Rightarrow> request \<Rightarrow> decision" where
  "spec_decision cd c ctx r =
     (case List.map_filter (group_verdict c ctx (request_vars cd c r)) (authz_groups c) of
        [] \<Rightarrow> default_decision c
      | d # _ \<Rightarrow> d)"

section \<open>Refinement\<close>

lemma Eval_outcome:
  "Eval ctx (Some p) vs = Some (case outcome_of ctx vs (Some p) of
     Holds \<Rightarrow> Inr True | Fails \<Rightarrow> Inr False | Errs err \<Rightarrow> Inl err)"
  using Eval_Some[of ctx p vs]
  by (cases "Eval ctx (Some p) vs") (auto simp: outcome_of_def split: sum.split bool.split)

lemma matchAll_loop_spec:
  assumes "\<forall>r \<in> set rs. \<exists>p. rmatchProg r = Some p"
  shows "matchAll_loop c ctx g vs rs =
    Some (Some (all_verdict c g (outcome_of ctx vs \<circ> rmatchProg) rs))"
  using assms
proof (induction rs)
  case (Cons r rs)
  then obtain p where p: "rmatchProg r = Some p" by auto
  show ?case using Cons p
    by (cases "outcome_of ctx vs (Some p)") (auto simp: Eval_outcome all_verdict_def rule_path_def)
qed (simp add: all_verdict_def)

lemma firstMatch_loop_spec:
  assumes "\<forall>r \<in> set rs. (\<exists>p. rmatchProg r = Some p) \<and> (\<exists>v. Validation r = Some v)"
  shows "firstMatch_loop c ctx g vs rs =
    Some (first_verdict c g (outcome_of ctx vs \<circ> rmatchProg) rs)"
  using assms
proof (induction rs)
  case (Cons r rs)
  then obtain p v where p: "rmatchProg r = Some p" "Validation r = Some v" by auto
  show ?case using Cons p
    by (cases "outcome_of ctx vs (Some p)")
       (auto simp: Eval_outcome first_verdict_def rule_path_def rule_action_def)
qed (simp add: first_verdict_def)

lemma evalGroup_spec:
  assumes "runnable lib c" "g \<in> set (Groups c)" "Engine (Parameters g) = ''extAuthz''"
  shows "evalGroup c ctx g rv fv = Some (group_verdict c ctx (authz_vars rv fv) g)"
proof -
  have p: "\<forall>r \<in> set (Rules g). \<exists>p. rmatchProg r = Some p"
    using runnable_rule[OF assms(1,2)] by blast
  have v: "\<forall>r \<in> set (Rules g). \<exists>v. Validation r = Some v"
    using valid_authz_validation[OF runnableD(1)[OF assms(1,2)] _ assms(3)] by blast
  have R: "eval_rules c ctx g vs = Some (if Mode (Parameters g) = ''matchAll''
      then Some (all_verdict c g (outcome_of ctx vs \<circ> rmatchProg) (Rules g))
      else first_verdict c g (outcome_of ctx vs \<circ> rmatchProg) (Rules g))" for vs
    using matchAll_loop_spec[OF p, of c ctx g vs] firstMatch_loop_spec[of "Rules g" c ctx g vs] p v
    by (simp add: eval_rules_def)
  show ?thesis
  proof (cases "gmatchProg g")
    case None
    then show ?thesis by (simp add: evalGroup_def group_verdict_def gate_def R)
  next
    case (Some q)
    then show ?thesis
      by (cases "outcome_of ctx (authz_vars rv fv) (Some q)")
         (auto simp: evalGroup_def group_verdict_def gate_def R Eval_outcome)
  qed
qed

lemma eval_groups_spec:
  assumes "runnable lib c" "set gs \<subseteq> set (Groups c)"
  shows "eval_groups c ctx rv fv gs = Some
    (case List.map_filter (group_verdict c ctx (authz_vars rv fv))
            (filter (\<lambda>g. Engine (Parameters g) = ''extAuthz'') gs) of
       [] \<Rightarrow> default_decision c
     | d # _ \<Rightarrow> d)"
  using assms(2)
proof (induction gs)
  case (Cons g gs)
  then show ?case
    using evalGroup_spec[OF assms(1), of g ctx rv fv]
    by (auto simp: map_filter_simps split: option.split)
qed (simp add: map_filter_simps default_decision_def)

lemma Evaluate_spec: "runnable lib c \<Longrightarrow> Evaluate cd c ctx r = Some (spec_decision cd c ctx r)"
  by (simp add: Evaluate_def eval_groups_spec spec_decision_def authz_groups_def request_vars_def)

section \<open>What a verdict means\<close>

lemma errorDecision_allowed [simp]:
  "Allowed (errorDecision c rule reason dry) = AllowOnError (ExtAuthz (Defaults c))"
  by (simp add: errorDecision_def)

lemma map_filter_first:
  "List.map_filter f xs = d # ds \<Longrightarrow>
     \<exists>i < length xs. f (xs ! i) = Some d \<and> (\<forall>j < i. f (xs ! j) = None)"
proof (induction xs)
  case (Cons x xs)
  show ?case
  proof (cases "f x")
    case None
    then obtain i where "i < length xs" "f (xs ! i) = Some d" "\<forall>j < i. f (xs ! j) = None"
      using Cons by (auto simp: map_filter_simps)
    with None show ?thesis
      by (intro exI[of _ "Suc i"]) (auto simp: nth_Cons split: nat.split)
  next
    case (Some y)
    with Cons.prems show ?thesis by (intro exI[of _ 0]) (simp add: map_filter_simps)
  qed
qed (simp add: map_filter_simps)

text \<open>The two ways in which a group can allow a request without an error.\<close>

definition allows :: "'c \<Rightarrow> vars \<Rightarrow> 'c group \<Rightarrow> bool" where
  "allows ctx vs g \<longleftrightarrow> gate ctx vs g = Holds \<and>
     (if Mode (Parameters g) = ''matchAll''
      then \<forall>r \<in> set (Rules g). outcome_of ctx vs (rmatchProg r) = Holds
      else \<exists>i < length (Rules g).
             outcome_of ctx vs (rmatchProg (Rules g ! i)) = Holds \<and> rule_action (Rules g ! i) = ''allow'' \<and>
             (\<forall>j < i. outcome_of ctx vs (rmatchProg (Rules g ! j)) = Fails))"

lemma group_verdict_allows:
  assumes "group_verdict c ctx vs g = Some d" "\<not> AllowOnError (ExtAuthz (Defaults c))"
  shows "Allowed d \<longleftrightarrow> allows ctx vs g"
proof (cases "gate ctx vs g")
  case Holds
  show ?thesis
  proof (cases "Mode (Parameters g) = ''matchAll''")
    case True
    then have "d = all_verdict c g (outcome_of ctx vs \<circ> rmatchProg) (Rules g)"
      using assms(1) Holds by (simp add: group_verdict_def)
    with True Holds assms(2) show ?thesis
      by (auto simp: all_verdict_def allows_def find_None_iff find_Some_iff
          split: option.splits outcome.splits)
  next
    case False
    then obtain r where r: "find (\<lambda>r. outcome_of ctx vs (rmatchProg r) \<noteq> Fails) (Rules g) = Some r"
      "d = (case outcome_of ctx vs (rmatchProg r) of
         Errs err \<Rightarrow> errorDecision c (rule_path g r) (''match error: '' @ err) (RDryRun r)
       | _ \<Rightarrow> \<lparr>Allowed = (rule_action r = ''allow''), DRule = rule_path g r, Reason = ''matched'',
                DDryRun = RDryRun r\<rparr>)"
      using assms(1) Holds by (auto simp: group_verdict_def first_verdict_def)
    then obtain i where i: "i < length (Rules g)" "outcome_of ctx vs (rmatchProg (Rules g ! i)) \<noteq> Fails"
      "Rules g ! i = r" "\<forall>j < i. outcome_of ctx vs (rmatchProg (Rules g ! j)) = Fails"
      by (auto simp: find_Some_iff)
    have uniq: "i' = i" if "outcome_of ctx vs (rmatchProg (Rules g ! i')) = Holds"
      "\<forall>j < i'. outcome_of ctx vs (rmatchProg (Rules g ! j)) = Fails" for i'
      using that i by (cases i' i rule: linorder_cases) auto
    show ?thesis
    proof (cases "outcome_of ctx vs (rmatchProg r)")
      case out: Holds
      have "allows ctx vs g \<longleftrightarrow> rule_action r = ''allow''"
        using False Holds i out uniq by (auto simp: allows_def)
      with r(2) out show ?thesis by simp
    next
      case out: (Errs err)
      have "\<not> allows ctx vs g"
      proof
        assume "allows ctx vs g"
        then obtain i' where i': "outcome_of ctx vs (rmatchProg (Rules g ! i')) = Holds"
          "\<forall>j < i'. outcome_of ctx vs (rmatchProg (Rules g ! j)) = Fails"
          using False by (auto simp: allows_def)
        show False using uniq[OF i'] i'(1) i(3) out by simp
      qed
      with r(2) out assms(2) show ?thesis by simp
    qed (use i in auto)
  qed
qed (use assms in \<open>auto simp: group_verdict_def allows_def\<close>)

lemma group_silent: "group_verdict c ctx vs g = None \<Longrightarrow> \<not> allows ctx vs g"
  by (auto simp: group_verdict_def allows_def first_verdict_def find_None_iff
      split: outcome.splits if_splits)

lemma spec_decision_cases:
  obtains (default) "\<forall>g \<in> set (authz_groups c). group_verdict c ctx (request_vars cd c r) g = None"
      "spec_decision cd c ctx r = default_decision c"
    | (group) i where "i < length (authz_groups c)"
      "group_verdict c ctx (request_vars cd c r) (authz_groups c ! i) = Some (spec_decision cd c ctx r)"
      "\<forall>j < i. group_verdict c ctx (request_vars cd c r) (authz_groups c ! j) = None"
proof (cases "List.map_filter (group_verdict c ctx (request_vars cd c r)) (authz_groups c)")
  case Nil
  then have "\<forall>g \<in> set (authz_groups c). group_verdict c ctx (request_vars cd c r) g = None"
    by (auto simp: List.map_filter_def filter_empty_conv)
  with Nil default show ?thesis by (simp add: spec_decision_def)
next
  case (Cons d ds)
  with map_filter_first[OF Cons] group show ?thesis by (auto simp: spec_decision_def)
qed

lemma eval_group_groups [simp]: "evalGroup (c\<lparr>Groups := gs\<rparr>) ctx g rv fv = evalGroup c ctx g rv fv"
proof -
  have e: "errorDecision (c\<lparr>Groups := gs\<rparr>) = errorDecision c" by (simp add: errorDecision_def fun_eq_iff)
  have "matchAll_loop (c\<lparr>Groups := gs\<rparr>) ctx g vs rs = matchAll_loop c ctx g vs rs"
    "firstMatch_loop (c\<lparr>Groups := gs\<rparr>) ctx g vs rs = firstMatch_loop c ctx g vs rs" for vs rs
    by (induction rs) (simp_all add: e split: option.split sum.split)
  then have "eval_rules (c\<lparr>Groups := gs\<rparr>) ctx g vs = eval_rules c ctx g vs" for vs
    by (simp add: eval_rules_def)
  then show ?thesis by (simp add: evalGroup_def e split: option.split sum.split)
qed

section \<open>Properties\<close>

text \<open>C3: For a policy that was loaded, and whatever its facts have become since, the evaluator
  returns (no expression it runs is missing and no rule it reads is without validation), and its
  verdict is that of the first ext-authz group that decides, or the default.\<close>

theorem evaluate_refines:
  assumes "LoadBytes lib yaml b = Inr c"
  shows "Evaluate cd (c\<lparr>cregistry := reg\<rparr>) ctx r = Some (spec_decision cd (c\<lparr>cregistry := reg\<rparr>) ctx r)"
  by (rule Evaluate_spec[of lib]) (simp add: LoadBytes_runnable[OF assms])

theorem evaluate_refines_witness:
  "Evaluate sample_codec sample_policy () sample_request =
     Some (spec_decision sample_codec (sample_policy\<lparr>cregistry := cregistry sample_policy\<rparr>) () sample_request)"
  using evaluate_refines[OF sample_policy_loads, of sample_codec "cregistry sample_policy" "()" sample_request]
  by simp

text \<open>C4: Fail closed. When the defaults are to deny and not to allow on errors, a request is allowed
  only if some ext-authz group lets it through: its match holds, and all its rules hold (matchAll)
  or an allow rule holds while every rule before it fails (firstMatch); and no group before that
  one decides.\<close>

theorem allow_is_justified:
  assumes "LoadBytes lib yaml b = Inr c" "Evaluate cd (c\<lparr>cregistry := reg\<rparr>) ctx r = Some d"
    "Action (ExtAuthz (Defaults c)) = ''deny''" "\<not> AllowOnError (ExtAuthz (Defaults c))"
    and vs_def: "vs = request_vars cd (c\<lparr>cregistry := reg\<rparr>) r"
  shows "Allowed d \<longleftrightarrow>
    (\<exists>i < length (authz_groups c). allows ctx vs (authz_groups c ! i) \<and>
       (\<forall>j < i. group_verdict (c\<lparr>cregistry := reg\<rparr>) ctx vs (authz_groups c ! j) = None))"
proof -
  let ?c = "c\<lparr>cregistry := reg\<rparr>"
  have ag: "authz_groups ?c = authz_groups c" by (simp add: authz_groups_def)
  have d: "d = spec_decision cd ?c ctx r"
    using Evaluate_spec[of lib ?c cd ctx r] LoadBytes_runnable[OF assms(1)] assms(2) by simp
  show ?thesis
  proof (cases rule: spec_decision_cases[of ?c ctx cd r])
    case default
    then have none: "group_verdict ?c ctx vs (authz_groups c ! i) = None" if "i < length (authz_groups c)" for i
      using that by (simp add: vs_def ag)
    have "\<not> allows ctx vs (authz_groups c ! i)" if "i < length (authz_groups c)" for i
      using none[OF that] by (rule group_silent)
    with default d assms(3) show ?thesis by (auto simp: default_decision_def)
  next
    case (group i)
    then have i: "i < length (authz_groups c)" "group_verdict ?c ctx vs (authz_groups c ! i) = Some d"
      "\<forall>j < i. group_verdict ?c ctx vs (authz_groups c ! j) = None"
      using d by (simp_all add: vs_def ag)
    have al: "Allowed d \<longleftrightarrow> allows ctx vs (authz_groups c ! i)"
      using group_verdict_allows[OF i(2)] assms(4) by simp
    have "i' = i" if "i' < length (authz_groups c)" "allows ctx vs (authz_groups c ! i')"
      "\<forall>j < i'. group_verdict ?c ctx vs (authz_groups c ! j) = None" for i'
    proof -
      have "\<not> i' < i" using that(2) i(3) group_silent[of ?c ctx vs "authz_groups c ! i'"] by auto
      moreover have "\<not> i < i'" using that(3) i(2) by auto
      ultimately show ?thesis by linarith
    qed
    with al i show ?thesis by blast
  qed
qed

text \<open>The sample request is allowed because the first rule of the first group holds.\<close>

lemma sample_evaluates:
  "\<exists>d. Evaluate sample_codec sample_policy () sample_request = Some d"
  using Evaluate_spec[OF LoadBytes_runnable[OF sample_policy_loads]] by blast

theorem allow_is_justified_witness:
  "\<exists>d. Evaluate sample_codec sample_policy () sample_request = Some d \<and>
     (Allowed d \<longleftrightarrow> (\<exists>i < length (authz_groups sample_policy).
        allows () (request_vars sample_codec sample_policy sample_request) (authz_groups sample_policy ! i) \<and>
        (\<forall>j < i. group_verdict sample_policy () (request_vars sample_codec sample_policy sample_request)
                   (authz_groups sample_policy ! j) = None)))"
proof -
  obtain d where d: "Evaluate sample_codec (sample_policy\<lparr>cregistry := cregistry sample_policy\<rparr>) () sample_request = Some d"
    using sample_evaluates by auto
  show ?thesis
    using allow_is_justified[OF sample_policy_loads d sample_policy_defaults refl] d by auto
qed

text \<open>The ext-proc groups of a policy have no influence on the verdict of the ext-authz engine,
  whether they are valid or not.\<close>

theorem evaluate_ignores_proc_groups:
  "Evaluate cd (c\<lparr>Groups := authz_groups c\<rparr>) ctx r = Evaluate cd c ctx r"
proof -
  have "eval_groups (c\<lparr>Groups := gs'\<rparr>) ctx rv fv (filter (\<lambda>g. Engine (Parameters g) = ''extAuthz'') gs) =
      eval_groups c ctx rv fv gs" for gs gs' rv fv
  proof (induction gs)
    case (Cons g gs)
    then show ?case
      by (simp add: eval_group_groups split: option.split)
  qed simp
  then show ?thesis by (simp add: Evaluate_def authz_groups_def snapshot_def)
qed

end
