(* ===== verification/Go_Log.thy ===== *)
theory Go_Log
  imports Go_Prelude
begin

text \<open>
  \<^verbatim>\<open>internal/log/log.go\<close>: levels, the configuration of the global logger, the console renderer and the helpers that log keys and values. The
  attributes are those of \<^verbatim>\<open>log/slog\<close> that the program builds; the text of a value that the console
  renders with the verb \<^verbatim>\<open>%v\<close> or \<^verbatim>\<open>%g\<close> is part of the attribute.
\<close>

section \<open>Configuration\<close>

definition LevelDebug :: int where "LevelDebug = -4"
definition LevelInfo :: int where "LevelInfo = 0"
definition LevelWarn :: int where "LevelWarn = 4"
definition LevelError :: int where "LevelError = 8"

lemmas level_defs = LevelDebug_def LevelInfo_def LevelWarn_def LevelError_def

datatype log_error = UnknownLevel string | UnknownFormat string

datatype log_handler = JSONHandler | ConsoleHandler

record log_state =
  levelVar :: int
  current :: log_handler

definition parseLevel :: "string \<Rightarrow> log_error + int" where
  "parseLevel name =
     (let n = ToLower (TrimSpace name)
      in if n = [] \<or> n = ''info'' then Inr LevelInfo
         else if n = ''debug'' then Inr LevelDebug
         else if n = ''warn'' \<or> n = ''warning'' then Inr LevelWarn
         else if n = ''error'' then Inr LevelError
         else Inl (UnknownLevel name))"

text \<open>The threshold is set before the format is looked at.\<close>

definition Configure :: "string \<Rightarrow> string \<Rightarrow> log_state \<Rightarrow> log_error option \<times> log_state" where
  "Configure level format st =
     (case parseLevel level of
        Inl e \<Rightarrow> (Some e, st)
      | Inr lvl \<Rightarrow>
          let st1 = st\<lparr>levelVar := lvl\<rparr>
          in if format = ''console'' then (None, st1\<lparr>current := ConsoleHandler\<rparr>)
             else if format = [] \<or> format = ''json'' then (None, st1\<lparr>current := JSONHandler\<rparr>)
             else (Some (UnknownFormat format), st1))"

definition SetLevel :: "string \<Rightarrow> log_state \<Rightarrow> log_error option \<times> log_state" where
  "SetLevel name st =
     (case parseLevel name of
        Inl e \<Rightarrow> (Some e, st)
      | Inr lvl \<Rightarrow> (None, st\<lparr>levelVar := lvl\<rparr>))"

text \<open>The state after the package's \<^verbatim>\<open>init\<close>.\<close>

definition init_log :: log_state where
  "init_log = snd (Configure [] [] \<lparr>levelVar = 0, current = JSONHandler\<rparr>)"

section \<open>The console renderer\<close>

datatype attr =
    AString string string
  | AInt string int
  | ABool string bool
  | AFloat string string                   \<comment> \<open>with the text of \<^verbatim>\<open>%g\<close>\<close>
  | AAny string string                     \<comment> \<open>with the text of \<^verbatim>\<open>%v\<close>\<close>
  | ANil string
  | AGroup string "attr list"

fun attr_key :: "attr \<Rightarrow> string" where
  "attr_key (AString k _) = k"
| "attr_key (AInt k _) = k"
| "attr_key (ABool k _) = k"
| "attr_key (AFloat k _) = k"
| "attr_key (AAny k _) = k"
| "attr_key (ANil k) = k"
| "attr_key (AGroup k _) = k"

text \<open>A record that is handed to the logger.\<close>

record logrec =
  LLevel :: int
  LMsg :: string
  LAttrs :: "attr list"

record consoleHandler =
  cgroup :: string
  cattrs :: "attr list"

definition newConsoleHandler :: consoleHandler where
  "newConsoleHandler = \<lparr>cgroup = [], cattrs = []\<rparr>"

definition Enabled :: "int \<Rightarrow> log_state \<Rightarrow> bool" where
  "Enabled l st \<longleftrightarrow> l \<ge> levelVar st"

definition WithAttrs :: "attr list \<Rightarrow> consoleHandler \<Rightarrow> consoleHandler" where
  "WithAttrs as h = h\<lparr>cattrs := cattrs h @ as\<rparr>"

definition WithGroup :: "string \<Rightarrow> consoleHandler \<Rightarrow> consoleHandler" where
  "WithGroup name h = h\<lparr>cgroup := (if cgroup h \<noteq> [] then cgroup h @ ''.'' @ name else name)\<rparr>"

definition special_chars :: string where
  "special_chars = [CHR '' '', CHR ''='', CHR 0x09, CHR 0x0A, CHR 0x22]"

definition format_string :: "string \<Rightarrow> string" where
  "format_string s = (if list_ex (\<lambda>c. c \<in> set special_chars) s then Quote s else s)"

fun formatValue :: "attr \<Rightarrow> string" where
  "formatValue (AString _ s) = format_string s"
| "formatValue (AInt _ i) = Itoa i"
| "formatValue (ABool _ b) = (if b then ''true'' else ''false'')"
| "formatValue (AFloat _ t) = t"
| "formatValue (AAny _ t) = t"
| "formatValue (ANil _) = ''<nil>''"
| "formatValue (AGroup _ _) = []"

definition group_prefix :: "string \<Rightarrow> string \<Rightarrow> string" where
  "group_prefix pre key =
     (if key \<noteq> [] then (if pre \<noteq> [] then pre @ ''.'' else pre) @ key else pre)"

fun writeAttr :: "string \<Rightarrow> attr \<Rightarrow> string" where
  "writeAttr pre (AGroup k as) = concat (map (writeAttr (group_prefix pre k)) as)"
| "writeAttr pre a =
     (if a = ANil [] then []
      else '' '' @ (if pre \<noteq> [] then pre @ ''.'' else []) @ attr_key a @ ''='' @ formatValue a)"

definition levelTag :: "int \<Rightarrow> string" where
  "levelTag l =
     (if l \<ge> LevelError then ''ERROR''
      else if l \<ge> LevelWarn then ''WARN ''
      else if l \<ge> LevelInfo then ''INFO ''
      else ''DEBUG'')"

text \<open>\<^verbatim>\<open>Handle\<close>: the line that is written, for a record with the given text of its time.\<close>

definition console_line :: "string \<Rightarrow> int \<Rightarrow> string \<Rightarrow> attr list \<Rightarrow> consoleHandler \<Rightarrow> string" where
  "console_line time lvl msg as h =
     time @ '' '' @ levelTag lvl @ '' '' @ msg @
     concat (map (writeAttr (cgroup h)) (cattrs h)) @ concat (map (writeAttr (cgroup h)) as) @ [CHR 0x0A]"

section \<open>One record, one line\<close>

abbreviation newline :: char where "newline \<equiv> CHR 0x0A"

text \<open>Keys without a newline, and no value of a kind that is printed as it is.\<close>

fun line_safe :: "attr \<Rightarrow> bool" where
  "line_safe (AGroup k as) = (newline \<notin> set k \<and> list_all line_safe as)"
| "line_safe (AAny k t) = (newline \<notin> set k \<and> newline \<notin> set t)"
| "line_safe (AFloat k t) = (newline \<notin> set k \<and> newline \<notin> set t)"
| "line_safe a = (newline \<notin> set (attr_key a))"

lemma byte_newline: "byte c = 10 \<longleftrightarrow> c = newline"
  using byte_inject[of c newline] by (simp add: byte_def)

lemma hex_digit_newline:
  assumes "d < 16"
  shows "hex_digit d \<noteq> newline"
proof -
  have "48 \<le> byte (hex_digit d)" using assms by (simp add: hex_digit_def)
  then have "byte (hex_digit d) \<noteq> 10" by linarith
  then show ?thesis by (simp add: byte_newline)
qed

lemma quote_byte_no_newline: "newline \<notin> set (quote_byte c)"
proof (cases "byte c = 10")
  case True
  then show ?thesis by (simp add: byte_newline quote_byte_def)
next
  case False
  have "byte c div 16 < 16" using byte_less_256[of c] by linarith
  then have "hex_digit (byte c div 16) \<noteq> newline" "hex_digit (byte c mod 16) \<noteq> newline"
    using hex_digit_newline by simp_all
  moreover have "c \<noteq> newline" using False by (simp add: byte_newline)
  ultimately show ?thesis by (auto simp: quote_byte_def)
qed

lemma Quote_no_newline: "newline \<notin> set (Quote s)"
  using quote_byte_no_newline by (auto simp: Quote_def)

lemma format_string_no_newline: "newline \<notin> set (format_string s)"
  using Quote_no_newline[of s] by (auto simp: format_string_def special_chars_def list_ex_iff)

lemma Itoa_no_newline: "newline \<notin> set (Itoa i)"
  using Itoa_chars[of newline i] by (auto simp: is_digit_def byte_def)

lemma writeAttr_no_newline:
  "line_safe a \<Longrightarrow> newline \<notin> set pre \<Longrightarrow> newline \<notin> set (writeAttr pre a)"
proof (induction pre a rule: writeAttr.induct)
  case (1 pre k as)
  then have "newline \<notin> set (group_prefix pre k)" by (auto simp: group_prefix_def)
  with 1 show ?case by (auto simp: list_all_iff)
qed (auto simp: format_string_no_newline Itoa_no_newline)

lemma levelTag_no_newline: "newline \<notin> set (levelTag l)"
  by (simp add: levelTag_def)

section \<open>Properties\<close>

text \<open>A configuration that is refused for its format has changed the threshold all the same: the
  handler stays, the level does not. Only a bad level leaves the logger as it was.\<close>

theorem configure_effects:
  "(case Configure level format st of
      (None, st') \<Rightarrow> Inr (levelVar st') = parseLevel level \<and>
        current st' = (if format = ''console'' then ConsoleHandler else JSONHandler)
    | (Some (UnknownLevel _), st') \<Rightarrow> st' = st
    | (Some (UnknownFormat f), st') \<Rightarrow> f = format \<and> f \<notin> {[], ''json'', ''console''} \<and>
        current st' = current st \<and> Inr (levelVar st') = parseLevel level)"
  by (auto simp: Configure_def parseLevel_def Let_def)

text \<open>The console renderer writes one line per record: with a time and a message of one line,
  keys without a newline and no value printed with %v or %g that contains one, the only newline of
  the text is its last character, whatever strings are logged.\<close>

theorem console_one_line:
  assumes "newline \<notin> set time" "newline \<notin> set msg" "newline \<notin> set (cgroup h)"
    "list_all line_safe (cattrs h)" "list_all line_safe as"
  shows "\<exists>line. console_line time lvl msg as h = line @ [newline] \<and> newline \<notin> set line"
  using assms writeAttr_no_newline[of _ "cgroup h"] levelTag_no_newline[of lvl]
  by (auto simp: console_line_def list_all_iff)

theorem console_one_line_witness:
  "\<exists>line. console_line ''12:00:00.000'' 0 ''request decided'' [AString ''path'' [newline]] newConsoleHandler =
     line @ [newline] \<and> newline \<notin> set line"
  by (rule console_one_line) (simp_all add: newConsoleHandler_def)

text \<open>A value of another kind, such as the list of applied mutations, is printed as it is and can
  break the line.\<close>

theorem console_any_breaks_line:
  "console_line [] 0 ''m'' [AAny ''applied'' [CHR ''a'', newline, CHR ''b'']] newConsoleHandler =
     '' INFO  m applied=a'' @ newline # ''b'' @ [newline]"
  by (simp add: console_line_def newConsoleHandler_def levelTag_def level_defs)

section \<open>The helpers\<close>

text \<open>An argument of the key and value API. An attribute in the place of a value is printed with \<^verbatim>\<open>%v\<close>,
  so it comes with that text.\<close>

datatype kvarg =
    KString string
  | KInt int
  | KBool bool
  | KFloat string
  | KAny string
  | KNil
  | KAttr attr string

definition badKey :: string where "badKey = ''!BADKEY''"

fun Any_attr :: "string \<Rightarrow> kvarg \<Rightarrow> attr" where
  "Any_attr k (KString s) = AString k s"
| "Any_attr k (KInt i) = AInt k i"
| "Any_attr k (KBool b) = ABool k b"
| "Any_attr k (KFloat t) = AFloat k t"
| "Any_attr k (KAny t) = AAny k t"
| "Any_attr k KNil = ANil k"
| "Any_attr k (KAttr _ t) = AAny k t"

text \<open>\<^verbatim>\<open>slog\<close> pairs the arguments: a text takes the next argument as its value, an attribute stands for
  itself, and what cannot be paired gets a key of its own.\<close>

fun args_attrs :: "kvarg list \<Rightarrow> attr list" where
  "args_attrs [] = []"
| "args_attrs [KString s] = [AString badKey s]"
| "args_attrs (KString k # v # r) = Any_attr k v # args_attrs r"
| "args_attrs (KAttr a _ # r) = a # args_attrs r"
| "args_attrs (v # r) = Any_attr badKey v # args_attrs r"

fun is_empty_group :: "attr \<Rightarrow> bool" where
  "is_empty_group (AGroup _ as) = list_all is_empty_group as"
| "is_empty_group _ = False"

text \<open>What a record becomes: a line of the console, or a record of the JSON handler with the text that
  \<^verbatim>\<open>ReplaceAttr\<close> gives for its time. The two texts of the time are the argument \<open>clock\<close>.\<close>

datatype log_output =
    ConsoleText string
  | JSONRecord string logrec

definition log_emit :: "string \<times> string \<Rightarrow> int \<Rightarrow> string \<Rightarrow> kvarg list \<Rightarrow> log_state \<Rightarrow> log_output option" where
  "log_emit clock lvl msg kv st =
     (if \<not> Enabled lvl st then None
      else let as = filter (\<lambda>a. \<not> is_empty_group a) (args_attrs kv)
           in Some (case current st of
                ConsoleHandler \<Rightarrow> ConsoleText (console_line (fst clock) lvl msg as newConsoleHandler)
              | JSONHandler \<Rightarrow> JSONRecord (snd clock) \<lparr>LLevel = lvl, LMsg = msg, LAttrs = as\<rparr>))"

definition Debugw where "Debugw clock msg kv st = log_emit clock LevelDebug msg kv st"
definition Infow where "Infow clock msg kv st = log_emit clock LevelInfo msg kv st"
definition Warnw where "Warnw clock msg kv st = log_emit clock LevelWarn msg kv st"
definition Errorw where "Errorw clock msg kv st = log_emit clock LevelError msg kv st"

text \<open>The output and the exit code of the process; the message is the formatted one.\<close>

definition Fatalf :: "string \<times> string \<Rightarrow> string \<Rightarrow> log_state \<Rightarrow> log_output option \<times> int" where
  "Fatalf clock msg st = (log_emit clock LevelError msg [] st, 1)"

text \<open>The states of the logger: that of \<^verbatim>\<open>init\<close>, and what configurations, accepted or refused, make of it.\<close>

inductive logger_state :: "log_state \<Rightarrow> bool" where
  boot: "logger_state init_log"
| configure: "logger_state st \<Longrightarrow> logger_state (snd (Configure level format st))"
| set_level: "logger_state st \<Longrightarrow> logger_state (snd (SetLevel name st))"

definition level_ok :: "log_state \<Rightarrow> bool" where
  "level_ok st \<longleftrightarrow> levelVar st \<in> {LevelDebug, LevelInfo, LevelWarn, LevelError}"

lemma parseLevel_range: "parseLevel n = Inr l \<Longrightarrow> l \<in> {LevelDebug, LevelInfo, LevelWarn, LevelError}"
  by (auto simp: parseLevel_def Let_def split: if_splits)

lemma Configure_level_ok: "level_ok st \<Longrightarrow> level_ok (snd (Configure level format st))"
  using parseLevel_range[of level] by (auto simp: Configure_def level_ok_def Let_def split: sum.splits)

lemma SetLevel_level_ok: "level_ok st \<Longrightarrow> level_ok (snd (SetLevel name st))"
  using parseLevel_range[of name] by (auto simp: SetLevel_def level_ok_def split: sum.splits)

lemma logger_state_level_ok: "logger_state st \<Longrightarrow> level_ok st"
proof (induction rule: logger_state.induct)
  case boot
  then show ?case unfolding init_log_def by (intro Configure_level_ok) (simp add: level_ok_def level_defs)
qed (simp_all add: Configure_level_ok SetLevel_level_ok)

lemma level_ok_error: "level_ok st \<Longrightarrow> Enabled LevelError st"
  by (auto simp: level_ok_def Enabled_def level_defs)

text \<open>Pairs of a key and a value, in the order of the arguments.\<close>

lemma args_attrs_pairs:
  "args_attrs (concat (map (\<lambda>(k, v). [KString k, v]) kvs)) = map (\<lambda>(k, v). Any_attr k v) kvs"
  by (induction kvs) auto

lemma Any_attr_not_group [simp]: "\<not> is_empty_group (Any_attr k v)"
  by (cases v) simp_all

lemma kept_pairs:
  "filter (\<lambda>a. \<not> is_empty_group a) (map (\<lambda>(k, v). Any_attr k v) kvs) = map (\<lambda>(k, v). Any_attr k v) kvs"
  by (induction kvs) auto

text \<open>C33: No configuration silences errors. Whatever sequence of configurations and level changes, accepted
  or refused, the logger has gone through, an error logged with keys and values is output by the
  handler in force, with every pair in its place; and the message of a fatal error is output before
  the process exits with code 1.\<close>

theorem errors_always_logged:
  assumes "logger_state st"
  shows "Errorw clock msg (concat (map (\<lambda>(k, v). [KString k, v]) kvs)) st =
      Some (case current st of
        ConsoleHandler \<Rightarrow>
          ConsoleText (fst clock @ '' ERROR '' @ msg @
            concat (map (\<lambda>(k, v). '' '' @ k @ ''='' @ formatValue (Any_attr k v)) (filter (\<lambda>(k, v). k \<noteq> [] \<or> v \<noteq> KNil) kvs)) @
            [newline])
      | JSONHandler \<Rightarrow>
          JSONRecord (snd clock) \<lparr>LLevel = LevelError, LMsg = msg, LAttrs = map (\<lambda>(k, v). Any_attr k v) kvs\<rparr>) \<and>
    Fatalf clock msg st =
      (Some (case current st of
         ConsoleHandler \<Rightarrow> ConsoleText (fst clock @ '' ERROR '' @ msg @ [newline])
       | JSONHandler \<Rightarrow> JSONRecord (snd clock) \<lparr>LLevel = LevelError, LMsg = msg, LAttrs = []\<rparr>), 1)"
proof -
  have e: "Enabled LevelError st" by (rule level_ok_error[OF logger_state_level_ok[OF assms]])
  have w: "writeAttr [] (Any_attr k v) =
      (if k = [] \<and> v = KNil then [] else '' '' @ k @ ''='' @ formatValue (Any_attr k v))" for k v
    by (cases v) auto
  have "concat (map (writeAttr []) (map (\<lambda>(k, v). Any_attr k v) kvs)) =
      concat (map (\<lambda>(k, v). '' '' @ k @ ''='' @ formatValue (Any_attr k v)) (filter (\<lambda>(k, v). k \<noteq> [] \<or> v \<noteq> KNil) kvs))"
    by (induction kvs) (auto simp: w)
  with e show ?thesis
    by (simp add: Errorw_def Fatalf_def log_emit_def Let_def args_attrs_pairs kept_pairs console_line_def
        newConsoleHandler_def levelTag_def split: log_handler.split)
qed

theorem errors_always_logged_witness:
  "Errorw (''12:00:00.000'', ''t'') ''server crashed'' [KString ''err'', KString ''a b''] 
     (snd (Configure ''error'' ''console'' (snd (Configure ''error'' ''xml'' init_log)))) =
   Some (ConsoleText (''12:00:00.000 ERROR server crashed err='' @ CHR 0x22 # ''a b'' @ [CHR 0x22, newline]))"
proof -
  let ?st = "snd (Configure ''error'' ''console'' (snd (Configure ''error'' ''xml'' init_log)))"
  have "logger_state ?st" by (intro logger_state.intros)
  moreover have "current ?st = ConsoleHandler" by code_simp
  moreover have "format_string ''a b'' = CHR 0x22 # ''a b'' @ [CHR 0x22]" by code_simp
  ultimately show ?thesis
    using errors_always_logged[of ?st "(''12:00:00.000'', ''t'')" "''server crashed''" "[(''err'', KString ''a b'')]"]
    by simp
qed

end
