(* ===== verification/Accesslog.thy ===== *)
theory Accesslog
  imports Policy_Eval Go_Log
begin

text \<open>
  \<^verbatim>\<open>internal/accesslog/accesslog.go\<close>: the attributes of the access log, with the exclusion and the
  masking of headers and the redaction of query parameters.
\<close>

section \<open>Redaction\<close>

text \<open>The set as the list of its members; a nil slice is empty.\<close>

definition lowerSet :: "string list option \<Rightarrow> string list" where
  "lowerSet xs =
     filter (\<lambda>x. x \<noteq> []) (map (\<lambda>x. TrimSpace (ToLower x)) (case xs of None \<Rightarrow> [] | Some l \<Rightarrow> l))"

text \<open>\<^verbatim>\<open>2*n\<close> wraps around, and slicing beyond the end panics.\<close>

definition mask :: "string \<Rightarrow> int \<Rightarrow> string go" where
  "mask v n =
     (if v = [] then Some []
      else if n \<le> 0 \<or> int (length v) < wrap64 (2 * n) then Some (Repeat (CHR ''*'') (length v))
      else if n > int (length v) then None
      else Some (take (nat n) v @ Repeat (CHR ''*'') (length v - nat n)))"

definition redact_pair :: "string list \<Rightarrow> string \<Rightarrow> string" where
  "redact_pair sensitive p =
     (case IndexByte p (CHR ''='') of
        None \<Rightarrow> p
      | Some eq \<Rightarrow>
          let name = (case QueryUnescape (take eq p) of Inl _ \<Rightarrow> [] | Inr s \<Rightarrow> s)
          in if ToLower name \<in> set sensitive then take (eq + 1) p @ ''***'' else p)"

definition redactedQuery :: "string \<Rightarrow> logging \<Rightarrow> string" where
  "redactedQuery raw lg =
     (if raw = [] then []
      else let sensitive = lowerSet (RedactQueryParams lg)
           in if sensitive = [] then raw
              else Join (map (redact_pair sensitive) (Split raw (CHR ''&''))) ''&'')"

section \<open>Records\<close>

fun header_attrs :: "string list \<Rightarrow> string list \<Rightarrow> int \<Rightarrow> header \<Rightarrow> attr list go" where
  "header_attrs exclude redact reveal [] = Some []"
| "header_attrs exclude redact reveal ((k, vs) # h) =
     (let lk = ToLower k
      in if lk \<in> set exclude then header_attrs exclude redact reveal h
         else
           (case (if lk \<in> set redact then mask (Join vs '', '') reveal else Some (Join vs '', '')) of
              None \<Rightarrow> None
            | Some joined \<Rightarrow>
                (case header_attrs exclude redact reveal h of
                   None \<Rightarrow> None
                 | Some as \<Rightarrow> Some (AString lk joined # as))))"

definition body_attr :: "logging \<Rightarrow> header \<Rightarrow> string \<Rightarrow> attr" where
  "body_attr lg h b =
     AGroup ''body''
       ([AInt ''size'' (int (length b)),
         AString ''content_type'' (ToLower (HdrGet h ''Content-Type''))] @
        (if LogBody lg \<and> b \<noteq> [] then [AString ''raw'' b] else []))"

definition RequestAttrs :: "request \<Rightarrow> logging \<Rightarrow> attr go" where
  "RequestAttrs req lg =
     (case header_attrs (lowerSet (ExcludeHeaders lg)) (lowerSet (RedactHeaders lg)) (RedactReveal lg)
             (Headers req) of
        None \<Rightarrow> None
      | Some hdrs \<Rightarrow> Some (AGroup ''request''
          [AString ''method'' (Method req), AString ''scheme'' (Scheme req), AString ''host'' (Host req),
           AString ''path'' (Path req), AString ''query'' (redactedQuery (RawQuery req) lg),
           AString ''remote_ip'' (RemoteIP req), AGroup ''headers'' hdrs,
           body_attr lg (Headers req) (Body req)]))"

definition ResponseAttrs :: "response option \<Rightarrow> logging \<Rightarrow> attr go" where
  "ResponseAttrs resp lg =
     (case resp of
        None \<Rightarrow> Some (AGroup ''response''
          [AInt ''status'' 0, AGroup ''headers'' [],
           AGroup ''body'' [AInt ''size'' 0, AString ''content_type'' []]])
      | Some rs \<Rightarrow>
          (case header_attrs (lowerSet (ExcludeHeaders lg)) (lowerSet (RedactHeaders lg))
                  (RedactReveal lg) (RHeaders rs) of
             None \<Rightarrow> None
           | Some hdrs \<Rightarrow> Some (AGroup ''response''
               [AInt ''status'' (Status rs), AGroup ''headers'' hdrs,
                body_attr lg (RHeaders rs) (RBody rs)])))"

section \<open>Masking\<close>

text \<open>What a masked text shows of the original: at most \<open>n\<close> leading bytes and at most half of it.\<close>

definition conceals :: "int \<Rightarrow> string \<Rightarrow> string \<Rightarrow> bool" where
  "conceals n v m \<longleftrightarrow>
     (\<exists>j. m = take j v @ replicate (length v - j) (CHR ''*'') \<and> 2 * j \<le> length v \<and> int j \<le> max 0 n)"

lemma mask_conceals:
  assumes "n < 2 ^ 62" "- (2 ^ 62) \<le> n"
  shows "\<exists>m. mask v n = Some m \<and> conceals n v m"
proof (cases "n \<le> 0 \<or> int (length v) < 2 * n")
  case True
  have w: "wrap64 (2 * n) = 2 * n" using assms by (intro wrap64_id) (simp add: int64_def)
  have "conceals n v (Repeat (CHR ''*'') (length v))"
    unfolding conceals_def by (intro exI[of _ 0]) (simp add: Repeat_def)
  with True w show ?thesis by (auto simp: mask_def conceals_def Repeat_def)
next
  case False
  have w: "wrap64 (2 * n) = 2 * n" using assms by (intro wrap64_id) (simp add: int64_def)
  have "conceals n v (take (nat n) v @ Repeat (CHR ''*'') (length v - nat n))"
    unfolding conceals_def using False by (intro exI[of _ "nat n"]) (auto simp: Repeat_def)
  with False w show ?thesis by (auto simp: mask_def)
qed

lemma mask_panics:
  assumes "2 ^ 62 \<le> n" "n < 2 ^ 63" "v \<noteq> []" "int (length v) < 2 ^ 62"
  shows "mask v n = None"
proof -
  have "wrap64 (2 * n) = 2 * n - 2 ^ 64"
    using assms(1,2) by (intro wrap64_over) auto
  with assms show ?thesis by (simp add: mask_def)
qed

lemma conceals_length: "conceals n v m \<Longrightarrow> length m = length v"
  by (auto simp: conceals_def)

section \<open>Header attributes\<close>

definition shown_value :: "string list \<Rightarrow> int \<Rightarrow> string \<Rightarrow> string list \<Rightarrow> string \<Rightarrow> bool" where
  "shown_value redact reveal lk vs v \<longleftrightarrow>
     (if lk \<in> set redact then conceals reveal (Join vs '', '') v else v = Join vs '', '')"

lemma header_attrs_spec:
  assumes "n < 2 ^ 62" "- (2 ^ 62) \<le> n"
  shows "\<exists>as. header_attrs ex re n h = Some as \<and>
    list_all2 (\<lambda>(k, vs) a. \<exists>v. a = AString (ToLower k) v \<and> shown_value re n (ToLower k) vs v)
      (filter (\<lambda>(k, _). ToLower k \<notin> set ex) h) as"
proof (induction h)
  case (Cons kv h)
  obtain k vs where kv: "kv = (k, vs)" by (cases kv)
  obtain as where as: "header_attrs ex re n h = Some as"
    "list_all2 (\<lambda>(k, vs) a. \<exists>v. a = AString (ToLower k) v \<and> shown_value re n (ToLower k) vs v)
      (filter (\<lambda>(k, _). ToLower k \<notin> set ex) h) as"
    using Cons by blast
  obtain m where "mask (Join vs '', '') n = Some m" "conceals n (Join vs '', '') m"
    using mask_conceals[OF assms] by blast
  with as kv show ?case by (simp add: Let_def shown_value_def)
qed simp

section \<open>Query redaction\<close>

lemma redact_pair_no_amp:
  assumes "CHR ''&'' \<notin> set p"
  shows "CHR ''&'' \<notin> set (redact_pair s p)"
  using assms
  by (auto simp: redact_pair_def Let_def split: option.split dest: in_set_takeD)

lemma redactedQuery_pairs:
  assumes "raw \<noteq> []"
  shows "Split (redactedQuery raw lg) (CHR ''&'') =
    map (redact_pair (lowerSet (RedactQueryParams lg))) (Split raw (CHR ''&''))"
proof (cases "lowerSet (RedactQueryParams lg) = []")
  case True
  have "redact_pair [] p = p" for p by (simp add: redact_pair_def Let_def split: option.split)
  with True assms show ?thesis by (simp add: redactedQuery_def map_idI)
next
  case False
  then show ?thesis using assms
    by (simp add: redactedQuery_def Let_def)
       (rule Split_Join, auto dest: redact_pair_no_amp[OF Split_parts_no_sep])
qed

section \<open>Properties\<close>

text \<open>C30: The mask of a value has its length, shows at most the configured number of leading bytes and
  at most half of the value, for every reveal below 2^62; from there on the doubled threshold
  overflows and a value of reasonable length makes the slice panic.\<close>

theorem mask_reveals_at_most_half:
  "(- (2 ^ 62) \<le> n \<and> n < 2 ^ 62 \<longrightarrow> (\<exists>m. mask v n = Some m \<and> length m = length v \<and> conceals n v m)) \<and>
   (2 ^ 62 \<le> n \<and> n < 2 ^ 63 \<and> v \<noteq> [] \<and> int (length v) < 2 ^ 62 \<longrightarrow> mask v n = None)"
  using mask_conceals[of n v] conceals_length mask_panics[of n v] by blast

theorem mask_reveals_at_most_half_witness:
  "(\<exists>m. mask ''Bearer abcdefgh'' 6 = Some m \<and> length m = length ''Bearer abcdefgh'' \<and> conceals 6 ''Bearer abcdefgh'' m) \<and>
   mask ''secret'' (2 ^ 62) = None"
  using mask_reveals_at_most_half[of 6 "''Bearer abcdefgh''"] mask_reveals_at_most_half[of "2 ^ 62" "''secret''"]
  by simp

text \<open>C29: The request record of the access log. With a reveal below 2^62 it is always built; it has
  one attribute per header that is not excluded, in order and under the lower-case name, with the
  joined values, masked when the header is to be redacted; and it has the raw body exactly when the
  body is logged and not empty.\<close>

theorem request_log_hides:
  assumes "- (2 ^ 62) \<le> RedactReveal lg" "RedactReveal lg < 2 ^ 62"
  shows "\<exists>hdrs body. RequestAttrs req lg = Some (AGroup ''request''
      [AString ''method'' (Method req), AString ''scheme'' (Scheme req), AString ''host'' (Host req),
       AString ''path'' (Path req), AString ''query'' (redactedQuery (RawQuery req) lg),
       AString ''remote_ip'' (RemoteIP req), AGroup ''headers'' hdrs, AGroup ''body'' body]) \<and>
    list_all2 (\<lambda>(k, vs) a. \<exists>v. a = AString (ToLower k) v \<and>
        shown_value (lowerSet (RedactHeaders lg)) (RedactReveal lg) (ToLower k) vs v)
      (filter (\<lambda>(k, _). ToLower k \<notin> set (lowerSet (ExcludeHeaders lg))) (Headers req)) hdrs \<and>
    (\<forall>a \<in> set body. attr_key a = ''raw'' \<longrightarrow> LogBody lg \<and> a = AString ''raw'' (Body req))"
proof -
  obtain hdrs where "header_attrs (lowerSet (ExcludeHeaders lg)) (lowerSet (RedactHeaders lg))
      (RedactReveal lg) (Headers req) = Some hdrs"
    "list_all2 (\<lambda>(k, vs) a. \<exists>v. a = AString (ToLower k) v \<and>
        shown_value (lowerSet (RedactHeaders lg)) (RedactReveal lg) (ToLower k) vs v)
      (filter (\<lambda>(k, _). ToLower k \<notin> set (lowerSet (ExcludeHeaders lg))) (Headers req)) hdrs"
    using header_attrs_spec[OF assms(2,1)] by blast
  then show ?thesis by (auto simp: RequestAttrs_def body_attr_def)
qed

theorem request_log_hides_witness:
  "\<exists>hdrs body. RequestAttrs sample_request sample_logging = Some (AGroup ''request''
      [AString ''method'' ''GET'', AString ''scheme'' ''https'', AString ''host'' ''a.example'',
       AString ''path'' ''/v1'', AString ''query'' (redactedQuery ''code=1'' sample_logging),
       AString ''remote_ip'' ''10.0.0.1'', AGroup ''headers'' hdrs, AGroup ''body'' body])"
proof -
  have "- (2 ^ 62) \<le> RedactReveal sample_logging" "RedactReveal sample_logging < 2 ^ 62"
    by (simp_all add: sample_logging_def)
  from request_log_hides[OF this, of sample_request] show ?thesis
    by (auto simp: sample_request_def)
qed

text \<open>The logged query has the pairs of the original, in order, each one as it was sent, except
  that the value of a pair whose decoded name is sensitive is three stars.\<close>

theorem logged_query_pairs:
  assumes "raw \<noteq> []" "p \<in> set (Split (redactedQuery raw lg) (CHR ''&''))"
  shows "\<exists>q \<in> set (Split raw (CHR ''&'')).
    p = redact_pair (lowerSet (RedactQueryParams lg)) q \<and>
    (\<forall>name value key. q = name @ CHR ''='' # value \<and> CHR ''='' \<notin> set name \<and> QueryUnescape name = Inr key \<and>
       ToLower key \<in> set (lowerSet (RedactQueryParams lg)) \<longrightarrow> p = name @ ''=***'')"
proof -
  obtain q where q: "q \<in> set (Split raw (CHR ''&''))" "p = redact_pair (lowerSet (RedactQueryParams lg)) q"
    using assms(2) unfolding redactedQuery_pairs[OF assms(1)] by auto
  then show ?thesis by (intro bexI[of _ q]) (auto simp: redact_pair_def)
qed

theorem logged_query_pairs_witness:
  "\<exists>q \<in> set (Split ''a=1&%63ode=s3cret'' (CHR ''&'')).
     ''%63ode=***'' = redact_pair (lowerSet (Some [''code''])) q"
proof -
  let ?raw = "''a=1&%63ode=s3cret''"
  have t: "TrimSpace ''code'' = ''code''" by (intro TrimSpace_id) (simp_all add: is_graph_def byte_def)
  have c: "char_of (99 :: nat) = CHR ''c''" by code_simp
  have "redactedQuery ?raw sample_logging = ''a=1&%63ode=***''"
    by (simp add: t c redactedQuery_def redact_pair_def lowerSet_def sample_logging_def QueryUnescape.simps is_hex_def
        unhex_def is_digit_def is_upper_def lower_byte_def byte_def Let_def)
  then have "''%63ode=***'' \<in> set (Split (redactedQuery ?raw sample_logging) (CHR ''&''))" by simp
  from logged_query_pairs[OF _ this] show ?thesis by (auto simp: sample_logging_def)
qed

end
