(* ===== verification/Metrics.thy ===== *)
theory Metrics
  imports Go_Prelude "HOL-Library.Word" "HOL-Library.Product_Lexorder"
begin

text \<open>
  \<^verbatim>\<open>internal/httpserver/metrics.go\<close>: the decision counters. The counters are 64-bit words in a heap,
  since the table holds pointers to them: \<^verbatim>\<open>record\<close> looks a pointer up under the read lock, inserts
  one under the write lock after a second look, and increments it outside of both locks. The model
  has these atomic actions, their sequential composition, and their interleaving by any number of
  goroutines.
\<close>

section \<open>State and actions\<close>

record ruleKey =
  KRule :: string
  KOutcome :: string
  KDryRun :: bool

record metrics =
  totalAllowed :: "64 word"
  totalDenied :: "64 word"
  totalErrors :: "64 word"
  perRule :: "(ruleKey \<times> nat) list"
  counters :: "64 word list"

definition newMetrics :: metrics where
  "newMetrics = \<lparr>totalAllowed = 0, totalDenied = 0, totalErrors = 0, perRule = [], counters = []\<rparr>"

definition count_total :: "ruleKey \<Rightarrow> metrics \<Rightarrow> metrics" where
  "count_total k m =
     (if KOutcome k = ''allow'' then m\<lparr>totalAllowed := totalAllowed m + 1\<rparr>
      else if KOutcome k = ''deny'' then m\<lparr>totalDenied := totalDenied m + 1\<rparr>
      else if KOutcome k = ''error'' then m\<lparr>totalErrors := totalErrors m + 1\<rparr>
      else m)"

text \<open>Under the write lock: the second look, and the insertion of a new counter.\<close>

definition get_or_insert :: "ruleKey \<Rightarrow> metrics \<Rightarrow> nat \<times> metrics" where
  "get_or_insert k m =
     (case map_of (perRule m) k of
        Some a \<Rightarrow> (a, m)
      | None \<Rightarrow> (length (counters m),
                 m\<lparr>perRule := map_put k (length (counters m)) (perRule m), counters := counters m @ [0]\<rparr>))"

definition add_count :: "nat \<Rightarrow> metrics \<Rightarrow> metrics" where
  "add_count a m = m\<lparr>counters := (counters m)[a := counters m ! a + 1]\<rparr>"

definition metrics_record :: "ruleKey \<Rightarrow> metrics \<Rightarrow> metrics" where
  "metrics_record k m =
     (let m1 = count_total k m
      in case map_of (perRule m1) k of
           Some a \<Rightarrow> add_count a m1
         | None \<Rightarrow> (let (a, m2) = get_or_insert k m1 in add_count a m2))"

section \<open>Exposition\<close>

definition boolStr :: "bool \<Rightarrow> string" where
  "boolStr b = (if b then ''true'' else ''false'')"

definition nl :: string where "nl = [CHR 0x0A]"

definition total_line :: "string \<Rightarrow> 64 word \<Rightarrow> string" where
  "total_line outcome n =
     ''request_validator_decisions_total{outcome='' @ Quote outcome @ ''} '' @ Itoa (uint n) @ nl"

definition rule_line :: "metrics \<Rightarrow> ruleKey \<Rightarrow> string" where
  "rule_line m k =
     ''request_validator_rule_decisions_total{rule='' @ Quote (KRule k) @ '',outcome='' @
     Quote (KOutcome k) @ '',dry_run='' @ Quote (boolStr (KDryRun k)) @ ''} '' @
     Itoa (case map_of (perRule m) k of None \<Rightarrow> 0 | Some a \<Rightarrow> uint (counters m ! a)) @ nl"

text \<open>The comparison of \<^verbatim>\<open>sort.Slice\<close> does not look at \<^verbatim>\<open>dry_run\<close>: keys that differ only there keep the
  order of the table, which is the arbitrary order of the map.\<close>

definition sorted_keys :: "metrics \<Rightarrow> ruleKey list" where
  "sorted_keys m = sort_key (\<lambda>k. (KRule k, KOutcome k)) (map fst (perRule m))"

definition metrics_handler :: "metrics \<Rightarrow> string" where
  "metrics_handler m =
     ''# HELP request_validator_decisions_total Total decisions emitted.'' @ nl @
     ''# TYPE request_validator_decisions_total counter'' @ nl @
     total_line ''allow'' (totalAllowed m) @ total_line ''deny'' (totalDenied m) @
     total_line ''error'' (totalErrors m) @
     ''# HELP request_validator_rule_decisions_total Decisions broken down by rule.'' @ nl @
     ''# TYPE request_validator_rule_decisions_total counter'' @ nl @
     concat (map (rule_line m) (sorted_keys m))"

section \<open>Goroutines\<close>

datatype pc = PStart | PLookup | PInsert | PAdd nat | PDone

fun rec_step :: "ruleKey \<Rightarrow> pc \<Rightarrow> metrics \<Rightarrow> pc \<times> metrics" where
  "rec_step k PStart m = (PLookup, count_total k m)"
| "rec_step k PLookup m =
     (case map_of (perRule m) k of Some a \<Rightarrow> (PAdd a, m) | None \<Rightarrow> (PInsert, m))"
| "rec_step k PInsert m = (let (a, m') = get_or_insert k m in (PAdd a, m'))"
| "rec_step k (PAdd a) m = (PDone, add_count a m)"
| "rec_step k PDone m = (PDone, m)"

type_synonym thread = "ruleKey \<times> pc"

inductive met_step :: "thread list \<times> metrics \<Rightarrow> thread list \<times> metrics \<Rightarrow> bool" where
  "i < length ts \<Longrightarrow> ts ! i = (k, p) \<Longrightarrow> p \<noteq> PDone \<Longrightarrow> rec_step k p m = (p', m') \<Longrightarrow>
     met_step (ts, m) (ts[i := (k, p')], m')"

text \<open>The calls that are to be recorded.\<close>

definition calls :: "ruleKey list \<Rightarrow> thread list" where
  "calls ks = map (\<lambda>k. (k, PStart)) ks"

definition all_done :: "thread list \<Rightarrow> bool" where
  "all_done ts \<longleftrightarrow> (\<forall>t \<in> set ts. snd t = PDone)"

definition counter_of :: "metrics \<Rightarrow> ruleKey \<Rightarrow> 64 word" where
  "counter_of m k = (case map_of (perRule m) k of None \<Rightarrow> 0 | Some a \<Rightarrow> counters m ! a)"

section \<open>The invariant\<close>

definition num :: "('a \<Rightarrow> bool) \<Rightarrow> 'a list \<Rightarrow> 64 word" where
  "num P xs = of_nat (length (filter P xs))"

lemma num_simps [simp]:
  "num P [] = 0"
  "num P (x # xs) = (if P x then 1 else 0) + num P xs"
  "num P (xs @ ys) = num P xs + num P ys"
  by (simp_all add: num_def)

lemma num_update:
  assumes "i < length xs"
  shows "num P (xs[i := x]) = num P xs - (if P (xs ! i) then 1 else 0) + (if P x then 1 else 0)"
proof -
  have "num P xs = num P (take i xs @ xs ! i # drop (Suc i) xs)"
    using id_take_nth_drop[OF assms] by simp
  moreover have "num P (xs[i := x]) = num P (take i xs @ x # drop (Suc i) xs)"
    using assms by (simp only: upd_conv_take_nth_drop)
  ultimately show ?thesis by simp
qed

text \<open>Every pointer of the table is its own allocated counter.\<close>

definition good_table :: "metrics \<Rightarrow> bool" where
  "good_table m \<longleftrightarrow>
     (\<forall>k a. map_of (perRule m) k = Some a \<longrightarrow> a < length (counters m)) \<and>
     (\<forall>k k' a. map_of (perRule m) k = Some a \<longrightarrow> map_of (perRule m) k' = Some a \<longrightarrow> k = k')"

definition holds_pointer :: "metrics \<Rightarrow> thread \<Rightarrow> bool" where
  "holds_pointer m t \<longleftrightarrow> (\<forall>k a. t = (k, PAdd a) \<longrightarrow> map_of (perRule m) k = Some a)"

definition counted :: "string \<Rightarrow> thread \<Rightarrow> bool" where
  "counted outcome t \<longleftrightarrow> KOutcome (fst t) = outcome \<and> snd t \<noteq> PStart"

definition met_inv :: "thread list \<times> metrics \<Rightarrow> bool" where
  "met_inv s \<longleftrightarrow> (case s of (ts, m) \<Rightarrow>
     good_table m \<and> (\<forall>t \<in> set ts. holds_pointer m t) \<and>
     (\<forall>k. counter_of m k = num (\<lambda>t. t = (k, PDone)) ts) \<and>
     totalAllowed m = num (counted ''allow'') ts \<and>
     totalDenied m = num (counted ''deny'') ts \<and>
     totalErrors m = num (counted ''error'') ts)"

lemma count_total_table [simp]:
  "perRule (count_total k m) = perRule m" "counters (count_total k m) = counters m"
  by (simp_all add: count_total_def)

lemma table_cong:
  assumes "perRule m' = perRule m" "counters m' = counters m"
  shows "good_table m' = good_table m" "counter_of m' k = counter_of m k"
    "holds_pointer m' t = holds_pointer m t"
  using assms by (simp_all add: good_table_def counter_of_def holds_pointer_def split: option.split)

lemma get_or_insert_props:
  assumes "good_table m" "get_or_insert k m = (a, m')"
  shows "good_table m'" "map_of (perRule m') k = Some a" "counter_of m' k' = counter_of m k'"
    "holds_pointer m t \<Longrightarrow> holds_pointer m' t"
    "totalAllowed m' = totalAllowed m" "totalDenied m' = totalDenied m" "totalErrors m' = totalErrors m"
proof -
  show "map_of (perRule m') k = Some a"
    using assms(2) by (auto simp: get_or_insert_def split: option.splits)
  show "totalAllowed m' = totalAllowed m" "totalDenied m' = totalDenied m" "totalErrors m' = totalErrors m"
    using assms(2) by (auto simp: get_or_insert_def split: option.splits)
  show "good_table m'"
  proof (cases "map_of (perRule m) k")
    case None
    then have m': "map_of (perRule m') = (map_of (perRule m))(k \<mapsto> length (counters m))"
        "length (counters m') = Suc (length (counters m))"
      using assms(2) by (auto simp: get_or_insert_def)
    have "map_of (perRule m) j = Some b \<Longrightarrow> b < length (counters m)" for j b
      using assms(1) by (simp add: good_table_def)
    with assms(1) m' show ?thesis
      unfolding good_table_def by (auto split: if_splits) fastforce+
  qed (use assms in \<open>auto simp: get_or_insert_def\<close>)
  show "counter_of m' k' = counter_of m k'"
  proof (cases "map_of (perRule m) k")
    case None
    then have m': "m' = m\<lparr>perRule := map_put k (length (counters m)) (perRule m), counters := counters m @ [0]\<rparr>"
      using assms(2) by (auto simp: get_or_insert_def)
    have b: "map_of (perRule m) k' = Some b \<Longrightarrow> b < length (counters m)" for b
      using assms(1) by (simp add: good_table_def)
    show ?thesis
    proof (cases "k' = k")
      case True
      with None m' show ?thesis by (simp add: counter_of_def nth_append)
    next
      case False
      with m' b show ?thesis by (simp add: counter_of_def nth_append split: option.split)
    qed
  qed (use assms in \<open>auto simp: get_or_insert_def\<close>)
  show "holds_pointer m t \<Longrightarrow> holds_pointer m' t"
    using assms(2) by (auto simp: get_or_insert_def holds_pointer_def split: option.splits)
qed

lemma add_count_props:
  assumes "good_table m" "map_of (perRule m) k = Some a"
  shows "good_table (add_count a m)" "holds_pointer m t \<Longrightarrow> holds_pointer (add_count a m) t"
    "counter_of (add_count a m) k' = counter_of m k' + (if k' = k then 1 else 0)"
    "totalAllowed (add_count a m) = totalAllowed m" "totalDenied (add_count a m) = totalDenied m"
    "totalErrors (add_count a m) = totalErrors m"
proof -
  have a: "a < length (counters m)" using assms by (simp add: good_table_def)
  have inj: "k' = k" if "map_of (perRule m) k' = Some a"
    using assms(1)[unfolded good_table_def] that assms(2) by metis
  show "counter_of (add_count a m) k' = counter_of m k' + (if k' = k then 1 else 0)"
  proof (cases "k' = k")
    case True
    with a assms(2) show ?thesis by (simp add: counter_of_def add_count_def)
  next
    case False
    then have "map_of (perRule m) k' \<noteq> Some a" using inj by blast
    with False show ?thesis by (auto simp: counter_of_def add_count_def split: option.split)
  qed
qed (use assms(1) in \<open>simp_all add: good_table_def holds_pointer_def add_count_def\<close>)

lemma count_total_counted:
  assumes "i < length ts" "ts ! i = (k, PStart)"
  shows "totalAllowed m = num (counted ''allow'') ts \<Longrightarrow>
      totalAllowed (count_total k m) = num (counted ''allow'') (ts[i := (k, PLookup)])"
    "totalDenied m = num (counted ''deny'') ts \<Longrightarrow>
      totalDenied (count_total k m) = num (counted ''deny'') (ts[i := (k, PLookup)])"
    "totalErrors m = num (counted ''error'') ts \<Longrightarrow>
      totalErrors (count_total k m) = num (counted ''error'') (ts[i := (k, PLookup)])"
  using assms by (simp_all add: num_update counted_def count_total_def)

lemma num_counted_same:
  assumes "i < length ts" "ts ! i = (k, p)" "p \<noteq> PStart" "p' \<noteq> PStart"
  shows "num (counted oc) (ts[i := (k, p')]) = num (counted oc) ts"
  using assms by (simp add: num_update counted_def)

lemma num_done_same:
  assumes "i < length ts" "ts ! i = (k, p)" "p \<noteq> PDone" "p' \<noteq> PDone"
  shows "num (\<lambda>t. t = (k', PDone)) (ts[i := (k, p')]) = num (\<lambda>t. t = (k', PDone)) ts"
  using assms by (simp add: num_update)

lemma pointers_update:
  assumes "\<forall>t \<in> set ts. holds_pointer m t" "\<And>t. holds_pointer m t \<Longrightarrow> holds_pointer m' t"
    "holds_pointer m' x"
  shows "\<forall>t \<in> set (ts[i := x]). holds_pointer m' t"
  using assms set_update_subset_insert[of ts i x] by blast

lemma met_step_inv:
  assumes "met_step (ts, m) (ts', m')" "met_inv (ts, m)"
  shows "met_inv (ts', m')"
proof -
  obtain i k p p' where 1: "ts' = ts[i := (k, p')]" "i < length ts" "ts ! i = (k, p)" "p \<noteq> PDone"
    "rec_step k p m = (p', m')"
    using assms(1) by (cases rule: met_step.cases) auto
  note inv = assms(2)[unfolded met_inv_def prod.case]
  show ?thesis
  proof (cases p)
    case PStart
    then have m': "p' = PLookup" "m' = count_total k m" using 1 by simp_all
    have "\<forall>t \<in> set ts'. holds_pointer m' t"
      unfolding 1(1) using inv m' table_cong(3)[of m' m]
      by (intro pointers_update[where m = m]) (auto simp: holds_pointer_def)
    then show ?thesis
      using inv m' 1 PStart count_total_counted[of i ts k m] num_done_same[of i ts k p p']
        table_cong[of m' m]
      by (simp add: met_inv_def)
  next
    case PLookup
    then have m': "m' = m" "p' = (case map_of (perRule m) k of Some a \<Rightarrow> PAdd a | None \<Rightarrow> PInsert)"
      using 1 by (auto split: option.splits)
    then have "\<forall>t \<in> set ts'. holds_pointer m' t"
      unfolding 1(1) using inv
      by (intro pointers_update[where m = m]) (auto simp: holds_pointer_def split: option.splits)
    moreover have "p' \<noteq> PStart" "p' \<noteq> PDone" using m'(2) by (auto split: option.splits)
    ultimately show ?thesis
      using inv m' 1 PLookup num_counted_same[of i ts k p p'] num_done_same[of i ts k p p']
      by (simp add: met_inv_def)
  next
    case PInsert
    then obtain a where a: "get_or_insert k m = (a, m')" "p' = PAdd a"
      using 1 by (auto split: prod.splits)
    note G = get_or_insert_props[OF _ a(1)]
    have "\<forall>t \<in> set ts'. holds_pointer m' t"
      unfolding 1(1) using inv G(2,4) a(2)
      by (intro pointers_update[where m = m]) (auto simp: holds_pointer_def)
    then show ?thesis
      using inv G a(2) 1 PInsert num_counted_same[of i ts k p p'] num_done_same[of i ts k p p']
      by (simp add: met_inv_def)
  next
    case (PAdd a)
    then have m': "p' = PDone" "m' = add_count a m" using 1 by simp_all
    have "(k, PAdd a) \<in> set ts" using 1 PAdd by (metis nth_mem)
    then have a: "map_of (perRule m) k = Some a" using inv by (auto simp: holds_pointer_def)
    note A = add_count_props[OF _ a]
    have "\<forall>t \<in> set ts'. holds_pointer m' t"
      unfolding 1(1) using inv A(2) m'
      by (intro pointers_update[where m = m]) (auto simp: holds_pointer_def)
    moreover have "counter_of m' k' = num (\<lambda>t. t = (k', PDone)) ts'" for k'
      using inv A(3)[of k'] m' 1 PAdd by (simp add: num_update)
    ultimately show ?thesis
      using inv A m' 1 PAdd num_counted_same[of i ts k p p'] by (simp add: met_inv_def)
  next
    case PDone
    with 1 show ?thesis by simp
  qed
qed

lemma met_inv_init: "met_inv (calls ks, newMetrics)"
proof -
  have "num P (calls ks) = 0" if "\<And>k. \<not> P (k, PStart)" for P
    using that by (induction ks) (simp_all add: calls_def)
  then show ?thesis
    by (auto simp: met_inv_def newMetrics_def good_table_def counter_of_def counted_def calls_def
        holds_pointer_def)
qed

lemma met_steps_inv: "met_step\<^sup>*\<^sup>* s s' \<Longrightarrow> met_inv s \<Longrightarrow> met_inv s'"
proof (induction rule: rtranclp_induct)
  case (step t u)
  then show ?case using met_step_inv by (cases t; cases u) blast
qed simp

lemma met_steps_keys: "met_step\<^sup>*\<^sup>* s s' \<Longrightarrow> map fst (fst s') = map fst (fst s)"
proof (induction rule: rtranclp_induct)
  case (step t u)
  have "met_step t u \<Longrightarrow> map fst (fst u) = map fst (fst t)"
    by (auto elim!: met_step.cases simp: map_update intro!: list_update_same_conv[THEN iffD2])
  with step show ?case by simp
qed simp

lemma all_done_num:
  assumes "all_done ts"
  shows "num (\<lambda>t. t = (k, PDone)) ts = num (\<lambda>k'. k' = k) (map fst ts)"
    "num (counted oc) ts = num (\<lambda>k. KOutcome k = oc) (map fst ts)"
  using assms by (induction ts) (auto simp: all_done_def counted_def)

text \<open>One call that runs alone is the sequential function.\<close>

lemma record_alone: "met_step\<^sup>*\<^sup>* ([(k, PStart)], m) ([(k, PDone)], metrics_record k m)"
proof -
  have st: "met_step ([(k, p)], m) ([(k, p')], m')" if "rec_step k p m = (p', m')" "p \<noteq> PDone" for p p' m m'
    using met_step.intros[of 0 "[(k, p)]" k p m p' m'] that by simp
  have 1: "met_step ([(k, PStart)], m) ([(k, PLookup)], count_total k m)" by (rule st) simp_all
  have add: "met_step ([(k, PAdd a)], m') ([(k, PDone)], add_count a m')" for a m' by (rule st) simp_all
  show ?thesis
  proof (cases "map_of (perRule (count_total k m)) k")
    case None
    obtain a m2 where a: "get_or_insert k (count_total k m) = (a, m2)" by (cases "get_or_insert k (count_total k m)")
    have 2: "met_step ([(k, PLookup)], count_total k m) ([(k, PInsert)], count_total k m)"
      using None by (intro st) simp_all
    have 3: "met_step ([(k, PInsert)], count_total k m) ([(k, PAdd a)], m2)"
      using a by (intro st) simp_all
    have "metrics_record k m = add_count a m2" using None a by (simp add: metrics_record_def)
    then show ?thesis using rtranclp.intros(2)[of met_step, OF rtranclp.intros(2)[of met_step, OF
          rtranclp.intros(2)[of met_step, OF r_into_rtranclp[of met_step, OF 1] 2] 3] add] by simp
  next
    case (Some a)
    have 2: "met_step ([(k, PLookup)], count_total k m) ([(k, PAdd a)], count_total k m)"
      using Some by (intro st) simp_all
    have "metrics_record k m = add_count a (count_total k m)"
      using Some by (simp add: metrics_record_def)
    then show ?thesis using rtranclp.intros(2)[of met_step, OF
          rtranclp.intros(2)[of met_step, OF r_into_rtranclp[of met_step, OF 1] 2] add] by simp
  qed
qed

section \<open>Properties\<close>

text \<open>C18: No increment is lost and none is counted twice. When any number of goroutines record at the
  same time, in any interleaving of their atomic actions, then once all have returned the counter
  of every key is the number of calls with that key, and the three totals are the numbers of calls
  with the three outcomes (modulo 2^64).\<close>

theorem metrics_no_lost_update:
  assumes "met_step\<^sup>*\<^sup>* (calls ks, newMetrics) (ts, m)" "all_done ts"
  shows "counter_of m k = num (\<lambda>k'. k' = k) ks \<and>
    totalAllowed m = num (\<lambda>k. KOutcome k = ''allow'') ks \<and>
    totalDenied m = num (\<lambda>k. KOutcome k = ''deny'') ks \<and>
    totalErrors m = num (\<lambda>k. KOutcome k = ''error'') ks"
proof -
  have "met_inv (ts, m)" by (rule met_steps_inv[OF assms(1) met_inv_init])
  moreover have "map fst ts = ks" using met_steps_keys[OF assms(1)] by (simp add: calls_def comp_def)
  ultimately show ?thesis using all_done_num[OF assms(2)] by (simp add: met_inv_def)
qed

definition sample_key :: ruleKey where
  "sample_key = \<lparr>KRule = ''api/ok'', KOutcome = ''allow'', KDryRun = False\<rparr>"

theorem metrics_no_lost_update_witness:
  "counter_of (metrics_record sample_key newMetrics) sample_key = 1 \<and>
   totalAllowed (metrics_record sample_key newMetrics) = 1"
proof -
  have "met_step\<^sup>*\<^sup>* (calls [sample_key], newMetrics) ([(sample_key, PDone)], metrics_record sample_key newMetrics)"
    using record_alone[of sample_key newMetrics] by (simp add: calls_def)
  moreover have "all_done [(sample_key, PDone)]" by (simp add: all_done_def)
  ultimately show ?thesis
    using metrics_no_lost_update[of "[sample_key]" _ _ sample_key] by (simp add: sample_key_def)
qed

end
