(* ===== verification/Policy_Slot.thy ===== *)
theory Policy_Slot
  imports Main
begin

text \<open>
  The interface both servers offer for the active policy: an atomic pointer that can be loaded and
  swapped. The laws are proved for each server in its own theory.
\<close>

locale policy_slot =
  fixes load :: "'s \<Rightarrow> 'p option"
    and swap :: "'p option \<Rightarrow> 's \<Rightarrow> 'p option \<times> 's"
  assumes load_swap: "load (snd (swap p s)) = p"
    and swap_old: "fst (swap p s) = load s"
begin

fun swaps :: "'p option list \<Rightarrow> 's \<Rightarrow> 'p option list \<times> 's" where
  "swaps [] s = ([], s)"
| "swaps (p # ps) s =
     (let (old, s') = swap p s; (olds, s'') = swaps ps s' in (old # olds, s''))"

lemma swaps_load: "load (snd (swaps ps s)) = last (load s # ps)"
  by (induction ps arbitrary: s) (auto simp: split_beta Let_def load_swap)

text \<open>Every policy that was ever installed is handed out once, in order, except for the last one.\<close>

lemma swaps_olds: "fst (swaps ps s) = butlast (load s # ps)"
  by (induction ps arbitrary: s) (auto simp: split_beta Let_def load_swap swap_old)

lemma swaps_hand_over: "fst (swaps ps s) @ [load (snd (swaps ps s))] = load s # ps"
  by (simp add: swaps_load swaps_olds)

end

end
