(* ===== verification/Httpserver.thy ===== *)
theory Httpserver
  imports Accesslog Metrics Policy_Slot
begin

text \<open>
  \<^verbatim>\<open>internal/httpserver/server.go\<close>: the ext-authz endpoint, with the parts of \<^verbatim>\<open>net/http\<close> it relies on
  (limited reading of a body, the response writer, the routing of the mux). A handler is a sequence
  of actions on the response, the counters and the log; an action may panic, which ends the handler
  with what was done until then.
\<close>

section \<open>Requests and responses of net/http\<close>

text \<open>The body is the data that arrives, and the error that comes instead of its end, if any.\<close>

record http_request =
  HMethod :: string
  HHost :: string
  UrlScheme :: string
  UrlPath :: string
  EscapedPath :: string
  UrlRawQuery :: string
  RemoteAddr :: string
  HHeader :: header
  HBody :: "string \<times> string option"

text \<open>\<^verbatim>\<open>io.ReadAll(io.LimitReader(body, n))\<close>: the error is met only when the limit is not.\<close>

definition read_limited :: "string \<times> string option \<Rightarrow> int \<Rightarrow> string + string" where
  "read_limited body n =
     (if n \<le> int (length (fst body)) then Inr (take (nat n) (fst body))
      else case snd body of None \<Rightarrow> Inr (fst body) | Some err \<Rightarrow> Inl err)"

text \<open>The final status is kept with the headers that went out with it.\<close>

record writer =
  WHeader :: header
  WInfo :: "int list"
  WSent :: "(int \<times> header) option"
  WOut :: string

definition new_writer :: writer where
  "new_writer = \<lparr>WHeader = [], WInfo = [], WSent = None, WOut = []\<rparr>"

text \<open>\<^verbatim>\<open>WriteHeader\<close>: a code outside 100..999 panics, an informational code is sent at once and is not
  the final one, and a second final code is ignored.\<close>

definition WriteHeader :: "int \<Rightarrow> writer \<Rightarrow> writer go" where
  "WriteHeader code w =
     (if WSent w \<noteq> None then Some w
      else if code < 100 \<or> code > 999 then None
      else if code \<le> 199 \<and> code \<noteq> 101 then Some (w\<lparr>WInfo := WInfo w @ [code]\<rparr>)
      else Some (w\<lparr>WSent := Some (code, WHeader w)\<rparr>))"

definition body_allowed :: "int \<Rightarrow> bool" where
  "body_allowed code \<longleftrightarrow> \<not> (100 \<le> code \<and> code \<le> 199) \<and> code \<noteq> 204 \<and> code \<noteq> 304"

definition wsend :: "writer \<Rightarrow> writer" where
  "wsend w = (if WSent w = None then w\<lparr>WSent := Some (200, WHeader w)\<rparr> else w)"

definition write_body :: "string \<Rightarrow> writer \<Rightarrow> writer" where
  "write_body s w =
     (let w' = wsend w
      in case WSent w' of
           Some (code, _) \<Rightarrow> if body_allowed code then w'\<lparr>WOut := WOut w' @ s\<rparr> else w'
         | None \<Rightarrow> w')"

section \<open>Actions\<close>

record hstate =
  hw :: writer
  hmetrics :: metrics
  hlog :: "logrec list"

type_synonym action = "hstate \<Rightarrow> hstate \<times> bool"

text \<open>The flag is False after a panic.\<close>

fun run :: "action list \<Rightarrow> action" where
  "run [] s = (s, True)"
| "run (a # as) s = (case a s of (s', ok) \<Rightarrow> if ok then run as s' else (s', False))"

definition do_panic :: action where
  "do_panic s = (s, False)"

definition set_header :: "string \<Rightarrow> string \<Rightarrow> action" where
  "set_header k v s = (s\<lparr>hw := (hw s)\<lparr>WHeader := HdrSet k v (WHeader (hw s))\<rparr>\<rparr>, True)"

definition write_header :: "int \<Rightarrow> action" where
  "write_header code s =
     (case WriteHeader code (hw s) of None \<Rightarrow> (s, False) | Some w \<Rightarrow> (s\<lparr>hw := w\<rparr>, True))"

definition write_out :: "string \<Rightarrow> action" where
  "write_out b s = (s\<lparr>hw := write_body b (hw s)\<rparr>, True)"

definition rec_metric :: "string \<Rightarrow> string \<Rightarrow> bool \<Rightarrow> action" where
  "rec_metric rule outcome dry s =
     (s\<lparr>hmetrics := metrics_record \<lparr>KRule = rule, KOutcome = outcome, KDryRun = dry\<rparr> (hmetrics s)\<rparr>, True)"

definition log_rec :: "int \<Rightarrow> string \<Rightarrow> attr list go \<Rightarrow> action" where
  "log_rec lvl msg as s =
     (case as of
        None \<Rightarrow> (s, False)
      | Some l \<Rightarrow> (s\<lparr>hlog := hlog s @ [\<lparr>LLevel = lvl, LMsg = msg, LAttrs = l\<rparr>]\<rparr>, True))"

definition http_Error :: "string \<Rightarrow> int \<Rightarrow> action" where
  "http_Error msg code =
     run [set_header ''Content-Type'' ''text/plain; charset=utf-8'',
          set_header ''X-Content-Type-Options'' ''nosniff'',
          write_header code, write_out (msg @ nl)]"

section \<open>The handler\<close>

definition hdrResult :: string where "hdrResult = ''x-rv-result''"
definition hdrRule :: string where "hdrRule = ''x-rv-rule''"
definition hdrReason :: string where "hdrReason = ''x-rv-reason''"
definition hdrDry :: string where "hdrDry = ''x-rv-dry-run''"

definition verdictLabel :: "bool \<Rightarrow> string" where
  "verdictLabel allowed = (if allowed then ''allow'' else ''deny'')"

definition clientIP :: "http_request \<Rightarrow> string" where
  "clientIP r =
     (let xff = HdrGet (HHeader r) ''X-Forwarded-For''; xri = HdrGet (HHeader r) ''X-Real-Ip''
      in if xff \<noteq> [] then
           (case IndexByte xff (CHR '','') of
              Some i \<Rightarrow> if i > 0 then TrimSpace (take i xff) else TrimSpace xff
            | None \<Rightarrow> TrimSpace xff)
         else if xri \<noteq> [] then TrimSpace xri
         else (case SplitHostPort (RemoteAddr r) of Inl _ \<Rightarrow> RemoteAddr r | Inr (host, _) \<Rightarrow> host))"

definition hostOnly :: "string \<Rightarrow> string" where
  "hostOnly h = (case SplitHostPort h of Inr (host, _) \<Rightarrow> host | Inl _ \<Rightarrow> h)"

fun firstNonEmpty :: "string list \<Rightarrow> string" where
  "firstNonEmpty [] = []"
| "firstNonEmpty (v # vs) = (if v \<noteq> [] then v else firstNonEmpty vs)"

definition policy_request :: "http_request \<Rightarrow> string \<Rightarrow> request" where
  "policy_request r body =
     \<lparr>Method = HMethod r,
      Scheme = firstNonEmpty [HdrGet (HHeader r) ''X-Forwarded-Proto'', UrlScheme r, ''http''],
      Host = hostOnly (HHost r), Path = UrlPath r, RawQuery = UrlRawQuery r, RemoteIP = clientIP r,
      Headers = HHeader r, Body = body\<rparr>"

text \<open>One access-log record; the duration is left out.\<close>

definition access_attrs :: "string \<Rightarrow> string \<Rightarrow> string \<Rightarrow> bool \<Rightarrow> request \<Rightarrow> logging \<Rightarrow> attr list go" where
  "access_attrs decision rule reason dry req lg =
     (case RequestAttrs req lg of
        None \<Rightarrow> None
      | Some a \<Rightarrow> Some [AString ''decision'' decision, AString ''rule'' rule, AString ''reason'' reason,
          ABool ''dry_run'' dry, a])"

definition deny_actions :: "('e, 'c) config \<Rightarrow> action list" where
  "deny_actions p =
     [write_header (DenyStatus (ExtAuthz (Defaults p))), write_out (DenyBody (ExtAuthz (Defaults p)))]"

definition read_failed :: "('e, 'c) config \<Rightarrow> string \<Rightarrow> action" where
  "read_failed p err =
     run ([rec_metric ''<read>'' ''error'' (DefDryRun (Defaults p)),
           log_rec LevelError ''read body failed''
             (Some [AString ''err'' err, ABool ''dry_run'' (DefDryRun (Defaults p))]),
           set_header hdrResult ''deny''] @
          (if DefDryRun (Defaults p) then [set_header hdrDry ''true'', write_header 200]
           else set_header hdrDry ''false'' # deny_actions p))"

definition overflowed :: "('e, 'c) config \<Rightarrow> http_request \<Rightarrow> string \<Rightarrow> action" where
  "overflowed p r body =
     (let dry = DefDryRun (Defaults p)
      in run ([set_header hdrRule ''<overflow>'', set_header hdrReason ''request body too large'',
               set_header hdrResult ''deny'', set_header hdrDry (boolStr dry),
               rec_metric ''<overflow>'' ''deny'' dry] @
              (if dry then [write_header 200] else deny_actions p) @
              [log_rec LevelWarn ''request decided''
                 (access_attrs ''deny'' ''<overflow>'' ''request body too large'' dry
                    (policy_request r body) (Logging p))]))"

definition decided :: "('e, 'c) config \<Rightarrow> request \<Rightarrow> decision \<Rightarrow> action" where
  "decided p req d =
     (let dry = (DefDryRun (Defaults p) \<or> DDryRun d); label = verdictLabel (Allowed d)
      in run ([set_header hdrRule (DRule d), set_header hdrReason (Reason d),
               set_header hdrResult label, set_header hdrDry (boolStr dry),
               rec_metric (DRule d) label dry] @
              (if Allowed d \<or> dry then [write_header 200] else deny_actions p) @
              [log_rec (if Allowed d then LevelInfo else LevelWarn) ''request decided''
                 (access_attrs label (DRule d) (Reason d) dry req (Logging p))]))"

definition handle :: "codec \<Rightarrow> ('e, 'c) config option \<Rightarrow> 'c \<Rightarrow> http_request \<Rightarrow> action" where
  "handle cd policy ctx r =
     (case policy of
        None \<Rightarrow> run [rec_metric ''<noconfig>'' ''error'' False, http_Error ''no policy loaded'' 503]
      | Some p \<Rightarrow>
          let limit = AzMaxBodyBytes (ExtAuthz (Defaults p))
          in case read_limited (HBody r) (wrap64 (limit + 1)) of
               Inl err \<Rightarrow> read_failed p err
             | Inr body \<Rightarrow>
                 if int (length body) > limit then
                   (if limit < 0 then do_panic else overflowed p r (take (nat limit) body))
                 else
                   (case Evaluate cd p ctx (policy_request r body) of
                      None \<Rightarrow> do_panic
                    | Some d \<Rightarrow> decided p (policy_request r body) d))"

section \<open>The server\<close>

text \<open>The server holds a pointer to its policy; \<open>'p\<close> is the type of pointers.\<close>

record 'p http_server =
  httpPolicy :: "'p option"
  httpMetrics :: metrics

definition http_New :: "'p \<Rightarrow> 'p http_server" where
  "http_New p = \<lparr>httpPolicy = Some p, httpMetrics = newMetrics\<rparr>"

definition http_SetPolicy ::
    "'p option \<Rightarrow> 'p http_server \<Rightarrow> 'p option \<times> 'p http_server" where
  "http_SetPolicy c s = (httpPolicy s, s\<lparr>httpPolicy := c\<rparr>)"

definition http_Policy :: "'p http_server \<Rightarrow> 'p option" where
  "http_Policy s = httpPolicy s"

interpretation http_slot: policy_slot http_Policy http_SetPolicy
  by unfold_locales (simp_all add: http_Policy_def http_SetPolicy_def)

section \<open>Routing\<close>

text \<open>\<^verbatim>\<open>path.Clean\<close> of a rooted path, element by element.\<close>

fun clean_elems :: "string list \<Rightarrow> string list \<Rightarrow> string list" where
  "clean_elems [] st = st"
| "clean_elems (e # es) st =
     clean_elems es (if e = [] \<or> e = ''.'' then st else if e = ''..'' then butlast st else st @ [e])"

definition cleanPath :: "string \<Rightarrow> string" where
  "cleanPath p =
     (if p = [] then ''/''
      else let q = (if hd p = CHR ''/'' then p else CHR ''/'' # p);
               np = CHR ''/'' # Join (clean_elems (Split q (CHR ''/'')) []) ''/''
           in if last q = CHR ''/'' \<and> np \<noteq> ''/'' then np @ ''/'' else np)"

fun path_unescape :: "string \<Rightarrow> string option" where
  "path_unescape [] = Some []"
| "path_unescape (c # s) =
     (if c = CHR ''%'' then
        (case s of
           a # b # r \<Rightarrow>
             if is_hex a \<and> is_hex b
             then map_option (\<lambda>t. char_of (16 * unhex a + unhex b) # t) (path_unescape r)
             else None
         | _ \<Rightarrow> None)
      else map_option (\<lambda>t. c # t) (path_unescape s))"

datatype route = RouteHealthz | RouteReadyz | RouteMetrics | RouteHandle | RouteRedirect string

text \<open>The literal patterns match one segment, in its decoded form; \<^verbatim>\<open>/\<close> matches everything else.\<close>

definition match_pattern :: "string \<Rightarrow> route" where
  "match_pattern path =
     (case path of
        [] \<Rightarrow> RouteHandle
      | _ # seg \<Rightarrow>
          if CHR ''/'' \<in> set seg then RouteHandle
          else let s = (case path_unescape seg of None \<Rightarrow> seg | Some t \<Rightarrow> t)
               in if s = ''healthz'' then RouteHealthz
                  else if s = ''readyz'' then RouteReadyz
                  else if s = ''metrics'' then RouteMetrics
                  else RouteHandle)"

definition mux_route :: "http_request \<Rightarrow> route" where
  "mux_route r =
     (if HMethod r = ''CONNECT'' then match_pattern (EscapedPath r)
      else let p = cleanPath (EscapedPath r)
           in if p \<noteq> EscapedPath r then RouteRedirect p else match_pattern p)"

text \<open>Of a redirection to the cleaned path only the status is kept.\<close>

definition serve :: "codec \<Rightarrow> ('e, 'c) config option \<Rightarrow> 'c \<Rightarrow> http_request \<Rightarrow> action" where
  "serve cd policy ctx r =
     (case mux_route r of
        RouteHealthz \<Rightarrow> write_header 200
      | RouteReadyz \<Rightarrow>
          (if policy = None then http_Error ''no policy'' 503 else write_header 200)
      | RouteMetrics \<Rightarrow>
          (\<lambda>s. run [set_header ''Content-Type'' ''text/plain; version=0.0.4'',
                    write_out (metrics_handler (hmetrics s))] s)
      | RouteHandle \<Rightarrow> handle cd policy ctx r
      | RouteRedirect p \<Rightarrow> write_header 301)"

text \<open>What the client gets when the handler has returned.\<close>

definition final_status :: "hstate \<Rightarrow> int" where
  "final_status s = (case WSent (wsend (hw s)) of Some (code, _) \<Rightarrow> code | None \<Rightarrow> 200)"

definition sent_header :: "hstate \<Rightarrow> string \<Rightarrow> string" where
  "sent_header s k = (case WSent (wsend (hw s)) of Some (_, h) \<Rightarrow> HdrGet h k | None \<Rightarrow> [])"

definition start_state :: "metrics \<Rightarrow> logrec list \<Rightarrow> hstate" where
  "start_state m l = \<lparr>hw = new_writer, hmetrics = m, hlog = l\<rparr>"

section \<open>Running the handlers\<close>

text \<open>The ranges in which the numbers of a configuration are usable; the validation does not check
  them.\<close>

definition sane_config :: "('e, 'c) config \<Rightarrow> bool" where
  "sane_config p \<longleftrightarrow>
     0 \<le> AzMaxBodyBytes (ExtAuthz (Defaults p)) \<and> AzMaxBodyBytes (ExtAuthz (Defaults p)) < 2 ^ 63 - 1 \<and>
     200 \<le> DenyStatus (ExtAuthz (Defaults p)) \<and> DenyStatus (ExtAuthz (Defaults p)) \<le> 999 \<and>
     - (2 ^ 62) \<le> RedactReveal (Logging p) \<and> RedactReveal (Logging p) < 2 ^ 62"

lemmas action_defs = set_header_def write_header_def write_out_def rec_metric_def log_rec_def
  WriteHeader_def write_body_def wsend_def start_state_def new_writer_def

lemma canon_rv [simp]:
  "CanonicalHeaderKey hdrResult = ''X-Rv-Result''" "CanonicalHeaderKey hdrRule = ''X-Rv-Rule''"
  "CanonicalHeaderKey hdrReason = ''X-Rv-Reason''" "CanonicalHeaderKey hdrDry = ''X-Rv-Dry-Run''"
  by code_simp+

lemma RequestAttrs_sane:
  assumes "sane_config p"
  shows "\<exists>a. RequestAttrs req (Logging p) = Some a"
proof -
  obtain hdrs where "header_attrs (lowerSet (ExcludeHeaders (Logging p))) (lowerSet (RedactHeaders (Logging p)))
      (RedactReveal (Logging p)) (Headers req) = Some hdrs"
    using header_attrs_spec assms unfolding sane_config_def by blast
  then show ?thesis by (simp add: RequestAttrs_def)
qed

text \<open>The status a verdict leads to.\<close>

definition verdict_status :: "('e, 'c) config \<Rightarrow> bool \<Rightarrow> int" where
  "verdict_status p pass = (if pass then 200 else DenyStatus (ExtAuthz (Defaults p)))"

text \<open>What a handler leaves behind: a status, one count, one log record, and the diagnostic headers.\<close>

definition answered ::
    "hstate \<times> bool \<Rightarrow> metrics \<Rightarrow> logrec list \<Rightarrow> int \<Rightarrow> string \<Rightarrow> string \<Rightarrow> bool \<Rightarrow> int \<Rightarrow> bool" where
  "answered res m l status rule label dry lvl \<longleftrightarrow>
     (case res of (s, ok) \<Rightarrow> ok \<and> final_status s = status \<and>
        hmetrics s = metrics_record \<lparr>KRule = rule, KOutcome = label, KDryRun = dry\<rparr> m \<and>
        (\<exists>rec. hlog s = l @ [rec] \<and> LLevel rec = lvl) \<and>
        sent_header s hdrResult = (if label = ''allow'' then ''allow'' else ''deny'') \<and>
        sent_header s hdrDry = boolStr dry)"

lemma decided_answers:
  assumes "sane_config p"
  shows "answered (decided p req d (start_state m l)) m l
      (verdict_status p (Allowed d \<or> DefDryRun (Defaults p) \<or> DDryRun d))
      (DRule d) (verdictLabel (Allowed d)) (DefDryRun (Defaults p) \<or> DDryRun d)
      (if Allowed d then LevelInfo else LevelWarn)"
    "sent_header (fst (decided p req d (start_state m l))) hdrRule = DRule d"
    "sent_header (fst (decided p req d (start_state m l))) hdrReason = Reason d"
proof -
  obtain a where a: "RequestAttrs req (Logging p) = Some a" using RequestAttrs_sane[OF assms] by blast
  have st: "200 \<le> DenyStatus (ExtAuthz (Defaults p))" "DenyStatus (ExtAuthz (Defaults p)) \<le> 999"
    using assms by (auto simp: sane_config_def)
  note defs = decided_def deny_actions_def Let_def action_defs access_attrs_def a final_status_def
    sent_header_def verdict_status_def verdictLabel_def hdr.get_set
  show "answered (decided p req d (start_state m l)) m l
      (verdict_status p (Allowed d \<or> DefDryRun (Defaults p) \<or> DDryRun d))
      (DRule d) (verdictLabel (Allowed d)) (DefDryRun (Defaults p) \<or> DDryRun d)
      (if Allowed d then LevelInfo else LevelWarn)"
    using st by (cases "Allowed d \<or> DefDryRun (Defaults p) \<or> DDryRun d") (auto simp: defs answered_def)
  show "sent_header (fst (decided p req d (start_state m l))) hdrRule = DRule d"
    "sent_header (fst (decided p req d (start_state m l))) hdrReason = Reason d"
    using st by (cases "Allowed d \<or> DefDryRun (Defaults p) \<or> DDryRun d"; auto simp: defs)+
qed

lemma overflowed_answers:
  assumes "sane_config p"
  shows "answered (overflowed p r body (start_state m l)) m l
      (verdict_status p (DefDryRun (Defaults p))) ''<overflow>'' ''deny'' (DefDryRun (Defaults p)) LevelWarn"
proof -
  obtain a where a: "RequestAttrs (policy_request r body) (Logging p) = Some a"
    using RequestAttrs_sane[OF assms] by blast
  have st: "200 \<le> DenyStatus (ExtAuthz (Defaults p))" "DenyStatus (ExtAuthz (Defaults p)) \<le> 999"
    using assms by (auto simp: sane_config_def)
  show ?thesis
    using st by (cases "DefDryRun (Defaults p)")
      (auto simp: overflowed_def deny_actions_def Let_def action_defs access_attrs_def a answered_def
        final_status_def sent_header_def verdict_status_def hdr.get_set)
qed

lemma read_failed_answers:
  assumes "sane_config p"
  shows "answered (read_failed p err (start_state m l)) m l
      (verdict_status p (DefDryRun (Defaults p))) ''<read>'' ''error'' (DefDryRun (Defaults p)) LevelError"
proof -
  have st: "200 \<le> DenyStatus (ExtAuthz (Defaults p))" "DenyStatus (ExtAuthz (Defaults p)) \<le> 999"
    using assms by (auto simp: sane_config_def)
  then show ?thesis
    by (cases "DefDryRun (Defaults p)")
      (auto simp: read_failed_def deny_actions_def Let_def action_defs answered_def
        final_status_def sent_header_def verdict_status_def hdr.get_set boolStr_def)
qed

text \<open>Within the limit, the body that is evaluated is the body that was sent.\<close>

lemma read_limited_cases:
  assumes "0 \<le> limit" "limit < 2 ^ 63 - 1"
  shows "read_limited (b, e) (wrap64 (limit + 1)) =
    (if int (length b) > limit then Inr (take (nat (limit + 1)) b)
     else case e of None \<Rightarrow> Inr b | Some err \<Rightarrow> Inl err)"
proof -
  have "wrap64 (limit + 1) = limit + 1" using assms by (intro wrap64_id) (simp add: int64_def)
  then show ?thesis by (auto simp: read_limited_def split: option.split)
qed

lemma handle_cases:
  assumes "sane_config p" "HBody r = (b, e)"
  shows "handle cd (Some p) ctx r =
    (if int (length b) > AzMaxBodyBytes (ExtAuthz (Defaults p))
     then overflowed p r (take (nat (AzMaxBodyBytes (ExtAuthz (Defaults p)))) b)
     else case e of
       Some err \<Rightarrow> read_failed p err
     | None \<Rightarrow> (case Evaluate cd p ctx (policy_request r b) of
                 None \<Rightarrow> do_panic | Some d \<Rightarrow> decided p (policy_request r b) d))"
proof -
  let ?limit = "AzMaxBodyBytes (ExtAuthz (Defaults p))"
  have l: "0 \<le> ?limit" "?limit < 2 ^ 63 - 1" using assms(1) by (simp_all add: sane_config_def)
  have t: "int (length b) > ?limit \<Longrightarrow> int (length (take (nat (?limit + 1)) b)) > ?limit \<and>
      take (nat ?limit) (take (nat (?limit + 1)) b) = take (nat ?limit) b"
    using l by auto
  show ?thesis
  proof (cases "int (length b) > ?limit")
    case True
    with t l show ?thesis
      by (simp add: handle_def Let_def assms(2) read_limited_cases[OF l])
  next
    case False
    with l show ?thesis
      by (cases e) (simp_all add: handle_def Let_def assms(2) read_limited_cases[OF l])
  qed
qed

definition sample_http :: http_request where
  "sample_http = \<lparr>HMethod = ''POST'', HHost = ''a.example:443'', UrlScheme = [], UrlPath = ''/v1'',
     EscapedPath = ''/v1'', UrlRawQuery = [], RemoteAddr = ''10.0.0.1:5'', HHeader = [], HBody = (''{}'', None)\<rparr>"

lemma sample_sane: "sane_config sample_policy"
  by (simp add: sane_config_def sample_policy_settings sample_defaults_def sample_logging_def)

section \<open>Properties\<close>

text \<open>C16: The contract of the ext-authz endpoint. With a loaded policy whose numbers are in range, a
  request whose body arrives and fits is decided by the policy on the whole body: the handler does
  not panic, answers 200 when the verdict is allow or enforcement is off (for the rule or
  globally) and the deny status otherwise, reports verdict, rule, reason and dry run in the
  diagnostic headers, counts the decision once and logs it once, as a warning when it is a deny.\<close>

theorem http_decision_contract:
  assumes "LoadBytes lib yaml bs = Inr c" "p = c\<lparr>cregistry := reg\<rparr>" "sane_config p"
    "HBody r = (b, None)" "int (length b) \<le> AzMaxBodyBytes (ExtAuthz (Defaults p))"
  shows "\<exists>d. Evaluate cd p ctx (policy_request r b) = Some d \<and>
    answered (handle cd (Some p) ctx r (start_state m l)) m l
      (verdict_status p (Allowed d \<or> DefDryRun (Defaults p) \<or> DDryRun d))
      (DRule d) (verdictLabel (Allowed d)) (DefDryRun (Defaults p) \<or> DDryRun d)
      (if Allowed d then LevelInfo else LevelWarn) \<and>
    sent_header (fst (handle cd (Some p) ctx r (start_state m l))) hdrRule = DRule d \<and>
    sent_header (fst (handle cd (Some p) ctx r (start_state m l))) hdrReason = Reason d"
proof -
  obtain d where d: "Evaluate cd p ctx (policy_request r b) = Some d"
    using Evaluate_spec[of lib p] LoadBytes_runnable[OF assms(1)] assms(2) by simp
  then have "handle cd (Some p) ctx r = decided p (policy_request r b) d"
    using assms(5) by (simp add: handle_cases[OF assms(3,4)])
  with d decided_answers[OF assms(3)] show ?thesis by simp
qed

theorem http_decision_contract_witness:
  "\<exists>d. Evaluate sample_codec sample_policy () (policy_request sample_http ''{}'') = Some d \<and>
     sent_header (fst (handle sample_codec (Some sample_policy) () sample_http (start_state newMetrics [])))
       hdrRule = DRule d"
proof -
  have p: "sample_policy = sample_policy\<lparr>cregistry := cregistry sample_policy\<rparr>" by simp
  have b: "HBody sample_http = (''{}'', None)"
    "int (length ''{}'') \<le> AzMaxBodyBytes (ExtAuthz (Defaults sample_policy))"
    by (simp_all add: sample_http_def sample_policy_settings sample_defaults_def)
  show ?thesis
    using http_decision_contract[OF sample_policy_loads p sample_sane b, of sample_codec "()" newMetrics "[]"]
    by blast
qed

lemma handle_fails_closed:
  assumes "runnable lib p" "sane_config p"
    "DenyStatus (ExtAuthz (Defaults p)) \<noteq> 200" "\<not> DefDryRun (Defaults p)"
  shows "\<exists>s. handle cd (Some p) ctx r (start_state m l) = (s, True) \<and>
    (final_status s = 200 \<longleftrightarrow>
       snd (HBody r) = None \<and> int (length (fst (HBody r))) \<le> AzMaxBodyBytes (ExtAuthz (Defaults p)) \<and>
       (\<exists>d. Evaluate cd p ctx (policy_request r (fst (HBody r))) = Some d \<and> (Allowed d \<or> DDryRun d)))"
proof -
  obtain b e where b: "HBody r = (b, e)" by (cases "HBody r")
  obtain d where d: "Evaluate cd p ctx (policy_request r b) = Some d"
    using Evaluate_spec[of lib p] assms(1) by simp
  note H = handle_cases[OF assms(2) b, of cd ctx]
  consider "int (length b) > AzMaxBodyBytes (ExtAuthz (Defaults p))"
    | err where "int (length b) \<le> AzMaxBodyBytes (ExtAuthz (Defaults p))" "e = Some err"
    | "int (length b) \<le> AzMaxBodyBytes (ExtAuthz (Defaults p))" "e = None"
    by (cases e) force+
  then show ?thesis
  proof cases
    case 1
    with overflowed_answers[OF assms(2), of r "take (nat (AzMaxBodyBytes (ExtAuthz (Defaults p)))) b" m l]
      assms(3,4) b H show ?thesis
      by (auto simp: answered_def verdict_status_def split: prod.splits)
  next
    case 2
    with read_failed_answers[OF assms(2), of err m l] assms(3,4) b H show ?thesis
      by (auto simp: answered_def verdict_status_def split: prod.splits)
  next
    case 3
    with decided_answers(1)[OF assms(2), of "policy_request r b" d m l] assms(3,4) b d H show ?thesis
      by (auto simp: answered_def verdict_status_def split: prod.splits if_splits)
  qed
qed

text \<open>The same for the whole multiplexer: the three operational paths answer 200 without a look at the policy, a path that
  is not clean is redirected, and every other request is decided.\<close>

lemma serve_fails_closed:
  assumes "runnable lib p" "sane_config p"
    "DenyStatus (ExtAuthz (Defaults p)) \<noteq> 200" "\<not> DefDryRun (Defaults p)"
  shows "\<exists>s. serve cd (Some p) ctx r (start_state m l) = (s, True) \<and>
    (final_status s = 200 \<longleftrightarrow> mux_route r \<in> {RouteHealthz, RouteReadyz, RouteMetrics} \<or>
       mux_route r = RouteHandle \<and>
       snd (HBody r) = None \<and> int (length (fst (HBody r))) \<le> AzMaxBodyBytes (ExtAuthz (Defaults p)) \<and>
       (\<exists>d. Evaluate cd p ctx (policy_request r (fst (HBody r))) = Some d \<and> (Allowed d \<or> DDryRun d)))"
proof (cases "mux_route r")
  case RouteHandle
  with handle_fails_closed[OF assms, of cd ctx r m l] show ?thesis by (simp add: serve_def)
qed (auto simp: serve_def action_defs final_status_def body_allowed_def)

text \<open>C2: Failing closed at the endpoint. With a loaded policy whose numbers are in range and whose
  deny status is not 200, and enforcement on, the handler never panics, and it answers 200 only
  when the whole body arrived within the limit and the policy allowed the request, or when the
  deciding rule is a dry run.\<close>

theorem http_allows_only_decided:
  assumes "LoadBytes lib yaml bs = Inr c" "p = c\<lparr>cregistry := reg\<rparr>" "sane_config p"
    "DenyStatus (ExtAuthz (Defaults p)) \<noteq> 200" "\<not> DefDryRun (Defaults p)"
  shows "\<exists>s. handle cd (Some p) ctx r (start_state m l) = (s, True) \<and>
    (final_status s = 200 \<longleftrightarrow>
       snd (HBody r) = None \<and> int (length (fst (HBody r))) \<le> AzMaxBodyBytes (ExtAuthz (Defaults p)) \<and>
       (\<exists>d. Evaluate cd p ctx (policy_request r (fst (HBody r))) = Some d \<and> (Allowed d \<or> DDryRun d)))"
proof -
  have "runnable lib p" using LoadBytes_runnable[OF assms(1)] assms(2) by simp
  then show ?thesis using assms(3-5) by (rule handle_fails_closed)
qed

theorem http_allows_only_decided_witness:
  "\<exists>s. handle sample_codec (Some sample_policy) () (sample_http\<lparr>HBody := (''{}'', Some ''reset'')\<rparr>)
       (start_state newMetrics []) = (s, True) \<and> final_status s \<noteq> 200"
proof -
  have p: "sample_policy = sample_policy\<lparr>cregistry := cregistry sample_policy\<rparr>" by simp
  have d: "DenyStatus (ExtAuthz (Defaults sample_policy)) \<noteq> 200" "\<not> DefDryRun (Defaults sample_policy)"
    by (simp_all add: sample_policy_settings sample_defaults_def)
  show ?thesis
    using http_allows_only_decided[OF sample_policy_loads p sample_sane d, of sample_codec "()"
        "sample_http\<lparr>HBody := (''{}'', Some ''reset'')\<rparr>" newMetrics "[]"]
    by auto
qed

text \<open>Limits out of range. With a negative limit every request whose handler gets a body, even an
  empty one, panics at the slice; with the largest limit the addition wraps around and the policy
  is evaluated on an empty body, whatever was sent.\<close>

theorem body_limit_out_of_range:
  "(AzMaxBodyBytes (ExtAuthz (Defaults p)) < 0 \<and> int64 (AzMaxBodyBytes (ExtAuthz (Defaults p))) \<longrightarrow>
      handle cd (Some p) ctx r s = (s, False)) \<and>
   (AzMaxBodyBytes (ExtAuthz (Defaults p)) = 2 ^ 63 - 1 \<longrightarrow>
      handle cd (Some p) ctx r s =
        (case Evaluate cd p ctx (policy_request r []) of
           None \<Rightarrow> do_panic s | Some d \<Rightarrow> decided p (policy_request r []) d s))"
proof (intro conjI impI)
  assume l: "AzMaxBodyBytes (ExtAuthz (Defaults p)) < 0 \<and> int64 (AzMaxBodyBytes (ExtAuthz (Defaults p)))"
  then have "wrap64 (AzMaxBodyBytes (ExtAuthz (Defaults p)) + 1) = AzMaxBodyBytes (ExtAuthz (Defaults p)) + 1"
    by (intro wrap64_id) (simp add: int64_def)
  with l show "handle cd (Some p) ctx r s = (s, False)"
    by (simp add: handle_def Let_def read_limited_def do_panic_def)
next
  assume l: "AzMaxBodyBytes (ExtAuthz (Defaults p)) = 2 ^ 63 - 1"
  have "wrap64 (2 ^ 63) = - (2 ^ 63)" by (simp add: wrap64_over)
  with l show "handle cd (Some p) ctx r s =
      (case Evaluate cd p ctx (policy_request r []) of
         None \<Rightarrow> do_panic s | Some d \<Rightarrow> decided p (policy_request r []) d s)"
    by (simp add: handle_def Let_def read_limited_def split: option.split)
qed

theorem body_limit_out_of_range_witness:
  "\<exists>p :: (nat, unit) config. AzMaxBodyBytes (ExtAuthz (Defaults p)) = -1 \<and>
     handle sample_codec (Some p) () sample_http (start_state newMetrics []) = (start_state newMetrics [], False)"
proof -
  let ?p = "sample_config\<lparr>Defaults := sample_defaults\<lparr>ExtAuthz := (ExtAuthz sample_defaults)\<lparr>AzMaxBodyBytes := -1\<rparr>\<rparr>\<rparr>"
  have l: "AzMaxBodyBytes (ExtAuthz (Defaults ?p)) = -1" by simp
  show ?thesis
    using body_limit_out_of_range[of ?p sample_codec "()" sample_http "start_state newMetrics []"] l
    by (intro exI[of _ ?p]) (simp add: int64_def)
qed

text \<open>The health and metrics endpoints share the path space of the requests to be checked: a
  request for one of their paths is answered with 200 whatever the policy says, without a count
  or an access-log record.\<close>

theorem probe_paths_bypass_policy:
  assumes "EscapedPath r \<in> {''/healthz'', ''/metrics''} \<or>
    EscapedPath r = ''/readyz'' \<and> policy \<noteq> None"
  shows "\<exists>s. serve cd policy ctx r (start_state m l) = (s, True) \<and> final_status s = 200 \<and>
    hmetrics s = m \<and> hlog s = l"
proof -
  have "cleanPath ''/healthz'' = ''/healthz''" "cleanPath ''/metrics'' = ''/metrics''"
    "cleanPath ''/readyz'' = ''/readyz''"
    "match_pattern ''/healthz'' = RouteHealthz" "match_pattern ''/metrics'' = RouteMetrics"
    "match_pattern ''/readyz'' = RouteReadyz"
    by code_simp+
  with assms show ?thesis
    by (auto simp: serve_def mux_route_def Let_def action_defs final_status_def body_allowed_def)
qed

theorem probe_paths_bypass_policy_witness:
  "\<exists>s. serve sample_codec (Some sample_policy) () (sample_http\<lparr>EscapedPath := ''/healthz''\<rparr>)
       (start_state newMetrics []) = (s, True) \<and> final_status s = 200 \<and> hmetrics s = newMetrics"
  using probe_paths_bypass_policy[of "sample_http\<lparr>EscapedPath := ''/healthz''\<rparr>" "Some sample_policy"
      sample_codec "()" newMetrics "[]"] by auto

end
