(* ===== verification/Extproc.thy ===== *)
theory Extproc
  imports Policy_Eval
begin

text \<open>
  \<^verbatim>\<open>internal/policy/extproc.go\<close>: the evaluation of the ext-proc groups of one phase to a list of
  resolved mutations.
\<close>

section \<open>The evaluator\<close>

record resolvedMutation =
  MutOp :: string
  MutName :: string
  MutValue :: string
  MutStatus :: int
  RespStatus :: int
  RespHeaders :: "(string \<times> string) list"
  RespBody :: string
  MutRule :: string
  MutDryRun :: bool

text \<open>The zero value with the fields every branch sets.\<close>

definition resolved_zero :: "string \<Rightarrow> string \<Rightarrow> bool \<Rightarrow> resolvedMutation" where
  "resolved_zero op rule dry =
     \<lparr>MutOp = op, MutName = [], MutValue = [], MutStatus = 0, RespStatus = 0, RespHeaders = [],
      RespBody = [], MutRule = rule, MutDryRun = dry\<rparr>"

text \<open>One turn of the loop of \<^verbatim>\<open>resolveMutations\<close>: what the mutation contributes to the list.\<close>

definition resolve_mutation ::
    "'c \<Rightarrow> vars \<Rightarrow> string \<Rightarrow> bool \<Rightarrow> 'c mutation \<Rightarrow> resolvedMutation list go" where
  "resolve_mutation ctx vs ruleName dry m =
     (if Op m = ''directResponse'' then
        (case EvalStringMap ctx (headersProg m) vs of
           None \<Rightarrow> None
         | Some (Inl _) \<Rightarrow> Some []
         | Some (Inr hdrs) \<Rightarrow>
             (case EvalString ctx (bodyProg m) vs of
                None \<Rightarrow> None
              | Some (Inl _) \<Rightarrow> Some []
              | Some (Inr body) \<Rightarrow>
                  Some [(resolved_zero (Op m) ruleName dry)
                    \<lparr>RespStatus := MStatus m, RespHeaders := hdrs, RespBody := body\<rparr>]))
      else if Op m = ''setHeader'' \<or> Op m = ''appendHeader'' then
        (case EvalString ctx (valueProg m) vs of
           None \<Rightarrow> None
         | Some (Inl _) \<Rightarrow> Some []
         | Some (Inr val) \<Rightarrow>
             Some [(resolved_zero (Op m) ruleName dry)\<lparr>MutName := MName m, MutValue := val\<rparr>])
      else if Op m = ''setBody'' then
        (case EvalString ctx (valueProg m) vs of
           None \<Rightarrow> None
         | Some (Inl _) \<Rightarrow> Some []
         | Some (Inr val) \<Rightarrow> Some [(resolved_zero (Op m) ruleName dry)\<lparr>MutValue := val\<rparr>])
      else if Op m = ''setStatus'' then
        (case EvalInt ctx (codeProg m) vs of
           None \<Rightarrow> None
         | Some (Inl _) \<Rightarrow> Some []
         | Some (Inr code) \<Rightarrow> Some [(resolved_zero (Op m) ruleName dry)\<lparr>MutStatus := code\<rparr>])
      else if Op m = ''removeHeader'' then
        Some [(resolved_zero (Op m) ruleName dry)\<lparr>MutName := MName m\<rparr>]
      else Some [])"

text \<open>Concatenation of what each turn of a loop appends; a panic ends it.\<close>

fun concat_go :: "('a \<Rightarrow> 'b list go) \<Rightarrow> 'a list \<Rightarrow> 'b list go" where
  "concat_go f [] = Some []"
| "concat_go f (x # xs) =
     (case f x of
        None \<Rightarrow> None
      | Some ys \<Rightarrow> (case concat_go f xs of None \<Rightarrow> None | Some zs \<Rightarrow> Some (ys @ zs)))"

definition resolveMutations ::
    "'c \<Rightarrow> 'c group \<Rightarrow> 'c rule \<Rightarrow> vars \<Rightarrow> resolvedMutation list go" where
  "resolveMutations ctx g r vs =
     concat_go (resolve_mutation ctx vs (GName g @ ''/'' @ RName r) (RDryRun r)) (Mutations r)"

fun first_rule :: "'c \<Rightarrow> 'c group \<Rightarrow> vars \<Rightarrow> 'c rule list \<Rightarrow> resolvedMutation list go" where
  "first_rule ctx g vs [] = Some []"
| "first_rule ctx g vs (r # rs) =
     (case Eval ctx (rmatchProg r) vs of
        None \<Rightarrow> None
      | Some (Inl _) \<Rightarrow> first_rule ctx g vs rs
      | Some (Inr ok) \<Rightarrow> if ok then resolveMutations ctx g r vs else first_rule ctx g vs rs)"

definition apply_rule :: "'c \<Rightarrow> 'c group \<Rightarrow> vars \<Rightarrow> 'c rule \<Rightarrow> resolvedMutation list go" where
  "apply_rule ctx g vs r =
     (case Eval ctx (rmatchProg r) vs of
        None \<Rightarrow> None
      | Some (Inl _) \<Rightarrow> Some []
      | Some (Inr ok) \<Rightarrow> if ok then resolveMutations ctx g r vs else Some [])"

definition proc_rules :: "'c \<Rightarrow> vars \<Rightarrow> 'c group \<Rightarrow> resolvedMutation list go" where
  "proc_rules ctx vs g =
     (if Mode (Parameters g) = ''firstMatch'' then first_rule ctx g vs (Rules g)
      else if Mode (Parameters g) = ''applyAll'' then concat_go (apply_rule ctx g vs) (Rules g)
      else Some [])"

definition proc_group :: "'c \<Rightarrow> string \<Rightarrow> vars \<Rightarrow> 'c group \<Rightarrow> resolvedMutation list go" where
  "proc_group ctx phase vs g =
     (if Engine (Parameters g) \<noteq> ''extProc'' \<or> Phase (Parameters g) \<noteq> phase then Some []
      else if gmatchProg g \<noteq> None then
        (case Eval ctx (gmatchProg g) vs of
           None \<Rightarrow> None
         | Some (Inl _) \<Rightarrow> Some []
         | Some (Inr ok) \<Rightarrow> if \<not> ok then Some [] else proc_rules ctx vs g)
      else proc_rules ctx vs g)"

definition proc_vars ::
    "codec \<Rightarrow> ('e, 'c) config \<Rightarrow> string \<Rightarrow> request \<Rightarrow> response option \<Rightarrow> vars" where
  "proc_vars cd c phase req resp =
     [(''request'', GMapSA (buildRequestVar cd req)), (''facts'', GMapSA (snapshot c))] @
     (if (phase = ''responseHeaders'' \<or> phase = ''responseBody'') \<and> resp \<noteq> None
      then [(''response'', GMapSA (buildResponseVar cd resp))] else [])"

definition EvaluateProc ::
    "codec \<Rightarrow> ('e, 'c) config \<Rightarrow> 'c \<Rightarrow> string \<Rightarrow> request option \<Rightarrow> response option \<Rightarrow>
     resolvedMutation list go" where
  "EvaluateProc cd c ctx phase req resp =
     (case req of
        None \<Rightarrow> Some []
      | Some r \<Rightarrow> concat_go (proc_group ctx phase (proc_vars cd c phase r resp)) (Groups c))"

section \<open>Specification\<close>

text \<open>The mutations of a rule that resolve, the rules that fire and the groups that take part.\<close>

definition resolved :: "'c \<Rightarrow> vars \<Rightarrow> 'c group \<Rightarrow> 'c rule \<Rightarrow> resolvedMutation list" where
  "resolved ctx vs g r =
     concat (map (\<lambda>m. case resolve_mutation ctx vs (rule_path g r) (RDryRun r) m of
                        None \<Rightarrow> [] | Some xs \<Rightarrow> xs) (Mutations r))"

definition fires :: "'c \<Rightarrow> vars \<Rightarrow> 'c rule \<Rightarrow> bool" where
  "fires ctx vs r \<longleftrightarrow> outcome_of ctx vs (rmatchProg r) = Holds"

definition fired :: "'c \<Rightarrow> vars \<Rightarrow> 'c group \<Rightarrow> 'c rule list" where
  "fired ctx vs g =
     (if Mode (Parameters g) = ''firstMatch'' then take 1 (filter (fires ctx vs) (Rules g))
      else filter (fires ctx vs) (Rules g))"

definition proc_groups :: "('e, 'c) config \<Rightarrow> 'c \<Rightarrow> string \<Rightarrow> vars \<Rightarrow> 'c group list" where
  "proc_groups c ctx phase vs =
     filter (\<lambda>g. Engine (Parameters g) = ''extProc'' \<and> Phase (Parameters g) = phase \<and>
                 gate ctx vs g = Holds) (Groups c)"

definition spec_mutations :: "('e, 'c) config \<Rightarrow> 'c \<Rightarrow> string \<Rightarrow> vars \<Rightarrow> resolvedMutation list" where
  "spec_mutations c ctx phase vs =
     concat (map (\<lambda>g. concat (map (resolved ctx vs g) (fired ctx vs g))) (proc_groups c ctx phase vs))"

section \<open>Refinement\<close>

lemma concat_go_total:
  assumes "\<And>x. x \<in> set xs \<Longrightarrow> f x = Some (h x)"
  shows "concat_go f xs = Some (concat (map h xs))"
  using assms by (induction xs) auto

lemma resolve_mutation_total:
  assumes "runnable lib c" "g \<in> set (Groups c)" "r \<in> set (Rules g)" "m \<in> set (Mutations r)"
  shows "resolve_mutation ctx vs n dry m \<noteq> None"
proof -
  note R = runnable_mutation[OF assms]
  consider (direct) "Op m = ''directResponse''"
    | (val) "Op m \<in> {''setHeader'', ''appendHeader'', ''setBody''}"
    | (status) "Op m = ''setStatus''"
    | (other) "Op m \<notin> {''directResponse'', ''setHeader'', ''appendHeader'', ''setBody'', ''setStatus''}"
    by auto
  then show ?thesis
  proof cases
    case direct
    with R(1) obtain h b where "headersProg m = Some h" "bodyProg m = Some b" by auto
    with direct show ?thesis by (auto simp: resolve_mutation_def split: option.split sum.split)
  next
    case val
    with R(2) obtain v where "valueProg m = Some v" by auto
    with val show ?thesis by (auto simp: resolve_mutation_def split: option.split sum.split)
  next
    case status
    with R(3) obtain v where "codeProg m = Some v" by auto
    with status show ?thesis by (auto simp: resolve_mutation_def split: option.split sum.split)
  qed (simp add: resolve_mutation_def)
qed

lemma resolveMutations_spec:
  assumes "runnable lib c" "g \<in> set (Groups c)" "r \<in> set (Rules g)"
  shows "resolveMutations ctx g r vs = Some (resolved ctx vs g r)"
  unfolding resolveMutations_def resolved_def rule_path_def
  by (rule concat_go_total) (use resolve_mutation_total[OF assms] in \<open>auto split: option.split\<close>)

lemma apply_rule_spec:
  assumes "runnable lib c" "g \<in> set (Groups c)" "r \<in> set (Rules g)"
  shows "apply_rule ctx g vs r = Some (if fires ctx vs r then resolved ctx vs g r else [])"
proof -
  obtain p where "rmatchProg r = Some p" using runnable_rule[OF assms] by auto
  then show ?thesis
    by (cases "outcome_of ctx vs (Some p)")
       (auto simp: apply_rule_def Eval_outcome fires_def resolveMutations_spec[OF assms])
qed

lemma first_rule_spec:
  assumes "runnable lib c" "g \<in> set (Groups c)" "set rs \<subseteq> set (Rules g)"
  shows "first_rule ctx g vs rs = Some (concat (map (resolved ctx vs g) (take 1 (filter (fires ctx vs) rs))))"
  using assms(3)
proof (induction rs)
  case (Cons r rs)
  then have r: "r \<in> set (Rules g)" by simp
  obtain p where p: "rmatchProg r = Some p" using runnable_rule[OF assms(1,2) r] by auto
  with Cons show ?case
    by (cases "outcome_of ctx vs (Some p)")
       (auto simp: Eval_outcome fires_def resolveMutations_spec[OF assms(1,2) r])
qed simp

lemma concat_map_filter: "concat (map (\<lambda>x. if P x then f x else []) xs) = concat (map f (filter P xs))"
  by (induction xs) auto

lemma proc_rules_spec:
  assumes "runnable lib c" "g \<in> set (Groups c)" "Engine (Parameters g) = ''extProc''"
  shows "proc_rules ctx vs g = Some (concat (map (resolved ctx vs g) (fired ctx vs g)))"
proof -
  have m: "Mode (Parameters g) \<in> {''firstMatch'', ''applyAll''}"
    using runnableD(1)[OF assms(1,2)] assms(3) by (auto simp: valid_group_def valid_parameters_def)
  have "concat_go (apply_rule ctx g vs) (Rules g) =
      Some (concat (map (resolved ctx vs g) (filter (fires ctx vs) (Rules g))))"
    using concat_go_total[of "Rules g" "apply_rule ctx g vs"
        "\<lambda>r. if fires ctx vs r then resolved ctx vs g r else []"]
      apply_rule_spec[OF assms(1,2)]
    by (simp add: concat_map_filter)
  with m show ?thesis
    by (auto simp: proc_rules_def fired_def first_rule_spec[OF assms(1,2)])
qed

lemma proc_group_spec:
  assumes "runnable lib c" "g \<in> set (Groups c)"
  shows "proc_group ctx phase vs g = Some
    (if Engine (Parameters g) = ''extProc'' \<and> Phase (Parameters g) = phase \<and> gate ctx vs g = Holds
     then concat (map (resolved ctx vs g) (fired ctx vs g)) else [])"
proof (cases "Engine (Parameters g) = ''extProc'' \<and> Phase (Parameters g) = phase")
  case True
  then have R: "proc_rules ctx vs g = Some (concat (map (resolved ctx vs g) (fired ctx vs g)))"
    using proc_rules_spec[OF assms] by simp
  show ?thesis
  proof (cases "gmatchProg g")
    case None
    with True R show ?thesis by (simp add: proc_group_def gate_def)
  next
    case (Some p)
    with True R show ?thesis
      by (cases "outcome_of ctx vs (Some p)") (auto simp: proc_group_def gate_def Eval_outcome)
  qed
qed (auto simp: proc_group_def)

lemma EvaluateProc_spec:
  assumes "runnable lib c"
  shows "EvaluateProc cd c ctx phase (Some r) resp =
    Some (spec_mutations c ctx phase (proc_vars cd c phase r resp))"
  using concat_go_total[of "Groups c" "proc_group ctx phase (proc_vars cd c phase r resp)",
      OF proc_group_spec[OF assms]]
  by (simp add: EvaluateProc_def spec_mutations_def proc_groups_def concat_map_filter)

lemma EvaluateProc_total:
  assumes "runnable lib c"
  shows "\<exists>ms. EvaluateProc cd c ctx phase req resp = Some ms"
proof (cases req)
  case None
  then show ?thesis by (simp add: EvaluateProc_def)
next
  case (Some r)
  then show ?thesis using EvaluateProc_spec[OF assms] by blast
qed

section \<open>Where a resolved mutation comes from\<close>

definition comes_from :: "'c group \<Rightarrow> 'c rule \<Rightarrow> 'c mutation \<Rightarrow> resolvedMutation \<Rightarrow> bool" where
  "comes_from g r m x \<longleftrightarrow> MutOp x = Op m \<and> MutRule x = rule_path g r \<and> MutDryRun x = RDryRun r \<and>
     (Op m \<in> {''setHeader'', ''appendHeader'', ''removeHeader''} \<longrightarrow> MutName x = MName m) \<and>
     (Op m = ''directResponse'' \<longrightarrow> RespStatus x = MStatus m \<and> distinct (map fst (RespHeaders x)))"

lemma resolve_mutation_from:
  assumes "resolve_mutation ctx vs (rule_path g r) (RDryRun r) m = Some xs" "x \<in> set xs"
  shows "comes_from g r m x"
  using assms
  by (auto simp: resolve_mutation_def comes_from_def resolved_zero_def EvalStringMap_distinct
      split: if_splits option.splits sum.splits)

lemma resolved_from:
  assumes "x \<in> set (resolved ctx vs g r)"
  shows "\<exists>m \<in> set (Mutations r). comes_from g r m x"
proof -
  obtain m xs where m: "m \<in> set (Mutations r)"
    "resolve_mutation ctx vs (rule_path g r) (RDryRun r) m = Some xs" "x \<in> set xs"
    using assms unfolding resolved_def
    by (force split: option.splits)
  with resolve_mutation_from[OF m(2,3)] show ?thesis by blast
qed

lemma fired_subset: "set (fired ctx vs g) \<subseteq> {r \<in> set (Rules g). fires ctx vs r}"
  using set_take_subset[of 1 "filter (fires ctx vs) (Rules g)"] by (auto simp: fired_def)

lemma spec_mutations_from:
  assumes "x \<in> set (spec_mutations c ctx phase vs)"
  shows "\<exists>g \<in> set (Groups c). Engine (Parameters g) = ''extProc'' \<and> Phase (Parameters g) = phase \<and>
    (\<exists>r \<in> set (Rules g). fires ctx vs r \<and> (\<exists>m \<in> set (Mutations r). comes_from g r m x))"
proof -
  obtain g r where gr: "g \<in> set (proc_groups c ctx phase vs)" "r \<in> set (fired ctx vs g)"
    "x \<in> set (resolved ctx vs g r)"
    using assms by (auto simp: spec_mutations_def)
  have "r \<in> set (Rules g)" "fires ctx vs r" using gr(2) fired_subset[of ctx vs g] by auto
  moreover have "g \<in> set (Groups c)" "Engine (Parameters g) = ''extProc''" "Phase (Parameters g) = phase"
    using gr(1) by (auto simp: proc_groups_def)
  ultimately show ?thesis using resolved_from[OF gr(3)] by blast
qed

text \<open>What the validation guarantees of every mutation that reaches the proxy.\<close>

definition legal_resolved :: "string \<Rightarrow> resolvedMutation \<Rightarrow> bool" where
  "legal_resolved phase x \<longleftrightarrow> phase \<in> set (legal_phases (MutOp x)) \<and>
     (MutOp x \<in> {''setHeader'', ''appendHeader'', ''removeHeader''} \<longrightarrow> \<not> blank (MutName x)) \<and>
     (MutOp x = ''directResponse'' \<longrightarrow>
        0 < RespStatus x \<and> RespStatus x \<le> 599 \<and> distinct (map fst (RespHeaders x)))"

lemma comes_from_legal:
  assumes "valid_mutation phase m" "comes_from g r m x"
  shows "legal_resolved phase x"
proof -
  have "\<not> blank (MName m)" if "Op m \<in> {''setHeader'', ''appendHeader'', ''removeHeader''}"
    using assms(1) that by (auto simp: valid_mutation_def op_table_def)
  moreover have "0 < MStatus m \<and> MStatus m \<le> 599" if "Op m = ''directResponse''"
    using assms(1) that by (simp add: valid_mutation_def)
  moreover have "phase \<in> set (legal_phases (Op m))" using valid_mutation_legal[OF assms(1)] by simp
  ultimately show ?thesis using assms(2) by (simp add: legal_resolved_def comes_from_def)
qed

lemma EvaluateProc_legal:
  assumes "runnable lib c" "EvaluateProc cd c ctx phase req resp = Some ms" "x \<in> set ms"
  shows "legal_resolved phase x"
proof -
  obtain r where r: "req = Some r" using assms(2,3) by (cases req) (auto simp: EvaluateProc_def)
  then have "x \<in> set (spec_mutations c ctx phase (proc_vars cd c phase r resp))"
    using EvaluateProc_spec[OF assms(1)] assms(2,3) by auto
  from spec_mutations_from[OF this]
  obtain g r' m where g: "g \<in> set (Groups c)" "Engine (Parameters g) = ''extProc''"
    "Phase (Parameters g) = phase" "r' \<in> set (Rules g)" "m \<in> set (Mutations r')" "comes_from g r' m x"
    by blast
  have "valid_mutation phase m"
    using valid_proc_mutation[OF runnableD(1)[OF assms(1) g(1)] g(4,2,5)] g(3) by simp
  then show ?thesis using comes_from_legal g(6) by blast
qed

section \<open>Properties\<close>

text \<open>C6: For a loaded policy the ext-proc evaluator returns, and its result is the concatenation, over
  the groups of the phase whose match holds, in order, of the resolved mutations of the rules that
  fire: all of them under applyAll, the first under firstMatch. Expressions that fail are skipped.
  Without a request there is nothing to do.\<close>

theorem evaluate_proc_refines:
  assumes "LoadBytes lib yaml b = Inr c"
  shows "EvaluateProc cd (c\<lparr>cregistry := reg\<rparr>) ctx phase req resp = Some
    (case req of
       None \<Rightarrow> []
     | Some r \<Rightarrow> spec_mutations c ctx phase (proc_vars cd (c\<lparr>cregistry := reg\<rparr>) phase r resp))"
proof (cases req)
  case (Some r)
  have "spec_mutations (c\<lparr>cregistry := reg\<rparr>) ctx phase vs = spec_mutations c ctx phase vs" for vs
    by (simp add: spec_mutations_def proc_groups_def)
  then show ?thesis
    using Some EvaluateProc_spec[of lib "c\<lparr>cregistry := reg\<rparr>"] LoadBytes_runnable[OF assms] by simp
qed (simp add: EvaluateProc_def)

theorem evaluate_proc_refines_witness:
  "EvaluateProc sample_codec sample_policy () ''requestHeaders'' (Some sample_request) None = Some
     (spec_mutations sample_policy () ''requestHeaders''
        (proc_vars sample_codec sample_policy ''requestHeaders'' sample_request None))"
  using evaluate_proc_refines[OF sample_policy_loads, of sample_codec "cregistry sample_policy" "()"
      "''requestHeaders''" "Some sample_request" None] by simp

text \<open>C17: Every mutation that the evaluation of a loaded policy hands to the proxy is legal in its
  phase, header operations name a header, and a direct response has a status from 1 to 599 and no
  header twice.\<close>

theorem proc_mutations_legal:
  assumes "LoadBytes lib yaml b = Inr c"
    "EvaluateProc cd (c\<lparr>cregistry := reg\<rparr>) ctx phase req resp = Some ms"
  shows "list_all (legal_resolved phase) ms"
  using EvaluateProc_legal[of lib "c\<lparr>cregistry := reg\<rparr>", OF _ assms(2)] LoadBytes_runnable[OF assms(1)]
  by (simp add: list_all_iff)

theorem proc_mutations_legal_witness:
  "\<exists>ms. EvaluateProc sample_codec sample_policy () ''requestHeaders'' (Some sample_request) None = Some ms \<and>
     list_all (legal_resolved ''requestHeaders'') ms"
proof -
  obtain ms where ms: "EvaluateProc sample_codec (sample_policy\<lparr>cregistry := cregistry sample_policy\<rparr>) ()
      ''requestHeaders'' (Some sample_request) None = Some ms"
    using EvaluateProc_total[OF LoadBytes_runnable[OF sample_policy_loads], of sample_codec "()"
        "''requestHeaders''" "Some sample_request" None] by auto
  show ?thesis using proc_mutations_legal[OF sample_policy_loads ms] ms by auto
qed

end
