(* ===== verification/Grpcserver.thy ===== *)
theory Grpcserver
  imports Extproc Accesslog Policy_Slot
begin

text \<open>
  \<^verbatim>\<open>internal/grpcserver/server.go\<close>: the ext-proc stream. Messages and responses are the variants of the
  protocol that the code switches on; the receiving and sending of a stream is a list of events.
\<close>

section \<open>The protocol\<close>

record headerValue =
  HvKey :: string
  HvValue :: string
  HvRawValue :: string

text \<open>The headers of a message, \<^const>\<open>None\<close> when they are nil.\<close>

type_synonym httpHeaders = "headerValue list option"

datatype processingRequest =
    RequestHeaders httpHeaders
  | RequestBody string
  | ResponseHeaders httpHeaders
  | ResponseBody string
  | OtherRequest

datatype appendAction = OVERWRITE_IF_EXISTS_OR_ADD | APPEND_IF_EXISTS_OR_ADD

record headerValueOption =
  OptKey :: string
  OptRawValue :: string
  AppendAction :: appendAction

record headerMutation =
  SetHeaders :: "headerValueOption list"
  RemoveHeaders :: "string list"

text \<open>A common response always has the status \<^verbatim>\<open>CONTINUE\<close>.\<close>

record commonResponse =
  HeaderMutation :: "headerMutation option"
  BodyMutation :: "string option"

record immediateResponse =
  ImStatus :: int
  ImHeaders :: "headerMutation option"
  ImBody :: string
  ImDetails :: string

datatype processingResponse =
    RespRequestHeaders commonResponse
  | RespRequestBody commonResponse
  | RespResponseHeaders commonResponse
  | RespResponseBody commonResponse
  | ImmediateResponse immediateResponse

definition continue :: commonResponse where
  "continue = \<lparr>HeaderMutation = None, BodyMutation = None\<rparr>"

section \<open>Parsing headers\<close>

definition header_value :: "headerValue \<Rightarrow> string" where
  "header_value hv =
     (if HvValue hv = [] \<and> HvRawValue hv \<noteq> [] then HvRawValue hv else HvValue hv)"

definition extractClientIP :: "header \<Rightarrow> string" where
  "extractClientIP h =
     (let xff = HdrGet h ''X-Forwarded-For''; xri = HdrGet h ''X-Real-Ip''
      in if xff \<noteq> [] then
           (case IndexByte xff (CHR '','') of
              Some i \<Rightarrow> if i > 0 then TrimSpace (take i xff) else TrimSpace xff
            | None \<Rightarrow> TrimSpace xff)
         else if xri \<noteq> [] then TrimSpace xri
         else [])"

record pseudo =
  PsMethod :: string
  PsScheme :: string
  PsAuthority :: string
  PsPath :: string

fun request_loop :: "headerValue list \<Rightarrow> pseudo \<times> header \<Rightarrow> pseudo \<times> header" where
  "request_loop [] st = st"
| "request_loop (hv # hvs) (ps, h) =
     (let val = header_value hv; key = ToLower (HvKey hv)
      in request_loop hvs
           (if key = '':method'' then (ps\<lparr>PsMethod := val\<rparr>, h)
            else if key = '':scheme'' then (ps\<lparr>PsScheme := val\<rparr>, h)
            else if key = '':authority'' then (ps\<lparr>PsAuthority := val\<rparr>, h)
            else if key = '':path'' then (ps\<lparr>PsPath := val\<rparr>, h)
            else (ps, HdrAdd (HvKey hv) val h)))"

definition split_path :: "string \<Rightarrow> string \<times> string" where
  "split_path pq =
     (if pq \<noteq> [] then
        (case IndexByte pq (CHR ''?'') of
           Some idx \<Rightarrow> (take idx pq, drop (Suc idx) pq)
         | None \<Rightarrow> (pq, []))
      else ([], []))"

definition parseRequestHeaders :: "httpHeaders \<Rightarrow> request" where
  "parseRequestHeaders hs =
     (let (ps, h) = request_loop (case hs of None \<Rightarrow> [] | Some l \<Rightarrow> l)
            (\<lparr>PsMethod = [], PsScheme = [], PsAuthority = [], PsPath = []\<rparr>, []);
          (path, rawQuery) = split_path (PsPath ps)
      in \<lparr>Method = PsMethod ps, Scheme = PsScheme ps,
          Host = (if PsAuthority ps = [] then HdrGet h ''Host'' else PsAuthority ps),
          Path = path, RawQuery = rawQuery, RemoteIP = extractClientIP h, Headers = h, Body = []\<rparr>)"

fun response_loop :: "headerValue list \<Rightarrow> string \<times> header \<Rightarrow> string \<times> header" where
  "response_loop [] st = st"
| "response_loop (hv # hvs) (status, h) =
     response_loop hvs
       (if ToLower (HvKey hv) = '':status'' then (header_value hv, h)
        else (status, HdrAdd (HvKey hv) (header_value hv) h))"

definition parseResponseHeaders :: "httpHeaders \<Rightarrow> response" where
  "parseResponseHeaders hs =
     (let (statusStr, h) = response_loop (case hs of None \<Rightarrow> [] | Some l \<Rightarrow> l) ([], [])
      in \<lparr>Status = (if statusStr \<noteq> [] then (case ParseInt statusStr of Inr code \<Rightarrow> code | Inl _ \<Rightarrow> 200)
                    else 200),
          RHeaders = h, RBody = []\<rparr>)"

section \<open>Building responses\<close>

definition set_option :: "string \<Rightarrow> string \<Rightarrow> headerValueOption" where
  "set_option k v = \<lparr>OptKey = k, OptRawValue = v, AppendAction = OVERWRITE_IF_EXISTS_OR_ADD\<rparr>"

definition append_option :: "string \<Rightarrow> string \<Rightarrow> headerValueOption" where
  "append_option k v = \<lparr>OptKey = k, OptRawValue = v, AppendAction = APPEND_IF_EXISTS_OR_ADD\<rparr>"

text \<open>\<^verbatim>\<open>sort.Strings\<close> is the library's sort.\<close>

definition buildHeaderMutationFromMap :: "(string \<times> string) list \<Rightarrow> headerMutation option" where
  "buildHeaderMutationFromMap headers =
     (if headers = [] then None
      else Some \<lparr>SetHeaders =
          map (\<lambda>k. set_option k (or_empty (map_of headers k))) (sort (map fst headers)),
        RemoveHeaders = []\<rparr>)"

fun mutation_loop :: "resolvedMutation list \<Rightarrow> headerValueOption list \<Rightarrow> string list \<Rightarrow> string option \<Rightarrow>
    headerValueOption list \<times> string list \<times> string option" where
  "mutation_loop [] sets removes body = (sets, removes, body)"
| "mutation_loop (m # ms) sets removes body =
     (if MutOp m = ''setHeader'' then
        mutation_loop ms (sets @ [set_option (MutName m) (MutValue m)]) removes body
      else if MutOp m = ''appendHeader'' then
        mutation_loop ms (sets @ [append_option (MutName m) (MutValue m)]) removes body
      else if MutOp m = ''removeHeader'' then mutation_loop ms sets (removes @ [MutName m]) body
      else if MutOp m = ''setBody'' then
        mutation_loop ms (sets @ [set_option ''content-length'' (Itoa (int (length (MutValue m))))])
          removes (Some (MutValue m))
      else if MutOp m = ''setStatus'' then
        mutation_loop ms (sets @ [set_option '':status'' (Itoa (MutStatus m))]) removes body
      else mutation_loop ms sets removes body)"

definition buildMutations :: "resolvedMutation list \<Rightarrow> headerMutation option \<times> string option" where
  "buildMutations ms =
     (let (sets, removes, body) = mutation_loop ms [] [] None
      in (if sets \<noteq> [] \<or> removes \<noteq> [] then Some \<lparr>SetHeaders = sets, RemoveHeaders = removes\<rparr> else None,
          body))"

definition phase_response :: "string \<Rightarrow> commonResponse \<Rightarrow> processingResponse" where
  "phase_response phase c =
     (if phase = ''requestHeaders'' then RespRequestHeaders c
      else if phase = ''requestBody'' then RespRequestBody c
      else if phase = ''responseHeaders'' then RespResponseHeaders c
      else if phase = ''responseBody'' then RespResponseBody c
      else RespRequestHeaders c)"

definition buildContinueResponse :: "processingRequest \<Rightarrow> processingResponse" where
  "buildContinueResponse msg =
     (case msg of
        RequestHeaders _ \<Rightarrow> RespRequestHeaders continue
      | RequestBody _ \<Rightarrow> RespRequestBody continue
      | ResponseHeaders _ \<Rightarrow> RespResponseHeaders continue
      | ResponseBody _ \<Rightarrow> RespResponseBody continue
      | OtherRequest \<Rightarrow> RespRequestHeaders continue)"

text \<open>The text of a mutation in the log; a direct response has one only as a shadow.\<close>

definition mutation_text :: "resolvedMutation \<Rightarrow> string list" where
  "mutation_text m =
     (if MutOp m = ''setHeader'' \<or> MutOp m = ''appendHeader'' then
        [MutRule m @ '':'' @ MutOp m @ ''('' @ MutName m @ ''='' @ MutValue m @ '')'']
      else if MutOp m = ''removeHeader'' then [MutRule m @ '':'' @ MutOp m @ ''('' @ MutName m @ '')'']
      else if MutOp m = ''setBody'' then
        [MutRule m @ '':'' @ MutOp m @ ''(len='' @ Itoa (int (length (MutValue m))) @ '')'']
      else if MutOp m = ''setStatus'' then
        [MutRule m @ '':'' @ MutOp m @ ''('' @ Itoa (MutStatus m) @ '')'']
      else if MutOp m = ''directResponse'' then
        [MutRule m @ '':would directRespond('' @ Itoa (RespStatus m) @ '')'']
      else [])"

definition print_strings :: "string list \<Rightarrow> string" where
  "print_strings xs = ''['' @ Join xs '' '' @ '']''"

text \<open>The second loop: what is applied, and the texts of what is applied and of what is only shadowed.\<close>

fun apply_loop :: "bool \<Rightarrow> resolvedMutation list \<Rightarrow>
    resolvedMutation list \<times> string list \<times> string list" where
  "apply_loop dryGlobal [] = ([], [], [])"
| "apply_loop dryGlobal (m # ms) =
     (let (applied, appliedLog, shadowLog) = apply_loop dryGlobal ms
      in if dryGlobal \<or> MutDryRun m then (applied, appliedLog, mutation_text m @ shadowLog)
         else if MutOp m = ''directResponse'' then (applied, appliedLog, shadowLog)
         else (m # applied, mutation_text m @ appliedLog, shadowLog))"

definition phase_attrs :: "string \<Rightarrow> string \<Rightarrow> attr list" where
  "phase_attrs streamID phase =
     [AString ''engine'' ''extProc'', AString ''stream_id'' streamID, AString ''phase'' phase]"

definition handleProcResult ::
    "string \<Rightarrow> string \<Rightarrow> resolvedMutation list \<Rightarrow> ('e, 'c) config \<Rightarrow> processingResponse \<times> logrec" where
  "handleProcResult streamID phase res p =
     (let dryGlobal = DefDryRun (Defaults p)
      in case find (\<lambda>m. MutOp m = ''directResponse'' \<and> \<not> (dryGlobal \<or> MutDryRun m)) res of
           Some m \<Rightarrow>
             (ImmediateResponse \<lparr>ImStatus = wrap32 (RespStatus m),
                ImHeaders = buildHeaderMutationFromMap (RespHeaders m), ImBody = RespBody m, ImDetails = []\<rparr>,
              \<lparr>LLevel = LevelInfo, LMsg = ''extProc phase evaluated'',
               LAttrs = phase_attrs streamID phase @
                 [AString ''direct_response'' (MutRule m @ '':'' @ Itoa (RespStatus m)), ABool ''dry_run'' False]\<rparr>)
         | None \<Rightarrow>
             (let (applied, appliedLog, shadowLog) = apply_loop dryGlobal res;
                  (hm, bm) = buildMutations applied
              in (phase_response phase \<lparr>HeaderMutation = hm, BodyMutation = bm\<rparr>,
                  \<lparr>LLevel = (if appliedLog = [] \<and> shadowLog = [] then LevelDebug else LevelInfo),
                   LMsg = ''extProc phase evaluated'',
                   LAttrs = phase_attrs streamID phase @
                     [AAny ''applied'' (print_strings appliedLog), AAny ''shadow'' (print_strings shadowLog),
                      ABool ''dry_run'' dryGlobal]\<rparr>)))"

section \<open>The stream\<close>

record stream_state =
  sreq :: "request option"
  sresp :: "response option"

definition new_stream :: stream_state where
  "new_stream = \<lparr>sreq = None, sresp = None\<rparr>"

definition empty_request :: request where
  "empty_request = \<lparr>Method = [], Scheme = [], Host = [], Path = [], RawQuery = [], RemoteIP = [],
     Headers = [], Body = []\<rparr>"

definition empty_response :: response where
  "empty_response = \<lparr>Status = 0, RHeaders = [], RBody = []\<rparr>"

definition or_new :: "'a \<Rightarrow> 'a option \<Rightarrow> 'a" where
  "or_new d x = (case x of None \<Rightarrow> d | Some v \<Rightarrow> v)"

text \<open>The identifier of the request, when it has one, ends the attributes of an access record.\<close>

definition request_id :: "request \<Rightarrow> attr list" where
  "request_id req =
     (let reqID = HdrGet (Headers req) ''x-request-id''
      in if reqID \<noteq> [] then [AString ''request_id'' reqID] else [])"

definition access_rec :: "string \<Rightarrow> string \<Rightarrow> attr list \<Rightarrow> logrec" where
  "access_rec streamID phase as =
     \<lparr>LLevel = LevelInfo, LMsg = ''extProc access'', LAttrs = phase_attrs streamID phase @ as\<rparr>"

definition overflow_rec :: "string \<Rightarrow> string \<Rightarrow> ('e, 'c) config \<Rightarrow> int \<Rightarrow> logrec" where
  "overflow_rec streamID phase p bsize =
     \<lparr>LLevel = LevelWarn, LMsg = ''ext_proc body overflow'',
      LAttrs = [AString ''stream_id'' streamID, AString ''phase'' phase,
        AInt ''limit'' (ProcMaxBodyBytes (ExtProc (Defaults p))), AInt ''body_size'' bsize,
        AString ''action'' (OnBodyOverflow (ExtProc (Defaults p))), ABool ''dry_run'' (DefDryRun (Defaults p))]\<rparr>"

definition overflow_response :: "('e, 'c) config \<Rightarrow> processingResponse \<Rightarrow> processingResponse" where
  "overflow_response p cont =
     (if OnBodyOverflow (ExtProc (Defaults p)) = ''fail'' then
        (if DefDryRun (Defaults p) then cont
         else ImmediateResponse \<lparr>ImStatus = 500, ImHeaders = None, ImBody = [],
                ImDetails = ''ext_proc body overflow''\<rparr>)
      else cont)"

type_synonym turn = "stream_state \<times> processingResponse \<times> logrec list"

text \<open>Evaluation and answer of one phase, after its access record.\<close>

definition evaluate_phase ::
    "codec \<Rightarrow> ('e, 'c) config \<Rightarrow> 'c \<Rightarrow> string \<Rightarrow> string \<Rightarrow> stream_state \<Rightarrow> request \<Rightarrow> response option \<Rightarrow>
     attr list go \<Rightarrow> turn go" where
  "evaluate_phase cd p ctx streamID phase st req resp access =
     (case access of
        None \<Rightarrow> None
      | Some as \<Rightarrow>
          (case EvaluateProc cd p ctx phase (Some req) resp of
             None \<Rightarrow> None
           | Some res \<Rightarrow>
               let (rmsg, rec) = handleProcResult streamID phase res p
               in Some (st, rmsg, [access_rec streamID phase as, rec])))"

definition request_access :: "('e, 'c) config \<Rightarrow> request \<Rightarrow> attr list go" where
  "request_access p req =
     (case RequestAttrs req (Logging p) of None \<Rightarrow> None | Some a \<Rightarrow> Some (a # request_id req))"

definition on_request_headers where
  "on_request_headers cd p ctx streamID hs st =
     (let req = parseRequestHeaders hs
      in evaluate_phase cd p ctx streamID ''requestHeaders'' (st\<lparr>sreq := Some req\<rparr>) req None
           (request_access p req))"

definition on_request_body where
  "on_request_body cd p ctx streamID chunk st =
     (let req0 = or_new empty_request (sreq st);
          req = req0\<lparr>Body := Body req0 @ chunk\<rparr>;
          st' = st\<lparr>sreq := Some req\<rparr>
      in if int (length (Body req)) > ProcMaxBodyBytes (ExtProc (Defaults p)) then
           Some (st', overflow_response p (RespRequestBody continue),
             [overflow_rec streamID ''requestBody'' p (int (length (Body req)))])
         else evaluate_phase cd p ctx streamID ''requestBody'' st' req None (request_access p req))"

definition on_response_headers where
  "on_response_headers cd p ctx streamID hs st =
     (let req = or_new empty_request (sreq st); resp = parseResponseHeaders hs
      in evaluate_phase cd p ctx streamID ''responseHeaders'' (st\<lparr>sreq := Some req, sresp := Some resp\<rparr>)
           req (Some resp)
           (case RequestAttrs req (Logging p) of
              None \<Rightarrow> None
            | Some a \<Rightarrow>
                (case ResponseAttrs (Some resp) (Logging p) of
                   None \<Rightarrow> None
                 | Some b \<Rightarrow> Some (a # b # request_id req))))"

definition on_response_body where
  "on_response_body cd p ctx streamID chunk st =
     (let req = or_new empty_request (sreq st);
          resp0 = or_new empty_response (sresp st);
          resp = resp0\<lparr>RBody := RBody resp0 @ chunk\<rparr>;
          st' = st\<lparr>sreq := Some req, sresp := Some resp\<rparr>
      in if int (length (RBody resp)) > ProcMaxBodyBytes (ExtProc (Defaults p)) then
           Some (st', overflow_response p (RespResponseBody continue),
             [overflow_rec streamID ''responseBody'' p (int (length (RBody resp)))])
         else evaluate_phase cd p ctx streamID ''responseBody'' st' req (Some resp)
                (case ResponseAttrs (Some resp) (Logging p) of None \<Rightarrow> None | Some b \<Rightarrow> Some [b]))"

text \<open>One turn of the loop of \<^verbatim>\<open>Process\<close> for a message that was received.\<close>

definition process_msg ::
    "codec \<Rightarrow> ('e, 'c) config option \<Rightarrow> 'c \<Rightarrow> string \<Rightarrow> processingRequest \<Rightarrow> stream_state \<Rightarrow> turn go" where
  "process_msg cd policy ctx streamID msg st =
     (case policy of
        None \<Rightarrow> Some (st, buildContinueResponse msg, [])
      | Some p \<Rightarrow>
          (case msg of
             RequestHeaders hs \<Rightarrow> on_request_headers cd p ctx streamID hs st
           | RequestBody chunk \<Rightarrow> on_request_body cd p ctx streamID chunk st
           | ResponseHeaders hs \<Rightarrow> on_response_headers cd p ctx streamID hs st
           | ResponseBody chunk \<Rightarrow> on_response_body cd p ctx streamID chunk st
           | OtherRequest \<Rightarrow> Some (st, buildContinueResponse msg, [])))"

text \<open>What a stream does: a receive that ends, fails or gives a message, with the policy installed at
  that moment and the outcome of the send that answers it.\<close>

datatype ('e, 'c) event =
    RecvEOF
  | RecvError string
  | RecvMsg processingRequest "('e, 'c) config option" "string option"

datatype stream_end = Returned "string option" | Waiting

text \<open>The responses that were sent, and how the loop ended; a loop whose events are used up waits for
  the next message.\<close>

fun Process ::
    "codec \<Rightarrow> 'c \<Rightarrow> string \<Rightarrow> ('e, 'c) event list \<Rightarrow> stream_state \<Rightarrow>
     (processingResponse list \<times> stream_end) go" where
  "Process cd ctx streamID [] st = Some ([], Waiting)"
| "Process cd ctx streamID (RecvEOF # es) st = Some ([], Returned None)"
| "Process cd ctx streamID (RecvError err # es) st = Some ([], Returned (Some err))"
| "Process cd ctx streamID (RecvMsg msg policy send # es) st =
     (case process_msg cd policy ctx streamID msg st of
        None \<Rightarrow> None
      | Some (st', rmsg, _) \<Rightarrow>
          (case send of
             Some err \<Rightarrow> Some ([], Returned (Some err))
           | None \<Rightarrow>
               (case Process cd ctx streamID es st' of
                  None \<Rightarrow> None
                | Some (rmsgs, e) \<Rightarrow> Some (rmsg # rmsgs, e))))"

section \<open>Stream identifiers\<close>

definition hex_encode :: "string \<Rightarrow> string" where
  "hex_encode b = concat (map (\<lambda>c. [hex_digit (byte c div 16), hex_digit (byte c mod 16)]) b)"

fun nat_hex :: "nat \<Rightarrow> string" where
  "nat_hex n = (if n < 16 then [hex_digit n] else nat_hex (n div 16) @ [hex_digit (n mod 16)])"

declare nat_hex.simps [simp del]

text \<open>\<^verbatim>\<open>%016x\<close> pads with zeros to 16 characters, the sign included.\<close>

definition fmt_016x :: "int \<Rightarrow> string" where
  "fmt_016x i =
     (let ds = nat_hex (nat \<bar>i\<bar>)
      in if i < 0 then CHR ''-'' # replicate (15 - length ds) (CHR ''0'') @ ds
         else replicate (16 - length ds) (CHR ''0'') @ ds)"

definition newStreamID :: "string option \<Rightarrow> int \<Rightarrow> string" where
  "newStreamID random now = (case random of Some buf \<Rightarrow> hex_encode buf | None \<Rightarrow> fmt_016x now)"

section \<open>The server\<close>

record 'p grpc_server =
  grpcPolicy :: "'p option"

definition grpc_New :: "'p \<Rightarrow> 'p grpc_server" where
  "grpc_New p = \<lparr>grpcPolicy = Some p\<rparr>"

definition grpc_SetPolicy ::
    "'p option \<Rightarrow> 'p grpc_server \<Rightarrow> 'p option \<times> 'p grpc_server" where
  "grpc_SetPolicy c s = (grpcPolicy s, s\<lparr>grpcPolicy := c\<rparr>)"

definition grpc_Policy :: "'p grpc_server \<Rightarrow> 'p option" where
  "grpc_Policy s = grpcPolicy s"

interpretation grpc_slot: policy_slot grpc_Policy grpc_SetPolicy
  by unfold_locales (simp_all add: grpc_Policy_def grpc_SetPolicy_def)

section \<open>Shadow mutations\<close>

definition enforced :: "bool \<Rightarrow> resolvedMutation \<Rightarrow> bool" where
  "enforced dryGlobal m \<longleftrightarrow> \<not> (dryGlobal \<or> MutDryRun m)"

lemma apply_loop_applied:
  "fst (apply_loop dg ms) = filter (\<lambda>m. enforced dg m \<and> MutOp m \<noteq> ''directResponse'') ms"
  by (induction ms) (auto simp: Let_def split_beta enforced_def)

text \<open>The answer of a phase as a function of the mutations that are enforced.\<close>

definition spec_response :: "string \<Rightarrow> resolvedMutation list \<Rightarrow> processingResponse" where
  "spec_response phase ms =
     (case filter (\<lambda>m. MutOp m = ''directResponse'') ms of
        m # _ \<Rightarrow> ImmediateResponse \<lparr>ImStatus = wrap32 (RespStatus m),
          ImHeaders = buildHeaderMutationFromMap (RespHeaders m), ImBody = RespBody m, ImDetails = []\<rparr>
      | [] \<Rightarrow> (case buildMutations ms of
                (hm, bm) \<Rightarrow> phase_response phase \<lparr>HeaderMutation = hm, BodyMutation = bm\<rparr>))"

lemma find_filter: "find P xs = (case filter P xs of [] \<Rightarrow> None | x # _ \<Rightarrow> Some x)"
  by (induction xs) auto

lemma handleProcResult_spec:
  "fst (handleProcResult sid phase res p) = spec_response phase (filter (enforced (DefDryRun (Defaults p))) res)"
proof -
  let ?dg = "DefDryRun (Defaults p)"
  let ?E = "filter (enforced ?dg) res"
  have f: "filter (\<lambda>m. MutOp m = ''directResponse'') ?E =
      filter (\<lambda>m. MutOp m = ''directResponse'' \<and> \<not> (?dg \<or> MutDryRun m)) res"
    by (simp add: enforced_def conj_commute)
  show ?thesis
  proof (cases "filter (\<lambda>m. MutOp m = ''directResponse'') ?E")
    case Nil
    then have "\<forall>m \<in> set ?E. MutOp m \<noteq> ''directResponse''" by (simp only: filter_empty_conv)
    then have a: "fst (apply_loop ?dg res) = ?E"
      by (auto simp: apply_loop_applied intro!: filter_cong)
    have "find (\<lambda>m. MutOp m = ''directResponse'' \<and> \<not> (?dg \<or> MutDryRun m)) res = None"
      unfolding find_filter f[symmetric] Nil by simp
    then show ?thesis
      unfolding handleProcResult_def spec_response_def Nil by (simp add: a Let_def split_beta)
  next
    case (Cons m ms)
    have "find (\<lambda>m. MutOp m = ''directResponse'' \<and> \<not> (?dg \<or> MutDryRun m)) res = Some m"
      unfolding find_filter f[symmetric] Cons by simp
    then show ?thesis
      unfolding handleProcResult_def spec_response_def Cons by (simp add: Let_def)
  qed
qed

section \<open>Totality and phases of the answers\<close>

text \<open>The answer belongs to the phase of the message, or it is immediate.\<close>

fun answers_phase :: "processingRequest \<Rightarrow> processingResponse \<Rightarrow> bool" where
  "answers_phase (RequestHeaders _) (RespRequestHeaders _) = True"
| "answers_phase (RequestBody _) (RespRequestBody _) = True"
| "answers_phase (ResponseHeaders _) (RespResponseHeaders _) = True"
| "answers_phase (ResponseBody _) (RespResponseBody _) = True"
| "answers_phase OtherRequest (RespRequestHeaders _) = True"
| "answers_phase _ _ = False"

fun is_immediate :: "processingResponse \<Rightarrow> bool" where
  "is_immediate (ImmediateResponse _) = True"
| "is_immediate _ = False"

fun msg_phase :: "processingRequest \<Rightarrow> string" where
  "msg_phase (RequestHeaders _) = ''requestHeaders''"
| "msg_phase (RequestBody _) = ''requestBody''"
| "msg_phase (ResponseHeaders _) = ''responseHeaders''"
| "msg_phase (ResponseBody _) = ''responseBody''"
| "msg_phase OtherRequest = []"

definition reveal_ok :: "('e, 'c) config \<Rightarrow> bool" where
  "reveal_ok p \<longleftrightarrow> - (2 ^ 62) \<le> RedactReveal (Logging p) \<and> RedactReveal (Logging p) < 2 ^ 62"

definition servable :: "('e, 'a, 'c) cel_lib \<Rightarrow> ('e, 'c) config option \<Rightarrow> bool" where
  "servable lib policy \<longleftrightarrow> (\<forall>p. policy = Some p \<longrightarrow> runnable lib p \<and> reveal_ok p)"

lemma attrs_total:
  assumes "reveal_ok p"
  shows "\<exists>a. RequestAttrs req (Logging p) = Some a" "\<exists>a. ResponseAttrs resp (Logging p) = Some a"
proof -
  have H: "\<exists>as. header_attrs ex re (RedactReveal (Logging p)) h = Some as" for ex re h
    using header_attrs_spec[of "RedactReveal (Logging p)" ex re h] assms unfolding reveal_ok_def by blast
  show "\<exists>a. RequestAttrs req (Logging p) = Some a"
    using H[of "lowerSet (ExcludeHeaders (Logging p))" "lowerSet (RedactHeaders (Logging p))" "Headers req"]
    by (auto simp: RequestAttrs_def)
  show "\<exists>a. ResponseAttrs resp (Logging p) = Some a"
  proof (cases resp)
    case (Some rs)
    with H[of "lowerSet (ExcludeHeaders (Logging p))" "lowerSet (RedactHeaders (Logging p))" "RHeaders rs"]
    show ?thesis by (auto simp: ResponseAttrs_def)
  qed (simp add: ResponseAttrs_def)
qed

text \<open>In a request phase no mutation of a valid policy is a direct response.\<close>

lemma spec_response_phase:
  assumes "phase \<in> set all_phases" "\<forall>m \<in> set ms. legal_resolved phase m"
  shows "spec_response phase ms = phase_response phase
      \<lparr>HeaderMutation = fst (buildMutations ms), BodyMutation = snd (buildMutations ms)\<rparr> \<or>
    is_immediate (spec_response phase ms) \<and> phase \<in> set response_phases"
proof (cases "filter (\<lambda>m. MutOp m = ''directResponse'') ms")
  case Nil
  then show ?thesis by (simp add: spec_response_def split_beta)
next
  case (Cons m xs)
  have "m \<in> set (filter (\<lambda>m. MutOp m = ''directResponse'') ms)" unfolding Cons by simp
  then have "m \<in> set ms" "MutOp m = ''directResponse''" by simp_all
  then have "phase \<in> set response_phases"
    using assms(2) by (auto simp: legal_resolved_def legal_phases_simps)
  with Cons show ?thesis by (simp add: spec_response_def)
qed

lemma evaluate_phase_total:
  assumes "runnable lib p" "phase \<in> set all_phases" "access \<noteq> None"
  shows "\<exists>rmsg recs c. evaluate_phase cd p ctx sid phase st req resp access = Some (st, rmsg, recs) \<and>
    (rmsg = phase_response phase c \<or> is_immediate rmsg \<and> phase \<in> set response_phases)"
proof -
  obtain as where as: "access = Some as" using assms(3) by blast
  obtain ms where ms: "EvaluateProc cd p ctx phase (Some req) resp = Some ms"
    using EvaluateProc_total[OF assms(1)] by blast
  have "\<forall>m \<in> set (filter (enforced (DefDryRun (Defaults p))) ms). legal_resolved phase m"
    using EvaluateProc_legal[OF assms(1) ms] by auto
  from spec_response_phase[OF assms(2) this] as ms
  show ?thesis
    by (auto simp: evaluate_phase_def Let_def split_beta handleProcResult_spec)
qed

lemma overflow_response_cases:
  "overflow_response p cont = cont \<or> is_immediate (overflow_response p cont) \<and>
     OnBodyOverflow (ExtProc (Defaults p)) = ''fail'' \<and> \<not> DefDryRun (Defaults p)"
  by (simp add: overflow_response_def)

text \<open>The bodies that are held after a message, for the case of an overflow.\<close>

definition overflows :: "('e, 'c) config \<Rightarrow> processingRequest \<Rightarrow> stream_state \<Rightarrow> bool" where
  "overflows p msg st \<longleftrightarrow>
     (case msg of
        RequestBody chunk \<Rightarrow>
          int (length (Body (or_new empty_request (sreq st)) @ chunk)) > ProcMaxBodyBytes (ExtProc (Defaults p))
      | ResponseBody chunk \<Rightarrow>
          int (length (RBody (or_new empty_response (sresp st)) @ chunk)) > ProcMaxBodyBytes (ExtProc (Defaults p))
      | _ \<Rightarrow> False)"

definition proper_answer ::
    "('e, 'c) config option \<Rightarrow> processingRequest \<Rightarrow> stream_state \<Rightarrow> processingResponse \<Rightarrow> bool" where
  "proper_answer policy msg st rmsg \<longleftrightarrow> answers_phase msg rmsg \<or>
     is_immediate rmsg \<and> (\<exists>p. policy = Some p \<and>
       (msg_phase msg \<in> set response_phases \<or>
        overflows p msg st \<and> OnBodyOverflow (ExtProc (Defaults p)) = ''fail'' \<and> \<not> DefDryRun (Defaults p)))"

lemma phase_response_answers: "answers_phase msg (phase_response (msg_phase msg) c)"
  by (cases msg) (simp_all add: phase_response_def)

lemma evaluate_phase_proper:
  assumes "runnable lib p" "msg \<noteq> OtherRequest" "access \<noteq> None" "phase = msg_phase msg"
  shows "\<exists>st2 rmsg recs. evaluate_phase cd p ctx sid phase st' req resp access = Some (st2, rmsg, recs) \<and>
    proper_answer (Some p) msg st rmsg"
proof -
  have "phase \<in> set all_phases" using assms(2,4) by (cases msg) (simp_all add: all_phases_def)
  from evaluate_phase_total[OF assms(1) this assms(3), of cd ctx sid st' req resp]
  show ?thesis using assms(4) phase_response_answers[of msg] by (auto simp: proper_answer_def)
qed

text \<open>One message under a policy: each kind comes to an evaluation of its phase, unless its body is too long.\<close>

definition answered where
  "answered cd p ctx sid msg st \<longleftrightarrow>
     (\<exists>st' rmsg recs. process_msg cd (Some p) ctx sid msg st = Some (st', rmsg, recs) \<and>
        proper_answer (Some p) msg st rmsg)"

lemma answered_by_phase:
  assumes "runnable lib p" "access \<noteq> None" "msg \<noteq> OtherRequest"
    "process_msg cd (Some p) ctx sid msg st =
       evaluate_phase cd p ctx sid (msg_phase msg) st' req resp access"
  shows "answered cd p ctx sid msg st"
  using evaluate_phase_proper[OF assms(1,3,2) refl] assms(4) by (simp add: answered_def)

lemma request_access_total: "reveal_ok p \<Longrightarrow> request_access p req \<noteq> None"
  using attrs_total(1)[of p req] by (auto simp: request_access_def)

lemma answered_headers:
  assumes R: "runnable lib p" "reveal_ok p"
  shows "answered cd p ctx sid (RequestHeaders hs) st" "answered cd p ctx sid (ResponseHeaders hs) st"
proof -
  show "answered cd p ctx sid (RequestHeaders hs) st"
    by (rule answered_by_phase[OF R(1) request_access_total[OF R(2)]])
      (simp_all add: process_msg_def on_request_headers_def Let_def)
  let ?req = "or_new empty_request (sreq st)" and ?resp = "parseResponseHeaders hs"
  obtain a b where ab: "RequestAttrs ?req (Logging p) = Some a" "ResponseAttrs (Some ?resp) (Logging p) = Some b"
    using attrs_total[OF R(2)] by blast
  show "answered cd p ctx sid (ResponseHeaders hs) st"
    by (rule answered_by_phase[OF R(1), where access = "Some (a # b # request_id ?req)"])
      (use ab in \<open>simp_all add: process_msg_def on_response_headers_def Let_def\<close>)
qed

lemma answered_bodies:
  assumes R: "runnable lib p" "reveal_ok p"
  shows "answered cd p ctx sid (RequestBody chunk) st" "answered cd p ctx sid (ResponseBody chunk) st"
proof -
  show "answered cd p ctx sid (RequestBody chunk) st"
  proof (cases "overflows p (RequestBody chunk) st")
    case True
    then show ?thesis using overflow_response_cases[of p "RespRequestBody continue"]
      by (auto simp: answered_def process_msg_def on_request_body_def Let_def overflows_def proper_answer_def)
  next
    case False
    then show ?thesis
      by (intro answered_by_phase[OF R(1) request_access_total[OF R(2)]])
        (simp_all add: process_msg_def on_request_body_def Let_def overflows_def)
  qed
  show "answered cd p ctx sid (ResponseBody chunk) st"
  proof (cases "overflows p (ResponseBody chunk) st")
    case True
    then show ?thesis using overflow_response_cases[of p "RespResponseBody continue"]
      by (auto simp: answered_def process_msg_def on_response_body_def Let_def overflows_def proper_answer_def)
  next
    case False
    let ?resp = "or_new empty_response (sresp st)"
    obtain b where b: "ResponseAttrs (Some (?resp\<lparr>RBody := RBody ?resp @ chunk\<rparr>)) (Logging p) = Some b"
      using attrs_total(2)[OF R(2)] by blast
    show ?thesis
      by (rule answered_by_phase[OF R(1), where access = "Some [b]"])
        (use False b in \<open>simp_all add: process_msg_def on_response_body_def Let_def overflows_def\<close>)
  qed
qed

lemma process_msg_total:
  assumes "servable lib policy"
  shows "\<exists>st' rmsg recs. process_msg cd policy ctx sid msg st = Some (st', rmsg, recs) \<and>
    proper_answer policy msg st rmsg"
proof (cases policy)
  case None
  have "answers_phase msg (buildContinueResponse msg)" by (cases msg) (simp_all add: buildContinueResponse_def)
  with None show ?thesis by (simp add: process_msg_def proper_answer_def)
next
  case (Some p)
  then have R: "runnable lib p" "reveal_ok p" using assms by (auto simp: servable_def)
  have "answered cd p ctx sid msg st"
  proof (cases msg)
    case OtherRequest
    then show ?thesis
      by (simp add: answered_def process_msg_def buildContinueResponse_def proper_answer_def)
  qed (simp_all add: answered_headers[OF R] answered_bodies[OF R])
  with Some show ?thesis by (simp add: answered_def)
qed

text \<open>The events that are answered: messages whose answer could be sent, up to the first other.\<close>

fun delivered :: "('e, 'c) event \<Rightarrow> bool" where
  "delivered (RecvMsg _ _ None) = True"
| "delivered _ = False"

fun event_servable :: "('e, 'a, 'c) cel_lib \<Rightarrow> ('e, 'c) event \<Rightarrow> bool" where
  "event_servable lib (RecvMsg _ policy _) = servable lib policy"
| "event_servable lib _ = True"

definition answers_event :: "('e, 'c) event \<Rightarrow> processingResponse \<Rightarrow> bool" where
  "answers_event e rmsg \<longleftrightarrow>
     (\<exists>msg policy send. e = RecvMsg msg policy send \<and> (answers_phase msg rmsg \<or> is_immediate rmsg \<and> policy \<noteq> None))"

lemma Process_total:
  assumes "\<forall>e \<in> set es. event_servable lib e"
  shows "\<exists>rs en. Process cd ctx sid es st = Some (rs, en) \<and>
    list_all2 answers_event (takeWhile delivered es) rs"
  using assms
proof (induction es arbitrary: st)
  case (Cons e es)
  show ?case
  proof (cases e)
    case (RecvMsg msg policy send)
    then have "servable lib policy" using Cons.prems by simp
    from process_msg_total[OF this, of cd ctx sid msg st]
    obtain st' rmsg recs where m: "process_msg cd policy ctx sid msg st = Some (st', rmsg, recs)"
      "proper_answer policy msg st rmsg" by blast
    have "\<forall>e \<in> set es. event_servable lib e" using Cons.prems by simp
    from Cons.IH[OF this, of st'] obtain rs en where "Process cd ctx sid es st' = Some (rs, en)"
      "list_all2 answers_event (takeWhile delivered es) rs"
      by blast
    moreover have "answers_event e rmsg"
      using m(2) RecvMsg by (auto simp: answers_event_def proper_answer_def)
    ultimately show ?thesis using m(1) RecvMsg by (cases send) auto
  qed auto
qed simp

section \<open>Mutations and headers\<close>

lemma mutation_loop_spec:
  "mutation_loop ms sets removes body =
     (sets @ concat (map (\<lambda>m. fst (mutation_loop [m] [] [] None)) ms),
      removes @ map MutName (filter (\<lambda>m. MutOp m = ''removeHeader'') ms),
      case filter (\<lambda>m. MutOp m = ''setBody'') ms of [] \<Rightarrow> body | x # xs \<Rightarrow> Some (MutValue (last (x # xs))))"
proof (induction ms sets removes body rule: mutation_loop.induct)
  case (2 m ms sets removes body)
  then show ?case
    by (cases "MutOp m = ''setHeader'' \<or> MutOp m = ''appendHeader'' \<or> MutOp m = ''removeHeader'' \<or>
          MutOp m = ''setBody'' \<or> MutOp m = ''setStatus''")
       (auto split: list.split)
qed simp

text \<open>Header names are compared without regard to case.\<close>

definition names_length :: "string \<Rightarrow> bool" where
  "names_length k \<longleftrightarrow> ToLower k = ''content-length''"

definition is_length_option :: "headerValueOption \<Rightarrow> bool" where
  "is_length_option x \<longleftrightarrow> names_length (OptKey x)"

lemma length_names: "names_length ''content-length''" "\<not> names_length '':status''"
  by code_simp+

lemma no_length_options:
  assumes "\<forall>m \<in> set ms. MutOp m \<noteq> ''setBody''"
    "\<forall>m \<in> set ms. MutOp m \<in> {''setHeader'', ''appendHeader''} \<longrightarrow> \<not> names_length (MutName m)"
  shows "filter is_length_option (concat (map (\<lambda>m. fst (mutation_loop [m] [] [] None)) ms)) = []"
  using assms by (induction ms) (auto simp: is_length_option_def set_option_def append_option_def length_names)

fun pseudo_key :: "string \<Rightarrow> bool" where
  "pseudo_key k = (k \<in> {'':method'', '':scheme'', '':authority'', '':path''})"

definition plain_headers :: "headerValue list \<Rightarrow> (string \<times> string) list" where
  "plain_headers hvs =
     map (\<lambda>hv. (HvKey hv, header_value hv)) (filter (\<lambda>hv. \<not> pseudo_key (ToLower (HvKey hv))) hvs)"

lemma request_loop_headers:
  "snd (request_loop hvs (ps, h)) = fold (\<lambda>(k, v). HdrAdd k v) (plain_headers hvs) h"
  by (induction hvs arbitrary: ps h) (auto simp: Let_def plain_headers_def)

text \<open>The last value of a pseudo header.\<close>

definition pseudo_value :: "string \<Rightarrow> headerValue list \<Rightarrow> string \<Rightarrow> string" where
  "pseudo_value name hvs d =
     (case filter (\<lambda>hv. ToLower (HvKey hv) = name) hvs of [] \<Rightarrow> d | x # xs \<Rightarrow> header_value (last (x # xs)))"

lemma pseudo_value_Cons:
  "pseudo_value name (hv # hvs) d =
     pseudo_value name hvs (if ToLower (HvKey hv) = name then header_value hv else d)"
  by (simp add: pseudo_value_def split: list.split)

lemma request_loop_pseudo:
  "PsMethod (fst (request_loop hvs (ps, h))) = pseudo_value '':method'' hvs (PsMethod ps) \<and>
   PsScheme (fst (request_loop hvs (ps, h))) = pseudo_value '':scheme'' hvs (PsScheme ps) \<and>
   PsAuthority (fst (request_loop hvs (ps, h))) = pseudo_value '':authority'' hvs (PsAuthority ps) \<and>
   PsPath (fst (request_loop hvs (ps, h))) = pseudo_value '':path'' hvs (PsPath ps)"
proof (induction hvs arbitrary: ps h)
  case Nil
  then show ?case by (simp add: pseudo_value_def)
next
  case (Cons hv hvs)
  then show ?case by (simp add: Let_def pseudo_value_Cons)
qed

lemma split_path_join:
  "split_path pq = (p, q) \<Longrightarrow> CHR ''?'' \<notin> set p \<and> (pq = p @ ''?'' @ q \<or> pq = p \<and> q = [])"
  by (auto simp: split_path_def dest: IndexByte_SomeD IndexByte_split split: if_splits option.splits)

lemma extractClientIP_first:
  "extractClientIP h = TrimSpace
     (let xff = HdrGet h ''X-Forwarded-For''
      in if xff = [] then HdrGet h ''X-Real-Ip''
         else if hd xff = CHR '','' then xff else takeWhile (\<lambda>c. c \<noteq> CHR '','') xff)"
proof (cases "HdrGet h ''X-Forwarded-For''")
  case (Cons c cs)
  show ?thesis
  proof (cases "IndexByte (c # cs) (CHR '','')")
    case None
    then have "\<forall>x \<in> set (c # cs). x \<noteq> CHR '',''" unfolding IndexByte_None_iff by blast
    then have t: "takeWhile (\<lambda>c. c \<noteq> CHR '','') (c # cs) = c # cs" by (simp only: takeWhile_eq_all_conv)
    have "extractClientIP h = TrimSpace (c # cs)" unfolding extractClientIP_def Let_def Cons None by simp
    then show ?thesis unfolding Let_def Cons t by simp
  next
    case (Some i)
    from IndexByte_SomeD[OF Some] have i: "i < length (c # cs)" "(c # cs) ! i = CHR '',''"
      "CHR '','' \<notin> set (take i (c # cs))" by simp_all
    then have "takeWhile (\<lambda>c. c \<noteq> CHR '','') (c # cs) = take i (c # cs)"
      by (intro takeWhile_eq_take_P_nth) (auto simp: in_set_conv_nth)
    with Cons Some i show ?thesis by (cases i) (auto simp: extractClientIP_def Let_def)
  qed
qed (simp add: extractClientIP_def Let_def)

section \<open>Properties\<close>

text \<open>C5: Shadow mutations never reach the proxy. The answer of a phase is a function of the mutations
  that are enforced alone: the first direct response among them, or else the header and body
  changes of all of them in order; with the global dry run it is the empty continue.\<close>

theorem shadow_mutations_inert:
  "fst (handleProcResult sid phase res p) =
     spec_response phase (filter (enforced (DefDryRun (Defaults p))) res) \<and>
   (DefDryRun (Defaults p) \<longrightarrow> fst (handleProcResult sid phase res p) = phase_response phase continue)"
proof
  show s: "fst (handleProcResult sid phase res p) =
      spec_response phase (filter (enforced (DefDryRun (Defaults p))) res)"
    by (rule handleProcResult_spec)
  show "DefDryRun (Defaults p) \<longrightarrow> fst (handleProcResult sid phase res p) = phase_response phase continue"
  proof
    assume "DefDryRun (Defaults p)"
    then have "filter (enforced (DefDryRun (Defaults p))) res = []" by (simp add: enforced_def)
    then show "fst (handleProcResult sid phase res p) = phase_response phase continue"
      unfolding s by (simp add: spec_response_def buildMutations_def continue_def)
  qed
qed

definition dry_policy :: "(nat, unit) config" where
  "dry_policy = sample_policy\<lparr>Defaults := (Defaults sample_policy)\<lparr>DefDryRun := True\<rparr>\<rparr>"

theorem shadow_mutations_inert_witness:
  "fst (handleProcResult ''id'' ''requestHeaders'' [resolved_zero ''removeHeader'' ''tag/ok'' False] dry_policy) =
     phase_response ''requestHeaders'' continue"
proof -
  have "DefDryRun (Defaults dry_policy)" by (simp add: dry_policy_def)
  then show ?thesis
    using shadow_mutations_inert[of "''id''" "''requestHeaders''"
        "[resolved_zero ''removeHeader'' ''tag/ok'' False]" dry_policy] by blast
qed

text \<open>C15: A stream that is served with loaded policies (or none), which may be replaced at any time, and whose
  \<^verbatim>\<open>redactReveal\<close> lies between \<open>- (2 ^ 62)\<close> and \<open>2 ^ 62 - 1\<close> (the doubling in the masking of a header overflows outside, which the
  validation does not check), never panics, and every message is answered by exactly one response, in order, until the stream
  ends or a send fails: a response of the phase of the message, or an immediate one.\<close>

theorem stream_always_answers:
  assumes "\<forall>msg p send. RecvMsg msg (Some p) send \<in> set es \<longrightarrow>
    runnable lib p \<and> - (2 ^ 62) \<le> RedactReveal (Logging p) \<and> RedactReveal (Logging p) < 2 ^ 62"
  shows "\<exists>rs en. Process cd ctx sid es st = Some (rs, en) \<and>
    length rs = length (takeWhile delivered es) \<and>
    list_all2 answers_event (takeWhile delivered es) rs"
proof -
  have "event_servable lib e" if "e \<in> set es" for e
    using assms that by (cases e) (auto simp: servable_def reveal_ok_def)
  then show ?thesis using Process_total[of es lib cd ctx sid st] list_all2_lengthD by fastforce
qed

theorem stream_always_answers_witness:
  "\<exists>rs en. Process sample_codec () ''id''
     [RecvMsg (RequestHeaders None) (Some sample_policy) None, RecvMsg (RequestBody ''x'') None None, RecvEOF]
     new_stream = Some (rs, en) \<and> length rs = 2"
proof -
  let ?es = "[RecvMsg (RequestHeaders None) (Some sample_policy) None, RecvMsg (RequestBody ''x'') None None, RecvEOF]"
  have "\<forall>msg p send. RecvMsg msg (Some p) send \<in> set ?es \<longrightarrow>
      runnable sample_lib p \<and> - (2 ^ 62) \<le> RedactReveal (Logging p) \<and> RedactReveal (Logging p) < 2 ^ 62"
    using LoadBytes_runnable[OF sample_policy_loads] by (simp add: sample_policy_settings sample_logging_def)
  from stream_always_answers[OF this, of sample_codec "()" "''id''" new_stream] show ?thesis by auto
qed

text \<open>C26: Under a loaded policy whose \<^verbatim>\<open>redactReveal\<close> is in range, or none: an immediate response, which ends the request, is sent
  only when a policy is installed, and
  only in a response phase or when a body overflowed while overflows are to fail and dry run is
  off; every other answer continues the phase of the message.\<close>

theorem immediate_is_justified:
  assumes "servable lib policy" "process_msg cd policy ctx sid msg st = Some (st', rmsg, recs)"
  shows "answers_phase msg rmsg \<or>
    is_immediate rmsg \<and> (\<exists>p. policy = Some p \<and>
      (msg_phase msg \<in> set response_phases \<or>
       overflows p msg st \<and> OnBodyOverflow (ExtProc (Defaults p)) = ''fail'' \<and> \<not> DefDryRun (Defaults p)))"
  using process_msg_total[OF assms(1), of cd ctx sid msg st] assms(2) by (simp add: proper_answer_def)

theorem immediate_is_justified_witness:
  "\<exists>st' rmsg recs. process_msg sample_codec (Some sample_policy) () ''id'' (RequestHeaders None) new_stream =
      Some (st', rmsg, recs) \<and> answers_phase (RequestHeaders None) rmsg"
proof -
  have s: "servable sample_lib (Some sample_policy)"
    using LoadBytes_runnable[OF sample_policy_loads]
    by (simp add: servable_def reveal_ok_def sample_policy_settings sample_logging_def)
  obtain st' rmsg recs where m: "process_msg sample_codec (Some sample_policy) () ''id'' (RequestHeaders None) new_stream =
      Some (st', rmsg, recs)"
    using process_msg_total[OF s] by blast
  from immediate_is_justified[OF s m] m show ?thesis
    by (auto simp: overflows_def response_phases_def)
qed

text \<open>C27: A replaced body and its length go together. The body mutation is the value of the last setBody. When no later
  mutation sets or appends content-length itself, in any spelling of its name, then the last content-length among the headers that the
  proxy is told to set is the length of that body, and it replaces what was there before. A rule that writes its own
  content-length after the last setBody overrides it.\<close>

theorem body_and_length_agree:
  assumes "ms = as @ m # bs" "MutOp m = ''setBody''" "\<forall>x \<in> set bs. MutOp x \<noteq> ''setBody''"
  shows "snd (buildMutations ms) = Some (MutValue m) \<and>
    ((\<forall>x \<in> set bs. MutOp x \<in> {''setHeader'', ''appendHeader''} \<longrightarrow> ToLower (MutName x) \<noteq> ''content-length'') \<longrightarrow>
     (\<exists>hm. fst (buildMutations ms) = Some hm \<and>
        last (filter (\<lambda>h. ToLower (OptKey h) = ''content-length'') (SetHeaders hm)) =
          \<lparr>OptKey = ''content-length'', OptRawValue = Itoa (int (length (MutValue m))),
           AppendAction = OVERWRITE_IF_EXISTS_OR_ADD\<rparr>))"
proof -
  let ?f = "\<lambda>m. fst (mutation_loop [m] [] [] None)"
  let ?B = "filter (\<lambda>m. MutOp m = ''setBody'') ms"
  let ?S = "concat (map ?f ms)" and ?R = "map MutName (filter (\<lambda>m. MutOp m = ''removeHeader'') ms)"
  let ?l = "set_option ''content-length'' (Itoa (int (length (MutValue m))))"
  have M: "buildMutations ms =
      (if ?S \<noteq> [] \<or> ?R \<noteq> [] then Some \<lparr>SetHeaders = ?S, RemoveHeaders = ?R\<rparr> else None,
       case ?B of [] \<Rightarrow> None | x # xs \<Rightarrow> Some (MutValue (last (x # xs))))"
    unfolding buildMutations_def mutation_loop_spec[of ms "[]"] Let_def prod.case append_Nil ..
  have "filter (\<lambda>m. MutOp m = ''setBody'') bs = []" using assms(3) by simp
  then have B: "?B = filter (\<lambda>m. MutOp m = ''setBody'') as @ [m]" using assms(1,2) by simp
  have S: "?S = concat (map ?f as) @ ?l # concat (map ?f bs)"
    unfolding assms(1) using assms(2) by (simp del: mutation_loop.simps) simp
  have hm: "fst (buildMutations ms) = Some \<lparr>SetHeaders = ?S, RemoveHeaders = ?R\<rparr>"
    unfolding M S by (simp del: mutation_loop.simps)
  have "last (filter is_length_option ?S) = ?l"
    if "\<forall>x \<in> set bs. MutOp x \<in> {''setHeader'', ''appendHeader''} \<longrightarrow> \<not> names_length (MutName x)"
  proof -
    have "is_length_option ?l" by (simp add: is_length_option_def set_option_def length_names)
    then show ?thesis unfolding S using no_length_options[OF assms(3) that]
      by (simp del: mutation_loop.simps)
  qed
  moreover have "is_length_option = (\<lambda>h. ToLower (OptKey h) = ''content-length'')"
    by (simp add: is_length_option_def names_length_def fun_eq_iff)
  moreover have "snd (buildMutations ms) = Some (MutValue m)"
    unfolding M B by (cases "filter (\<lambda>m. MutOp m = ''setBody'') as") (simp_all del: mutation_loop.simps)
  ultimately show ?thesis using hm by (simp add: names_length_def set_option_def del: mutation_loop.simps)
qed

theorem body_and_length_agree_witness:
  "\<exists>hm. fst (buildMutations [(resolved_zero ''setBody'' ''g/r'' False)\<lparr>MutValue := ''hello''\<rparr>]) = Some hm \<and>
     last (filter (\<lambda>h. ToLower (OptKey h) = ''content-length'') (SetHeaders hm)) =
       \<lparr>OptKey = ''content-length'', OptRawValue = Itoa (int (length ''hello'')),
        AppendAction = OVERWRITE_IF_EXISTS_OR_ADD\<rparr>"
proof -
  let ?m = "(resolved_zero ''setBody'' ''g/r'' False)\<lparr>MutValue := ''hello''\<rparr>"
  have "[?m] = [] @ ?m # []" "MutOp ?m = ''setBody''" "\<forall>x \<in> set ([] :: resolvedMutation list). MutOp x \<noteq> ''setBody''"
    by (simp_all add: resolved_zero_def)
  from body_and_length_agree[OF this] show ?thesis by simp
qed

text \<open>C28: The request that the phases see. Method and scheme are the last values of their pseudo headers; the host is
  the last value of :authority, or the Host header when there is none; every other header is found under its name
  with all its values in the order of the message; the path and the query are the two sides of the first question
  mark of the :path pseudo header. The address of the client is the trimmed first element of X-Forwarded-For (all of
  it when it begins with a comma), or else the trimmed X-Real-Ip, or else empty; and the body is empty.\<close>

theorem parsed_request_faithful:
  "let r = parseRequestHeaders (Some hvs);
       authority = pseudo_value '':authority'' hvs [];
       xff = HdrGet (Headers r) ''X-Forwarded-For''
   in Method r = pseudo_value '':method'' hvs [] \<and> Scheme r = pseudo_value '':scheme'' hvs [] \<and>
      Host r = (if authority = [] then HdrGet (Headers r) ''Host'' else authority) \<and>
      HdrValues (Headers r) k =
        map snd (filter (\<lambda>(k', _). CanonicalHeaderKey k' = CanonicalHeaderKey k) (plain_headers hvs)) \<and>
      CHR ''?'' \<notin> set (Path r) \<and>
      (pseudo_value '':path'' hvs [] = Path r @ ''?'' @ RawQuery r \<or>
       pseudo_value '':path'' hvs [] = Path r \<and> RawQuery r = []) \<and>
      RemoteIP r = TrimSpace
        (if xff = [] then HdrGet (Headers r) ''X-Real-Ip''
         else if hd xff = CHR '','' then xff else takeWhile (\<lambda>c. c \<noteq> CHR '','') xff) \<and>
      Body r = []"
proof -
  let ?ps = "\<lparr>PsMethod = [], PsScheme = [], PsAuthority = [], PsPath = []\<rparr>"
  obtain ps h where l: "request_loop hvs (?ps, []) = (ps, h)" by (cases "request_loop hvs (?ps, [])")
  obtain path q where sp: "split_path (PsPath ps) = (path, q)" by (cases "split_path (PsPath ps)")
  have r: "parseRequestHeaders (Some hvs) =
      \<lparr>Method = PsMethod ps, Scheme = PsScheme ps,
       Host = (if PsAuthority ps = [] then HdrGet h ''Host'' else PsAuthority ps),
       Path = path, RawQuery = q, RemoteIP = extractClientIP h, Headers = h, Body = []\<rparr>"
    using l sp by (simp add: parseRequestHeaders_def)
  have "h = fold (\<lambda>(k, v). HdrAdd k v) (plain_headers hvs) []"
    using request_loop_headers[of hvs ?ps "[]"] l by simp
  then have v: "HdrValues h k =
      map snd (filter (\<lambda>(k', _). CanonicalHeaderKey k' = CanonicalHeaderKey k) (plain_headers hvs))"
    using hdr.values_collect[of "plain_headers hvs" k] by simp
  show ?thesis
    using request_loop_pseudo[of hvs ?ps "[]"] split_path_join[OF sp] l
    by (simp add: Let_def r v extractClientIP_first)
qed

end
