(* ===== verification/Reload.thy ===== *)
theory Reload
  imports Httpserver Grpcserver
begin

text \<open>
  \<^verbatim>\<open>cmd/main.go\<close>: the start of the program, the reload of the policy and the shutdown. Policies live in
  a heap, and the servers hold addresses. A reload is a goroutine that runs through the atomic
  actions of \<^verbatim>\<open>reload\<close>; any number of them may be under way, because the watcher starts one per
  expired timer, whereas the signal handler starts the next one only when the last is done.
\<close>

section \<open>The state\<close>

record flags =
  configPath :: string
  levelFlag :: string
  formatFlag :: string
  buildVersion :: string

text \<open>What the outside gives to one action: files, environment variables and the network.\<close>

record world =
  ReadFile :: "string \<Rightarrow> string + string"
  Getenv :: "string \<Rightarrow> string"
  HttpGet :: "urlspec \<Rightarrow> string + string"

datatype main_error = LoadFailed load_error | StartFailed fact_error | LoggingFailed log_error

text \<open>A log call: a record, or a record with the error whose text is its last attribute.\<close>

datatype main_log = Logged logrec | LoggedError logrec main_error

datatype pc =
    PcLoad
  | PcStart nat
  | PcApply nat
  | PcHttp nat
  | PcGrpc nat "nat option"
  | PcStop nat "nat option"
  | PcWait nat nat
  | PcLog nat
  | PcDone
  | PcPanic

text \<open>\<open>installed\<close> and \<open>stopped\<close> record the calls of \<^verbatim>\<open>srv.SetPolicy\<close> (and of \<^verbatim>\<open>httpserver.New\<close>) and of
  \<^verbatim>\<open>Stop\<close>, oldest first.\<close>

record ('e, 'c) sys =
  heap :: "('e, 'c) config list"
  srv :: "nat http_server"
  gsrv :: "nat grpc_server"
  logger :: log_state
  logs :: "main_log list"
  threads :: "(string \<times> pc) list"
  installed :: "nat list"
  stopped :: "nat list"

section \<open>Operations\<close>

definition applyLogging :: "logging \<Rightarrow> string \<Rightarrow> string \<Rightarrow> log_state \<Rightarrow> log_state \<times> main_log list" where
  "applyLogging lg level format st =
     (let lvl = (if level \<noteq> [] then level else Level lg);
          fmtName = (if format \<noteq> [] then format else Format lg)
      in case Configure lvl fmtName st of
           (None, st') \<Rightarrow> (st', [])
         | (Some e, st') \<Rightarrow>
             (st', [LoggedError \<lparr>LLevel = LevelError,
                      LMsg = ''invalid logging configuration; keeping previous'', LAttrs = []\<rparr>
                    (LoggingFailed e)]))"

definition logLoaded :: "flags \<Rightarrow> string \<Rightarrow> ('e, 'c) config \<Rightarrow> attr list \<Rightarrow> main_log" where
  "logLoaded fl msg c extra =
     (let rules = sum_list (map (\<lambda>g. length (Rules g)) (Groups c))
      in Logged \<lparr>LLevel = LevelInfo, LMsg = msg,
           LAttrs = [AString ''version'' (buildVersion fl), AString ''path'' (configPath fl),
             AInt ''groups'' (int (length (Groups c))), AInt ''rules'' (int rules),
             AString ''default'' (Action (ExtAuthz (Defaults c)))] @ extra\<rparr>)"

definition reload_failed :: "string \<Rightarrow> main_error \<Rightarrow> main_log" where
  "reload_failed source e =
     LoggedError \<lparr>LLevel = LevelError, LMsg = ''reload failed; keeping previous policy'',
       LAttrs = [AString ''source'' source]\<rparr> e"

fun reload_step ::
    "('e, 'a, 'c) cel_lib \<Rightarrow> ('e, 'c) yaml_decoder \<Rightarrow> flags \<Rightarrow> world \<Rightarrow> string \<Rightarrow> pc \<Rightarrow> ('e, 'c) sys \<Rightarrow>
     pc \<times> ('e, 'c) sys" where
  "reload_step lib yaml fl w source PcLoad s =
     (case LoadFile (ReadFile w) (Getenv w) lib yaml (configPath fl) of
        Inl e \<Rightarrow> (PcDone, s\<lparr>logs := logs s @ [reload_failed source (LoadFailed e)]\<rparr>)
      | Inr c \<Rightarrow> (PcStart (length (heap s)), s\<lparr>heap := heap s @ [c]\<rparr>))"
| "reload_step lib yaml fl w source (PcStart a) s =
     (case policy_Start (ReadFile w) (HttpGet w) (heap s ! a) of
        None \<Rightarrow> (PcPanic, s)
      | Some (Some e, c) \<Rightarrow>
          (PcDone, s\<lparr>heap := (heap s)[a := c], logs := logs s @ [reload_failed source (StartFailed e)]\<rparr>)
      | Some (None, c) \<Rightarrow> (PcApply a, s\<lparr>heap := (heap s)[a := c]\<rparr>))"
| "reload_step lib yaml fl w source (PcApply a) s =
     (case applyLogging (Logging (heap s ! a)) (levelFlag fl) (formatFlag fl) (logger s) of
        (st, ls) \<Rightarrow> (PcHttp a, s\<lparr>logger := st, logs := logs s @ ls\<rparr>))"
| "reload_step lib yaml fl w source (PcHttp a) s =
     (case http_SetPolicy (Some a) (srv s) of
        (old, srv') \<Rightarrow> (PcGrpc a old, s\<lparr>srv := srv', installed := installed s @ [a]\<rparr>))"
| "reload_step lib yaml fl w source (PcGrpc a old) s =
     (PcStop a old, s\<lparr>gsrv := snd (grpc_SetPolicy (Some a) (gsrv s))\<rparr>)"
| "reload_step lib yaml fl w source (PcStop a old) s =
     (case old of
        None \<Rightarrow> (PcLog a, s)
      | Some b \<Rightarrow>
          (PcWait a b, s\<lparr>heap := (heap s)[b := policy_Stop (heap s ! b)], stopped := stopped s @ [b]\<rparr>))"
| "reload_step lib yaml fl w source (PcWait a b) s = (PcLog a, s)"
| "reload_step lib yaml fl w source (PcLog a) s =
     (PcDone, s\<lparr>logs := logs s @
        [logLoaded fl ''policy reloaded'' (heap s ! a) [AString ''source'' source]]\<rparr>)"
| "reload_step lib yaml fl w source PcDone s = (PcDone, s)"
| "reload_step lib yaml fl w source PcPanic s = (PcPanic, s)"

text \<open>The last part of \<^verbatim>\<open>Stop\<close> waits for the fetchers of the registry.\<close>

definition drained :: "('e, 'c) config \<Rightarrow> bool" where
  "drained c \<longleftrightarrow> (case cregistry c of None \<Rightarrow> True | Some r \<Rightarrow> running r = [])"

fun can_run :: "pc \<Rightarrow> ('e, 'c) sys \<Rightarrow> bool" where
  "can_run (PcWait a b) s = drained (heap s ! b)"
| "can_run PcDone s = False"
| "can_run PcPanic s = False"
| "can_run _ s = True"

inductive sys_step ::
    "('e, 'a, 'c) cel_lib \<Rightarrow> ('e, 'c) yaml_decoder \<Rightarrow> flags \<Rightarrow> ('e, 'c) sys \<Rightarrow> ('e, 'c) sys \<Rightarrow> bool"
  for lib yaml fl where
  sighup: "\<forall>(src, p) \<in> set (threads s). src = ''sighup'' \<longrightarrow> p = PcDone \<Longrightarrow>
    sys_step lib yaml fl s (s\<lparr>threads := threads s @ [(''sighup'', PcLoad)]\<rparr>)"
| fsnotify: "sys_step lib yaml fl s (s\<lparr>threads := threads s @ [(''fsnotify'', PcLoad)]\<rparr>)"
| run: "threads s = xs @ (src, p) # ys \<Longrightarrow> can_run p s \<Longrightarrow> reload_step lib yaml fl w src p s = (p', s') \<Longrightarrow>
    sys_step lib yaml fl s (s'\<lparr>threads := xs @ (src, p') # ys\<rparr>)"
| fetcher: "a < length (heap s) \<Longrightarrow> cregistry (heap s ! a) = Some r \<Longrightarrow> reg_step r r' \<Longrightarrow>
    cancelled r' = cancelled r \<Longrightarrow>
    sys_step lib yaml fl s (s\<lparr>heap := (heap s)[a := (heap s ! a)\<lparr>cregistry := Some r'\<rparr>]\<rparr>)"

abbreviation sys_steps ::
    "('e, 'a, 'c) cel_lib \<Rightarrow> ('e, 'c) yaml_decoder \<Rightarrow> flags \<Rightarrow> ('e, 'c) sys \<Rightarrow> ('e, 'c) sys \<Rightarrow> bool" where
  "sys_steps lib yaml fl \<equiv> (sys_step lib yaml fl)\<^sup>*\<^sup>*"

text \<open>The start of \<^verbatim>\<open>main\<close>: the first policy is loaded, its logging applied, its facts started, and the
  servers made. An error ends the program.\<close>

definition main_start ::
    "('e, 'a, 'c) cel_lib \<Rightarrow> ('e, 'c) yaml_decoder \<Rightarrow> flags \<Rightarrow> world \<Rightarrow> (main_error + ('e, 'c) sys) go" where
  "main_start lib yaml fl w =
     (case LoadFile (ReadFile w) (Getenv w) lib yaml (configPath fl) of
        Inl e \<Rightarrow> Some (Inl (LoadFailed e))
      | Inr c \<Rightarrow>
          (case applyLogging (Logging c) (levelFlag fl) (formatFlag fl) init_log of
             (st, ls) \<Rightarrow>
               (case policy_Start (ReadFile w) (HttpGet w) c of
                  None \<Rightarrow> None
                | Some (Some e, _) \<Rightarrow> Some (Inl (StartFailed e))
                | Some (None, c') \<Rightarrow>
                    Some (Inr \<lparr>heap = [c'], srv = http_New 0, gsrv = grpc_New 0, logger = st,
                      logs = ls @ [logLoaded fl ''policy loaded'' c' []], threads = [],
                      installed = [0], stopped = []\<rparr>))))"

text \<open>The branch of the signal that stops the program, after the servers were stopped.\<close>

definition main_stop :: "('e, 'c) sys \<Rightarrow> ('e, 'c) sys" where
  "main_stop s =
     (case http_Policy (srv s) of
        None \<Rightarrow> s
      | Some a \<Rightarrow> s\<lparr>heap := (heap s)[a := policy_Stop (heap s ! a)], stopped := stopped s @ [a]\<rparr>)"

section \<open>Policies that can be served\<close>

text \<open>Such a policy was accepted by \<^verbatim>\<open>LoadFile\<close> and its facts have their first values.\<close>

definition serving :: "('e, 'a, 'c) cel_lib \<Rightarrow> ('e, 'c) config \<Rightarrow> bool" where
  "serving lib c \<longleftrightarrow> runnable lib c \<and> (\<exists>r. cregistry c = Some r \<and> ready r \<and> owned r)"

lemma LoadFile_loaded: "LoadFile rf env lib yaml path = Inr c \<Longrightarrow> loaded lib c"
  by (auto simp: LoadFile_def split: sum.splits dest: LoadBytes_loaded)

lemma loaded_runnable: "loaded lib c \<Longrightarrow> runnable lib c"
  by (auto simp: loaded_def runnable_def)

lemma loaded_quiet:
  assumes "loaded lib c"
  shows "\<exists>r. cregistry c = Some r \<and> facts_New (CFacts c) = Inr r \<and> running r = [] \<and> cancels r = []"
proof -
  from assms obtain r where "cregistry c = Some r" "facts_New (CFacts c) = Inr r"
    by (auto simp: loaded_def)
  moreover from this(2) have "running r = []" "cancels r = []"
    by (auto simp: facts_New_def split: sum.splits)
  ultimately show ?thesis by blast
qed

lemma policy_Start_loaded:
  assumes "loaded lib c"
  shows "policy_Start rf get c \<noteq> None"
    "policy_Start rf get c = Some (None, c') \<Longrightarrow> serving lib c'"
proof -
  obtain r where r: "cregistry c = Some r" "facts_New (CFacts c) = Inr r"
    using loaded_quiet[OF assms] by blast
  have W: "wf_registry r" using r(2) by (rule facts_New_wf)
  have "facts_Start rf get r \<noteq> None"
    using start_loop_total[OF covers_entries[OF W] W, of rf get r] by (simp add: facts_Start_def)
  then show "policy_Start rf get c \<noteq> None" using r by (auto simp: policy_Start_def)
  assume "policy_Start rf get c = Some (None, c')"
  then obtain r' where "facts_Start rf get r = Some (None, r')" "c' = c\<lparr>cregistry := Some r'\<rparr>"
    using r by (auto simp: policy_Start_def split: option.splits prod.splits)
  then show "serving lib c'"
    using facts_Start_spec(3,5)[OF r(2)] loaded_runnable[OF assms] by (auto simp: serving_def)
qed

lemma serving_step:
  assumes "serving lib c" "cregistry c = Some r" "reg_step r r'"
  shows "serving lib (c\<lparr>cregistry := Some r'\<rparr>)"
  using assms reg_step_ready reg_step_owned by (auto simp: serving_def)

lemma serving_Stop: "serving lib c \<Longrightarrow> serving lib (policy_Stop c)"
  using serving_step[of lib c _ "stop_cancel _", OF _ _ reg_step.stop]
  by (auto simp: policy_Stop_def split: option.split)

lemma loaded_step:
  assumes "loaded lib c" "cregistry c = Some r" "reg_step r r'" "cancelled r' = cancelled r"
  shows "c\<lparr>cregistry := Some r'\<rparr> = c"
proof -
  have "running r = []" "cancels r = []" using loaded_quiet[OF assms(1)] assms(2) by auto
  with assms(3) have "r' = r"
    by cases (auto simp: stop_cancel_def)
  with assms(2) show ?thesis by simp
qed

section \<open>Invariant\<close>

text \<open>The addresses that only one reload knows yet, and the policies a reload has still to stop.\<close>

fun fresh :: "string \<times> pc \<Rightarrow> nat list" where
  "fresh (_, PcStart a) = [a]"
| "fresh (_, PcApply a) = [a]"
| "fresh (_, PcHttp a) = [a]"
| "fresh _ = []"

fun owes :: "string \<times> pc \<Rightarrow> nat list" where
  "owes (_, PcGrpc a (Some b)) = [b]"
| "owes (_, PcStop a (Some b)) = [b]"
| "owes _ = []"

abbreviation owed :: "('e, 'c) sys \<Rightarrow> nat list" where
  "owed s \<equiv> concat (map owes (threads s))"

fun pc_ok :: "('e, 'a, 'c) cel_lib \<Rightarrow> ('e, 'c) sys \<Rightarrow> pc \<Rightarrow> bool" where
  "pc_ok lib s (PcStart a) = (a < length (heap s) \<and> loaded lib (heap s ! a))"
| "pc_ok lib s (PcApply a) = (a < length (heap s) \<and> serving lib (heap s ! a))"
| "pc_ok lib s (PcHttp a) = (a < length (heap s) \<and> serving lib (heap s ! a))"
| "pc_ok lib s (PcGrpc a b) = (a \<in> set (installed s) \<and> b \<noteq> None)"
| "pc_ok lib s (PcStop a b) = (a \<in> set (installed s) \<and> b \<noteq> None)"
| "pc_ok lib s (PcWait a b) = (b \<in> set (stopped s))"
| "pc_ok lib s PcPanic = False"
| "pc_ok lib s _ = True"

definition sys_inv :: "('e, 'a, 'c) cel_lib \<Rightarrow> ('e, 'c) sys \<Rightarrow> bool" where
  "sys_inv lib s \<longleftrightarrow>
     installed s \<noteq> [] \<and> http_Policy (srv s) = Some (last (installed s)) \<and>
     (\<exists>g \<in> set (installed s). grpc_Policy (gsrv s) = Some g) \<and>
     distinct (installed s @ concat (map fresh (threads s))) \<and>
     (\<forall>a \<in> set (installed s). a < length (heap s) \<and> serving lib (heap s ! a)) \<and>
     (\<forall>t \<in> set (threads s). pc_ok lib s (snd t)) \<and>
     (\<forall>b \<in> set (stopped s). \<exists>r. cregistry (heap s ! b) = Some r \<and> cancels r = []) \<and>
     mset (installed s) = mset (stopped s) + mset (owed s) + {#last (installed s)#}"

lemma sys_invD:
  assumes "sys_inv lib s"
  shows "installed s \<noteq> []" "http_Policy (srv s) = Some (last (installed s))"
    "\<exists>g \<in> set (installed s). grpc_Policy (gsrv s) = Some g"
    "distinct (installed s @ concat (map fresh (threads s)))"
    "\<And>a. a \<in> set (installed s) \<Longrightarrow> a < length (heap s) \<and> serving lib (heap s ! a)"
    "\<And>src p. (src, p) \<in> set (threads s) \<Longrightarrow> pc_ok lib s p"
    "\<And>b. b \<in> set (stopped s) \<Longrightarrow> \<exists>r. cregistry (heap s ! b) = Some r \<and> cancels r = []"
    "mset (installed s) = mset (stopped s) + mset (owed s) + {#last (installed s)#}"
  using assms by (auto simp: sys_inv_def)

lemma sys_inv_stopped: "sys_inv lib s \<Longrightarrow> b \<in> set (stopped s) \<Longrightarrow> b \<in> set (installed s)"
  using sys_invD(8) by (metis UnCI set_mset_mset set_mset_union)

lemma sys_inv_owed: "sys_inv lib s \<Longrightarrow> b \<in> set (owed s) \<Longrightarrow> b \<in> set (installed s)"
  using sys_invD(8) by (metis UnCI set_mset_mset set_mset_union)

text \<open>The content of one policy changes.\<close>

lemma nth_update: "j < length xs \<Longrightarrow> xs[i := x] ! j = (if i = j then x else xs ! j)"
  by (cases "i = j") auto

lemma pc_ok_heap:
  assumes "pc_ok lib s p" "serving lib (heap s ! a) \<Longrightarrow> serving lib c"
    "p = PcStart a \<Longrightarrow> loaded lib c"
  shows "pc_ok lib (s\<lparr>heap := (heap s)[a := c]\<rparr>) p"
  using assms by (cases p) (auto simp: nth_update)

lemma sys_inv_heap:
  assumes inv: "sys_inv lib s" and srv: "serving lib (heap s ! a) \<Longrightarrow> serving lib c"
    and start: "\<And>src. (src, PcStart a) \<in> set (threads s) \<Longrightarrow> loaded lib c"
    and stop: "a \<in> set (stopped s) \<Longrightarrow> \<exists>r. cregistry c = Some r \<and> cancels r = []"
  shows "sys_inv lib (s\<lparr>heap := (heap s)[a := c]\<rparr>)"
proof -
  have "\<forall>b \<in> set (installed s). b < length (heap s) \<and> serving lib ((heap s)[a := c] ! b)"
    using sys_invD(5)[OF inv] srv by (auto simp: nth_update)
  moreover have "\<forall>t \<in> set (threads s). pc_ok lib (s\<lparr>heap := (heap s)[a := c]\<rparr>) (snd t)"
  proof
    fix t assume t: "t \<in> set (threads s)"
    then have "pc_ok lib s (snd t)" using sys_invD(6)[OF inv, of "fst t" "snd t"] by simp
    moreover have "snd t = PcStart a \<Longrightarrow> loaded lib c" using start[of "fst t"] t by (cases t) auto
    ultimately show "pc_ok lib (s\<lparr>heap := (heap s)[a := c]\<rparr>) (snd t)"
      using srv by (intro pc_ok_heap)
  qed
  moreover have "\<forall>b \<in> set (stopped s). \<exists>r. cregistry ((heap s)[a := c] ! b) = Some r \<and> cancels r = []"
    using sys_invD(7)[OF inv] stop by (metis list_update_beyond not_le nth_list_update)
  ultimately show ?thesis using inv by (simp add: sys_inv_def)
qed

text \<open>A fresh policy is not installed, and the two kinds of thread actions keep to that.\<close>

lemma fresh_not_installed:
  assumes "sys_inv lib s" "threads s = xs @ t # ys" "a \<in> set (fresh t)"
  shows "a \<notin> set (installed s)" "a \<notin> set (stopped s)"
    "\<And>u. u \<in> set xs \<union> set ys \<Longrightarrow> a \<notin> set (fresh u)"
proof -
  show ni: "a \<notin> set (installed s)" using sys_invD(4)[OF assms(1)] assms(2,3) by auto
  with sys_inv_stopped[OF assms(1)] show "a \<notin> set (stopped s)" by blast
  show "\<And>u. u \<in> set xs \<union> set ys \<Longrightarrow> a \<notin> set (fresh u)"
    using sys_invD(4)[OF assms(1)] assms(2,3) by auto
qed

text \<open>One thread moves on without a change of the slots: it keeps its fresh address or gives it up.\<close>

lemma sys_inv_move:
  assumes inv: "sys_inv lib s" and th: "threads s = xs @ t # ys"
    and fr: "fresh t' = fresh t \<or> fresh t' = []" and ow: "owes t' = owes t"
    and ok: "pc_ok lib s (snd t')"
  shows "sys_inv lib (s\<lparr>threads := xs @ t' # ys\<rparr>)"
proof -
  have "pc_ok lib (s\<lparr>threads := ts\<rparr>) p = pc_ok lib s p" for ts p by (cases p) auto
  moreover have "distinct (installed s @ concat (map fresh (xs @ t' # ys)))"
    using sys_invD(4)[OF inv] fr unfolding th by auto
  ultimately show ?thesis using inv ok by (auto simp: sys_inv_def th ow)
qed

lemma pc_ok_grow [simp]:
  "pc_ok lib s p \<Longrightarrow> pc_ok lib (s\<lparr>heap := heap s @ [c]\<rparr>) p"
  by (cases p) (auto simp: nth_append)

lemma sys_inv_append:
  assumes "sys_inv lib s"
  shows "sys_inv lib (s\<lparr>threads := threads s @ [(src, PcLoad)]\<rparr>)"
proof -
  have "pc_ok lib (s\<lparr>threads := ts\<rparr>) p = pc_ok lib s p" for ts p by (cases p) auto
  then show ?thesis using assms by (auto simp: sys_inv_def)
qed

lemma sys_inv_cong:
  assumes "heap s' = heap s" "srv s' = srv s" "gsrv s' = gsrv s" "threads s' = threads s"
    "installed s' = installed s" "stopped s' = stopped s"
  shows "sys_inv lib s' = sys_inv lib s"
proof -
  have "pc_ok lib s' p = pc_ok lib s p" for p using assms by (cases p) simp_all
  with assms show ?thesis by (simp add: sys_inv_def)
qed

lemma sys_inv_logging [simp]:
  "sys_inv lib (s\<lparr>logs := ls, threads := ts\<rparr>) = sys_inv lib (s\<lparr>threads := ts\<rparr>)"
  "sys_inv lib (s\<lparr>heap := h, logs := ls, threads := ts\<rparr>) = sys_inv lib (s\<lparr>heap := h, threads := ts\<rparr>)"
  "sys_inv lib (s\<lparr>logger := l, threads := ts\<rparr>) = sys_inv lib (s\<lparr>threads := ts\<rparr>)"
  "sys_inv lib (s\<lparr>logger := l, logs := ls, threads := ts\<rparr>) = sys_inv lib (s\<lparr>threads := ts\<rparr>)"
  by (rule sys_inv_cong; simp)+

text \<open>The actions of a reload, one by one.\<close>

lemma inv_load:
  assumes inv: "sys_inv lib s" and th: "threads s = xs @ (src, PcLoad) # ys" and c: "loaded lib c"
  shows "sys_inv lib (s\<lparr>heap := heap s @ [c], threads := xs @ (src, PcStart (length (heap s))) # ys\<rparr>)"
proof -
  have lt: "a < length (heap s)" if "a \<in> set (installed s @ concat (map fresh (threads s)))" for a
  proof -
    have "pc_ok lib s (snd t) \<Longrightarrow> a \<in> set (fresh t) \<Longrightarrow> a < length (heap s)" for t
      by (cases t rule: fresh.cases) auto
    with that show ?thesis using sys_invD(5,6)[OF inv] by fastforce
  qed
  have "distinct (installed s @ concat (map fresh (xs @ (src, PcStart (length (heap s))) # ys)))"
    using sys_invD(4)[OF inv] lt unfolding th by auto
  moreover have "\<forall>b \<in> set (stopped s). \<exists>r. cregistry ((heap s @ [c]) ! b) = Some r \<and> cancels r = []"
    using sys_invD(5,7)[OF inv] sys_inv_stopped[OF inv] by (metis nth_append)
  moreover have "pc_ok lib (s\<lparr>heap := h, threads := ts\<rparr>) p = pc_ok lib (s\<lparr>heap := h\<rparr>) p" for h ts p
    by (cases p) auto
  ultimately show ?thesis using inv c by (auto simp: sys_inv_def th nth_append)
qed

lemma inv_start:
  assumes inv: "sys_inv lib s" and th: "threads s = xs @ (src, PcStart a) # ys"
    and p': "p' = PcDone \<or> p' = PcApply a \<and> serving lib c"
  shows "sys_inv lib (s\<lparr>heap := (heap s)[a := c], threads := xs @ (src, p') # ys\<rparr>)"
proof -
  let ?s = "s\<lparr>threads := xs @ (src, PcDone) # ys\<rparr>"
  note no = fresh_not_installed[OF inv th, of a, simplified]
  have a: "a < length (heap s)" using sys_invD(6)[OF inv, of src "PcStart a"] th by simp
  have old: "pc_ok lib ?s p = pc_ok lib s p" for p by (cases p) auto
  have "pc_ok lib (s\<lparr>heap := (heap s)[a := c], threads := xs @ (src, p') # ys\<rparr>) (snd u)"
    if "u \<in> set xs \<union> set ys" for u
  proof -
    have "pc_ok lib s (snd u)" using sys_invD(6)[OF inv, of "fst u" "snd u"] that th by auto
    moreover have "a \<notin> set (fresh u)" using no(3) that by blast
    ultimately show ?thesis by (cases u rule: fresh.cases) (auto simp: nth_update)
  qed
  moreover have "distinct (installed s @ concat (map fresh (xs @ (src, p') # ys)))"
    using sys_invD(4)[OF inv] p' unfolding th by auto
  moreover have "pc_ok lib (s\<lparr>heap := (heap s)[a := c], threads := xs @ (src, p') # ys\<rparr>) p'"
    using p' a by auto
  moreover have "\<forall>b \<in> set (installed s). b < length (heap s) \<and> serving lib ((heap s)[a := c] ! b)"
    using sys_invD(5)[OF inv] no(1) by (auto simp: nth_update)
  moreover have "\<forall>b \<in> set (stopped s). \<exists>r. cregistry ((heap s)[a := c] ! b) = Some r \<and> cancels r = []"
    using sys_invD(7)[OF inv] no(2) by (metis nth_list_update_neq)
  moreover have "owes (src, p') = []" using p' by auto
  ultimately show ?thesis using inv by (auto simp: sys_inv_def th)
qed

lemma inv_http:
  assumes inv: "sys_inv lib s" and th: "threads s = xs @ (src, PcHttp a) # ys"
  shows "sys_inv lib (s\<lparr>srv := snd (http_SetPolicy (Some a) (srv s)), installed := installed s @ [a],
    threads := xs @ (src, PcGrpc a (fst (http_SetPolicy (Some a) (srv s)))) # ys\<rparr>)"
proof -
  have old: "fst (http_SetPolicy (Some a) (srv s)) = Some (last (installed s))"
    using sys_invD(2)[OF inv] by (simp add: http_slot.swap_old)
  have "pc_ok lib s p \<Longrightarrow> pc_ok lib (s\<lparr>srv := x, installed := installed s @ [a], threads := ts\<rparr>) p" for x ts p
    by (cases p) auto
  moreover have "a < length (heap s) \<and> serving lib (heap s ! a)"
    using sys_invD(6)[OF inv, of src "PcHttp a"] th by simp
  moreover have "distinct ((installed s @ [a]) @ concat (map fresh (xs @ (src, PcGrpc a None) # ys)))"
    using sys_invD(4)[OF inv] unfolding th by auto
  ultimately show ?thesis using inv unfolding old by (auto simp: sys_inv_def th http_slot.load_swap)
qed

lemma inv_grpc:
  assumes inv: "sys_inv lib s" and th: "threads s = xs @ (src, PcGrpc a old) # ys"
  shows "sys_inv lib (s\<lparr>gsrv := snd (grpc_SetPolicy (Some a) (gsrv s)),
    threads := xs @ (src, PcStop a old) # ys\<rparr>)"
proof -
  have "pc_ok lib (s\<lparr>gsrv := x, threads := ts\<rparr>) p = pc_ok lib s p" for x ts p by (cases p) auto
  moreover have "owes (src, PcStop a old) = owes (src, PcGrpc a old)" by (cases old) auto
  ultimately show ?thesis
    using inv sys_invD(6)[OF inv, of src "PcGrpc a old"] by (auto simp: sys_inv_def th grpc_slot.load_swap)
qed

lemma inv_stop:
  assumes inv: "sys_inv lib s" and th: "threads s = xs @ (src, PcStop a (Some b)) # ys"
  shows "sys_inv lib (s\<lparr>heap := (heap s)[b := policy_Stop (heap s ! b)], stopped := stopped s @ [b],
    threads := xs @ (src, PcWait a b) # ys\<rparr>)"
proof -
  have b: "b \<in> set (installed s)" using sys_inv_owed[OF inv, of b] th by simp
  then have sb: "b < length (heap s)" "serving lib (heap s ! b)" using sys_invD(5)[OF inv] by auto
  then obtain r where r: "cregistry (policy_Stop (heap s ! b)) = Some r" "cancels r = []"
    by (auto simp: serving_def policy_Stop_def stop_cancel_def)
  have nf: "p \<noteq> PcStart b" if "(src', p) \<in> set (threads s)" for src' p
    using sys_invD(4)[OF inv] b that by fastforce
  have I: "sys_inv lib (s\<lparr>heap := (heap s)[b := policy_Stop (heap s ! b)]\<rparr>)" (is "sys_inv lib ?s")
    using r nf by (intro sys_inv_heap[OF inv] serving_Stop) blast+
  have "pc_ok lib t p \<Longrightarrow> pc_ok lib (t\<lparr>stopped := stopped t @ [b], threads := ts\<rparr>) p"
    for ts p t
    by (cases p) auto
  note ok = this[of ?s]
  have "mset (installed s) = mset (stopped s @ [b]) + mset (concat (map owes (xs @ (src, PcWait a b) # ys))) +
      {#last (installed s)#}"
    using sys_invD(8)[OF inv] by (simp add: th)
  moreover have "cregistry ((heap s)[b := policy_Stop (heap s ! b)] ! b) = Some r" using r sb by simp
  ultimately show ?thesis using I r ok by (auto simp: sys_inv_def th)
qed

lemma inv_run:
  assumes inv: "sys_inv lib s" and th: "threads s = xs @ (src, p) # ys"
    and st: "reload_step lib yaml fl w src p s = (p', s')"
  shows "sys_inv lib (s'\<lparr>threads := xs @ (src, p') # ys\<rparr>)"
proof -
  have ok: "pc_ok lib s p" using sys_invD(6)[OF inv, of src p] th by simp
  note move = sys_inv_move[OF inv th]
  show ?thesis
  proof (cases p)
    case PcLoad
    with th have th: "threads s = xs @ (src, PcLoad) # ys" by simp
    show ?thesis
    proof (cases "LoadFile (ReadFile w) (Getenv w) lib yaml (configPath fl)")
      case (Inl e)
      with PcLoad st move[of "(src, PcDone)"] show ?thesis by auto
    next
      case (Inr c)
      with PcLoad st inv_load[OF inv th LoadFile_loaded[OF Inr]] show ?thesis by auto
    qed
  next
    case (PcStart a)
    with th ok have th: "threads s = xs @ (src, PcStart a) # ys" and l: "loaded lib (heap s ! a)" by auto
    obtain err c where S: "policy_Start (ReadFile w) (HttpGet w) (heap s ! a) = Some (err, c)"
      using policy_Start_loaded(1)[OF l] by fastforce
    show ?thesis
    proof (cases err)
      case None
      with policy_Start_loaded(2)[OF l] S have "serving lib c" by simp
      with inv_start[OF inv th, of "PcApply a" c] PcStart st S None show ?thesis by auto
    next
      case (Some e)
      with inv_start[OF inv th, of PcDone c] PcStart st S show ?thesis by auto
    qed
  next
    case (PcApply a)
    with st move[of "(src, PcHttp a)"] ok show ?thesis by (auto split: prod.splits)
  next
    case (PcHttp a)
    with st inv_http[OF inv th[unfolded PcHttp]] show ?thesis by (auto split: prod.splits)
  next
    case (PcGrpc a old)
    with st inv_grpc[OF inv th[unfolded PcGrpc]] show ?thesis by auto
  next
    case (PcStop a old)
    with ok obtain b where "old = Some b" by auto
    with PcStop st inv_stop[OF inv, of xs src a b ys] th show ?thesis by auto
  next
    case (PcWait a b)
    with st move[of "(src, PcLog a)"] show ?thesis by auto
  next
    case (PcLog a)
    with st move[of "(src, PcDone)"] show ?thesis by auto
  next
    case PcDone
    with st move[of "(src, PcDone)"] show ?thesis by auto
  qed (use ok in auto)
qed

lemma inv_fetcher:
  assumes inv: "sys_inv lib s" and r: "cregistry (heap s ! a) = Some r" "reg_step r r'"
    "cancelled r' = cancelled r"
  shows "sys_inv lib (s\<lparr>heap := (heap s)[a := (heap s ! a)\<lparr>cregistry := Some r'\<rparr>]\<rparr>)"
proof (rule sys_inv_heap[OF inv])
  show "serving lib (heap s ! a) \<Longrightarrow> serving lib ((heap s ! a)\<lparr>cregistry := Some r'\<rparr>)"
    using serving_step[OF _ r(1,2)] .
  show "(src, PcStart a) \<in> set (threads s) \<Longrightarrow> loaded lib ((heap s ! a)\<lparr>cregistry := Some r'\<rparr>)" for src
    using sys_invD(6)[OF inv, of src "PcStart a"] loaded_step[of lib, OF _ r] by auto
  assume "a \<in> set (stopped s)"
  with sys_invD(7)[OF inv, of a] r(1) have "cancels r = []" by auto
  with r(2) have "cancels r' = []"
    by cases (auto simp: stop_cancel_def refresh_def store_value_def split: option.splits sum.splits)
  then show "\<exists>q. cregistry ((heap s ! a)\<lparr>cregistry := Some r'\<rparr>) = Some q \<and> cancels q = []" by simp
qed

lemma sys_step_inv: "sys_step lib yaml fl s s' \<Longrightarrow> sys_inv lib s \<Longrightarrow> sys_inv lib s'"
  by (erule sys_step.cases) (auto intro: sys_inv_append inv_run inv_fetcher)

lemma sys_steps_inv: "sys_steps lib yaml fl s s' \<Longrightarrow> sys_inv lib s \<Longrightarrow> sys_inv lib s'"
  by (induction rule: rtranclp_induct) (auto intro: sys_step_inv)

lemma main_start_inv:
  assumes "main_start lib yaml fl w = Some (Inr s)"
  shows "sys_inv lib s"
proof -
  obtain c st ls where L: "LoadFile (ReadFile w) (Getenv w) lib yaml (configPath fl) = Inr c"
    and A: "applyLogging (Logging c) (levelFlag fl) (formatFlag fl) init_log = (st, ls)"
    using assms by (cases "LoadFile (ReadFile w) (Getenv w) lib yaml (configPath fl)")
      (auto simp: main_start_def split: prod.splits)
  then obtain c' where S: "policy_Start (ReadFile w) (HttpGet w) c = Some (None, c')"
    and s: "heap s = [c']" "srv s = http_New 0" "gsrv s = grpc_New 0" "threads s = []"
      "installed s = [0]" "stopped s = []"
    using assms by (auto simp: main_start_def split: option.splits prod.splits)
  have "serving lib c'" using policy_Start_loaded(2)[OF LoadFile_loaded[OF L] S] .
  then show ?thesis
    by (simp add: sys_inv_def s http_New_def grpc_New_def http_Policy_def grpc_Policy_def)
qed

lemma run_inv:
  assumes "main_start lib yaml fl w = Some (Inr s0)" "sys_steps lib yaml fl s0 s"
  shows "sys_inv lib s"
  using sys_steps_inv[OF assms(2) main_start_inv[OF assms(1)]] .

section \<open>Every reload can finish\<close>

text \<open>The fetchers of a stopped policy can all return.\<close>

lemma drain_policy:
  assumes "a < length (heap s)" "cregistry (heap s ! a) = Some r" "set (running r) \<subseteq> set (cancelled r)"
  shows "\<exists>s'. sys_steps lib yaml fl s s' \<and> threads s' = threads s \<and> drained (heap s' ! a)"
  using assms
proof (induction "running r" arbitrary: s r)
  case Nil
  then have "drained (heap s ! a)" by (simp add: drained_def)
  then show ?case by blast
next
  case (Cons n ns)
  let ?r = "r\<lparr>running := ns\<rparr>"
  let ?s = "s\<lparr>heap := (heap s)[a := (heap s ! a)\<lparr>cregistry := Some ?r\<rparr>]\<rparr>"
  have "reg_step r ?r"
    using reg_step.return[of n r] Cons.hyps(2)[symmetric] Cons.prems(3) by simp
  then have "sys_step lib yaml fl s ?s" using Cons.prems(1,2) by (intro fetcher) auto
  moreover have "\<exists>s'. sys_steps lib yaml fl ?s s' \<and> threads s' = threads ?s \<and> drained (heap s' ! a)"
    using Cons.prems Cons.hyps(2)[symmetric] by (intro Cons.hyps(1)[of ?r]) auto
  ultimately show ?case by (auto intro: converse_rtranclp_into_rtranclp)
qed

lemma wait_ends:
  assumes inv: "sys_inv lib s" and b: "b \<in> set (stopped s)"
  shows "\<exists>s'. sys_steps lib yaml fl s s' \<and> threads s' = threads s \<and> drained (heap s' ! b)"
proof -
  have "b < length (heap s) \<and> serving lib (heap s ! b)"
    using sys_invD(5)[OF inv] sys_inv_stopped[OF inv b] by blast
  moreover obtain r where "cregistry (heap s ! b) = Some r" "cancels r = []"
    using sys_invD(7)[OF inv b] by blast
  ultimately show ?thesis by (intro drain_policy[of _ _ r]) (auto simp: serving_def owned_def)
qed

fun steps_left :: "pc \<Rightarrow> nat" where
  "steps_left PcLoad = 8"
| "steps_left (PcStart _) = 7"
| "steps_left (PcApply _) = 6"
| "steps_left (PcHttp _) = 5"
| "steps_left (PcGrpc _ _) = 4"
| "steps_left (PcStop _ _) = 3"
| "steps_left (PcWait _ _) = 2"
| "steps_left (PcLog _) = 1"
| "steps_left PcDone = 0"
| "steps_left PcPanic = 0"

lemma reload_step_left:
  assumes "reload_step lib yaml fl w src p s = (p', s')" "p \<noteq> PcDone" "p \<noteq> PcPanic"
  shows "steps_left p' < steps_left p"
  using assms by (cases p) (auto split: sum.splits option.splits prod.splits)

lemma thread_moves:
  assumes inv: "sys_inv lib s" and th: "threads s = xs @ (src, p) # ys" and p: "p \<noteq> PcDone"
  shows "\<exists>s' p'. sys_steps lib yaml fl s s' \<and> threads s' = xs @ (src, p') # ys \<and> steps_left p' < steps_left p"
proof -
  have ok: "pc_ok lib s p" using sys_invD(6)[OF inv, of src p] th by simp
  have "\<exists>t. sys_steps lib yaml fl s t \<and> threads t = threads s \<and> can_run p t"
  proof (cases p)
    case (PcWait a b)
    with ok wait_ends[OF inv, of b yaml fl] show ?thesis by auto
  qed (use p ok in auto)
  then obtain t where t: "sys_steps lib yaml fl s t" "threads t = xs @ (src, p) # ys" "can_run p t"
    using th by auto
  define w :: world where "w = \<lparr>ReadFile = \<lambda>_. Inl [], Getenv = \<lambda>_. [], HttpGet = \<lambda>_. Inl []\<rparr>"
  obtain p' t' where r: "reload_step lib yaml fl w src p t = (p', t')" by fastforce
  have "sys_step lib yaml fl t (t'\<lparr>threads := xs @ (src, p') # ys\<rparr>)" using t(2,3) r by (rule run)
  moreover have "steps_left p' < steps_left p" using r p ok by (intro reload_step_left) auto
  ultimately show ?thesis using t(1)
    by (intro exI[of _ "t'\<lparr>threads := xs @ (src, p') # ys\<rparr>"] exI[of _ p']) auto
qed

lemma thread_finishes:
  assumes "sys_inv lib s" "threads s = xs @ (src, p) # ys"
  shows "\<exists>s'. sys_steps lib yaml fl s s' \<and> threads s' = xs @ (src, PcDone) # ys"
  using assms
proof (induction "steps_left p" arbitrary: s p rule: less_induct)
  case less
  show ?case
  proof (cases "p = PcDone")
    case True
    with less.prems show ?thesis by blast
  next
    case False
    obtain s' p' where s': "sys_steps lib yaml fl s s'" "threads s' = xs @ (src, p') # ys"
      "steps_left p' < steps_left p"
      using thread_moves[OF less.prems False] by blast
    have "sys_inv lib s'" using sys_steps_inv[OF s'(1) less.prems(1)] .
    from less.hyps[OF s'(3) this s'(2)] s'(1) show ?thesis by (meson rtranclp_trans)
  qed
qed

lemma threads_finish:
  assumes "sys_inv lib s" "threads s = xs @ ys"
  shows "\<exists>s'. sys_steps lib yaml fl s s' \<and> threads s' = xs @ map (\<lambda>(src, _). (src, PcDone)) ys"
  using assms
proof (induction ys arbitrary: s xs)
  case (Cons y ys)
  obtain src p where y: "y = (src, p)" by fastforce
  obtain s1 where s1: "sys_steps lib yaml fl s s1" "threads s1 = xs @ (src, PcDone) # ys"
    using thread_finishes[OF Cons.prems(1)] Cons.prems(2) unfolding y by blast
  from Cons.IH[of s1 "xs @ [(src, PcDone)]"] sys_steps_inv[OF s1(1) Cons.prems(1)] s1(2)
  obtain s2 where "sys_steps lib yaml fl s1 s2"
    "threads s2 = xs @ (src, PcDone) # map (\<lambda>(src, _). (src, PcDone)) ys" by auto
  with s1(1) y show ?case by (intro exI[of _ s2]) auto
qed auto

section \<open>A reload with nothing beside it\<close>

text \<open>The whole of \<^verbatim>\<open>reload\<close>: at most eight actions, from the first to the last. The wait of \<^verbatim>\<open>Stop\<close> for the fetchers of
  the replaced policy changes nothing in the state, and is taken to be over; that it comes to an end is shown of
  the steps.\<close>

fun run_reload ::
    "nat \<Rightarrow> ('e, 'a, 'c) cel_lib \<Rightarrow> ('e, 'c) yaml_decoder \<Rightarrow> flags \<Rightarrow> world \<Rightarrow> string \<Rightarrow> pc \<Rightarrow> ('e, 'c) sys \<Rightarrow>
     pc \<times> ('e, 'c) sys" where
  "run_reload 0 lib yaml fl w source p s = (p, s)"
| "run_reload (Suc n) lib yaml fl w source p s =
     (case reload_step lib yaml fl w source p s of (p', s') \<Rightarrow> run_reload n lib yaml fl w source p' s')"

definition reload ::
    "('e, 'a, 'c) cel_lib \<Rightarrow> ('e, 'c) yaml_decoder \<Rightarrow> flags \<Rightarrow> world \<Rightarrow> string \<Rightarrow> ('e, 'c) sys \<Rightarrow>
     pc \<times> ('e, 'c) sys" where
  "reload lib yaml fl w source s = run_reload 8 lib yaml fl w source PcLoad s"

lemma run_reload_done: "run_reload n lib yaml fl w src PcDone s = (PcDone, s)"
  by (induction n) auto

lemma reload_load_fails:
  assumes "LoadFile (ReadFile w) (Getenv w) lib yaml (configPath fl) = Inl e"
  shows "reload lib yaml fl w src s = (PcDone, s\<lparr>logs := logs s @ [reload_failed src (LoadFailed e)]\<rparr>)"
  using assms by (simp add: reload_def numeral_eq_Suc run_reload_done)

lemma reload_start_fails:
  assumes "LoadFile (ReadFile w) (Getenv w) lib yaml (configPath fl) = Inr c"
    "policy_Start (ReadFile w) (HttpGet w) c = Some (Some e, c')"
  shows "reload lib yaml fl w src s =
    (PcDone, s\<lparr>heap := heap s @ [c'], logs := logs s @ [reload_failed src (StartFailed e)]\<rparr>)"
  using assms by (simp add: reload_def numeral_eq_Suc run_reload_done)

lemma reload_succeeds:
  assumes "LoadFile (ReadFile w) (Getenv w) lib yaml (configPath fl) = Inr c"
    "policy_Start (ReadFile w) (HttpGet w) c = Some (None, c')"
    "applyLogging (Logging c') (levelFlag fl) (formatFlag fl) (logger s) = (st, ls)"
    "http_Policy (srv s) = Some old" "old < length (heap s)"
  shows "reload lib yaml fl w src s =
    (PcDone, s\<lparr>heap := (heap s)[old := policy_Stop (heap s ! old)] @ [c'],
       srv := (srv s)\<lparr>httpPolicy := Some (length (heap s))\<rparr>,
       gsrv := (gsrv s)\<lparr>grpcPolicy := Some (length (heap s))\<rparr>,
       logger := st,
       logs := logs s @ ls @ [logLoaded fl ''policy reloaded'' c' [AString ''source'' src]],
       installed := installed s @ [length (heap s)], stopped := stopped s @ [old]\<rparr>)"
  using assms
  by (simp add: reload_def numeral_eq_Suc run_reload_done http_SetPolicy_def grpc_SetPolicy_def
      http_Policy_def nth_append list_update_append)

section \<open>Schedules\<close>

text \<open>A run of given threads, in the given order, for the concrete executions below.\<close>

fun schedule ::
    "('e, 'a, 'c) cel_lib \<Rightarrow> ('e, 'c) yaml_decoder \<Rightarrow> flags \<Rightarrow> world \<Rightarrow> nat list \<Rightarrow> ('e, 'c) sys \<Rightarrow>
     ('e, 'c) sys option" where
  "schedule lib yaml fl w [] s = Some s"
| "schedule lib yaml fl w (i # is) s =
     (if i < length (threads s) then
        let (src, p) = threads s ! i
        in if can_run p s then
             case reload_step lib yaml fl w src p s of
               (p', s') \<Rightarrow> schedule lib yaml fl w is (s'\<lparr>threads := (threads s)[i := (src, p')]\<rparr>)
           else None
      else None)"

lemma schedule_steps: "schedule lib yaml fl w is s = Some s' \<Longrightarrow> sys_steps lib yaml fl s s'"
proof (induction "is" arbitrary: s)
  case (Cons i "is")
  then have i: "i < length (threads s)" by (simp split: if_splits)
  obtain src p where th: "threads s ! i = (src, p)" by fastforce
  obtain p' t where r: "reload_step lib yaml fl w src p s = (p', t)" by fastforce
  have c: "can_run p s" and rest: "schedule lib yaml fl w is (t\<lparr>threads := (threads s)[i := (src, p')]\<rparr>) = Some s'"
    using Cons.prems i th r by (auto split: if_splits)
  have "threads s = take i (threads s) @ (src, p) # drop (Suc i) (threads s)"
    using id_take_nth_drop[OF i] th by simp
  moreover have "(threads s)[i := (src, p')] = take i (threads s) @ (src, p') # drop (Suc i) (threads s)"
    using i by (rule upd_conv_take_nth_drop)
  ultimately have "sys_step lib yaml fl s (t\<lparr>threads := (threads s)[i := (src, p')]\<rparr>)"
    using c r by (metis run)
  then show ?case using Cons.IH[OF rest] by (rule converse_rtranclp_into_rtranclp)
qed simp

text \<open>The sample policy, loaded by \<^verbatim>\<open>main\<close> and reloaded; it declares no facts.\<close>

definition sample_world :: world where
  "sample_world = \<lparr>ReadFile = \<lambda>_. Inr [], Getenv = \<lambda>_. [], HttpGet = \<lambda>_. Inl []\<rparr>"

definition sample_flags :: flags where
  "sample_flags = \<lparr>configPath = ''policy.yaml'', levelFlag = [], formatFlag = [], buildVersion = ''dev''\<rparr>"

lemma sample_LoadFile:
  "LoadFile (ReadFile sample_world) (Getenv sample_world) sample_lib sample_yaml path = Inr sample_policy"
  by (simp add: LoadFile_def sample_world_def ExpandEnv.simps sample_policy_loads)

lemma sample_registry:
  "cregistry sample_policy = Some \<lparr>entries = [], cancels = [], cancelled = [], running = []\<rparr>"
proof -
  have "cregistry c = Some \<lparr>entries = [], cancels = [], cancelled = [], running = []\<rparr>"
    if "LoadBytes sample_lib sample_yaml b = Inr c" for b c
    using that by (auto simp: LoadBytes_def sample_yaml_def sample_config_def exported_fields_def applyDefaults_def facts_New_def
        Let_def split: sum.splits option.splits prod.splits)
  then show ?thesis using sample_policy_loads .
qed

lemma sample_Start: "policy_Start rf get sample_policy = Some (None, sample_policy)"
  by (simp add: policy_Start_def sample_registry facts_Start_def)

lemma sample_Stop: "policy_Stop sample_policy = sample_policy"
  by (simp add: policy_Stop_def sample_registry stop_cancel_def)

lemma sample_drained: "drained sample_policy"
  by (simp add: drained_def sample_registry)

lemma sample_applyLogging:
  "applyLogging (Logging sample_policy) [] [] l = (l\<lparr>levelVar := 0, current := JSONHandler\<rparr>, [])"
proof -
  have "parseLevel ''info'' = Inr 0" by code_simp
  then show ?thesis
    by (simp add: applyLogging_def sample_policy_settings sample_logging_def Configure_def)
qed

definition sample_sys :: "(nat, unit) sys" where
  "sample_sys = projr (the (main_start sample_lib sample_yaml sample_flags sample_world))"

lemma sample_start:
  "main_start sample_lib sample_yaml sample_flags sample_world = Some (Inr sample_sys)"
  by (simp add: sample_sys_def main_start_def sample_LoadFile sample_Start sample_applyLogging
      sample_flags_def)

lemma sample_sys_fields:
  "heap sample_sys = [sample_policy]" "http_Policy (srv sample_sys) = Some 0" "threads sample_sys = []"
  "httpPolicy (srv sample_sys) = Some 0"
  "grpc_Policy (gsrv sample_sys) = Some 0" "installed sample_sys = [0]" "stopped sample_sys = []"
  by (simp_all add: sample_sys_def main_start_def sample_LoadFile sample_Start sample_applyLogging
      sample_flags_def http_New_def http_Policy_def grpc_New_def grpc_Policy_def)

text \<open>Two reloads, of which the first is overtaken by the second between its two swaps.\<close>

definition overtaking :: "nat list" where
  "overtaking = [0, 0, 0, 0, 1, 1, 1, 1, 1, 1, 1, 1, 0, 0, 0, 0]"

definition sample_threads :: "(string \<times> pc) list" where
  "sample_threads = [(''sighup'', PcLoad), (''fsnotify'', PcLoad)]"

lemma sample_spawn:
  "sys_steps sample_lib sample_yaml sample_flags sample_sys (sample_sys\<lparr>threads := sample_threads\<rparr>)"
proof -
  have 1: "sys_step sample_lib sample_yaml sample_flags sample_sys
      (sample_sys\<lparr>threads := [(''sighup'', PcLoad)]\<rparr>)"
    using sighup[of sample_sys] by (simp add: sample_sys_fields)
  have 2: "sys_step sample_lib sample_yaml sample_flags (sample_sys\<lparr>threads := [(''sighup'', PcLoad)]\<rparr>)
      (sample_sys\<lparr>threads := sample_threads\<rparr>)"
    using fsnotify[of _ _ _ "sample_sys\<lparr>threads := [(''sighup'', PcLoad)]\<rparr>"] by (simp add: sample_threads_def)
  from 1 2 show ?thesis by (meson r_into_rtranclp rtranclp.rtrancl_into_rtrancl)
qed

lemma sample_overtaking:
  "\<exists>s. schedule sample_lib sample_yaml sample_flags sample_world overtaking
      (sample_sys\<lparr>threads := sample_threads\<rparr>) = Some s \<and>
    threads s = [(''sighup'', PcDone), (''fsnotify'', PcDone)] \<and>
    http_Policy (srv s) = Some 2 \<and> grpc_Policy (gsrv s) = Some 1 \<and> stopped s = [1, 0]"
  by (simp add: overtaking_def sample_threads_def sample_sys_fields sample_LoadFile sample_Start sample_Stop
      sample_applyLogging sample_flags_def sample_drained http_SetPolicy_def grpc_SetPolicy_def
      http_Policy_def grpc_Policy_def)

lemma distinct_submset:
  assumes "distinct ys" "mset xs \<subseteq># mset ys"
  shows "distinct xs"
proof -
  have "count (mset xs) a \<le> 1" for a
  proof -
    have "count (mset ys) a \<le> 1" using assms(1) unfolding distinct_count_atmost_1 by simp
    with mset_subset_eq_count[OF assms(2), of a] show ?thesis by (rule order_trans)
  qed
  moreover have "a \<in> set xs \<Longrightarrow> 1 \<le> count (mset xs) a" for a
    by (simp add: Suc_le_eq count_greater_zero_iff)
  ultimately show ?thesis unfolding distinct_count_atmost_1
    by (metis count_mset_0_iff le_antisym)
qed

section \<open>Properties\<close>

text \<open>C9: Whatever reloads run beside each other, and whatever the fetchers do: both servers always hold a
  policy that the loader accepted, with its programs compiled and every file and URL fact populated;
  no policy is stopped twice, the one the HTTP server holds is not stopped, and no reload panics.\<close>

theorem reload_serves_accepted:
  assumes "main_start lib yaml fl w = Some (Inr s0)" "sys_steps lib yaml fl s0 s"
  shows "\<exists>a b. http_Policy (srv s) = Some a \<and> grpc_Policy (gsrv s) = Some b \<and>
    (\<forall>c \<in> {heap s ! a, heap s ! b}. runnable lib c \<and> (\<exists>r. cregistry c = Some r \<and> ready r)) \<and>
    distinct (stopped s) \<and> a \<notin> set (stopped s) \<and> (\<forall>src. (src, PcPanic) \<notin> set (threads s))"
proof -
  note inv = run_inv[OF assms]
  obtain b where b: "b \<in> set (installed s)" "grpc_Policy (gsrv s) = Some b" using sys_invD(3)[OF inv] by blast
  let ?a = "last (installed s)"
  have a: "?a \<in> set (installed s)" using sys_invD(1)[OF inv] by simp
  have d: "distinct (installed s)" using sys_invD(4)[OF inv] by simp
  have "distinct (stopped s @ [?a])"
  proof -
    have "mset (stopped s @ [?a]) \<subseteq># mset (installed s)" unfolding sys_invD(8)[OF inv] by simp
    with d show ?thesis by (rule distinct_submset)
  qed
  moreover have "serving lib (heap s ! ?a)" "serving lib (heap s ! b)"
    using sys_invD(5)[OF inv] a b by auto
  moreover have "(src, PcPanic) \<notin> set (threads s)" for src using sys_invD(6)[OF inv, of src PcPanic] by auto
  ultimately show ?thesis using b sys_invD(2)[OF inv] by (auto simp: serving_def)
qed

theorem reload_serves_accepted_witness:
  "\<exists>a. http_Policy (srv sample_sys) = Some a \<and> runnable sample_lib (heap sample_sys ! a)"
  using reload_serves_accepted[OF sample_start rtranclp.rtrancl_refl] by blast

text \<open>C10: No policy leaks and none is stopped early: once the reloads under way are done, the policies that were
  ever installed are the one the HTTP server holds and those that were stopped, each of them once;
  and the shutdown stops the last one.\<close>

theorem reload_stops_replaced:
  assumes "main_start lib yaml fl w = Some (Inr s0)" "sys_steps lib yaml fl s0 s"
    "\<forall>(src, p) \<in> set (threads s). p = PcDone"
  shows "distinct (installed s) \<and> mset (stopped (main_stop s)) = mset (installed s) \<and>
    (\<forall>a. http_Policy (srv s) = Some a \<longrightarrow> set (stopped s) = set (installed s) - {a})"
proof -
  note inv = run_inv[OF assms(1,2)]
  have no: "owed s = []" using assms(3) by (auto simp: case_prod_beta)
  have m: "mset (installed s) = mset (stopped s) + {#last (installed s)#}"
    using sys_invD(8)[OF inv] unfolding no by simp
  have d: "distinct (installed s)" using sys_invD(4)[OF inv] by simp
  have "distinct (stopped s @ [last (installed s)])"
    by (rule distinct_submset[OF d]) (simp add: m)
  moreover have "set (installed s) = insert (last (installed s)) (set (stopped s))"
    using arg_cong[OF m, of set_mset] by simp
  ultimately show ?thesis using d m sys_invD(2)[OF inv] by (auto simp: main_stop_def)
qed

theorem reload_stops_replaced_witness:
  "\<exists>s. sys_steps sample_lib sample_yaml sample_flags sample_sys s \<and> length (threads s) = 2 \<and>
     mset (stopped (main_stop s)) = mset (installed s)"
proof -
  obtain s where s: "schedule sample_lib sample_yaml sample_flags sample_world overtaking
      (sample_sys\<lparr>threads := sample_threads\<rparr>) = Some s"
    "threads s = [(''sighup'', PcDone), (''fsnotify'', PcDone)]"
    using sample_overtaking by blast
  have st: "sys_steps sample_lib sample_yaml sample_flags sample_sys s"
    using sample_spawn schedule_steps[OF s(1)] by (rule rtranclp_trans)
  with s(2) reload_stops_replaced[OF sample_start st] show ?thesis by auto
qed

text \<open>C12: A reload never gets stuck: from every state of the system, all reloads that are under way can be
  run to their ends, the waits for the fetchers of a stopped policy included.\<close>

theorem reloads_can_finish:
  assumes "main_start lib yaml fl w = Some (Inr s0)" "sys_steps lib yaml fl s0 s"
  shows "\<exists>s'. sys_steps lib yaml fl s s' \<and> (\<forall>(src, p) \<in> set (threads s'). p = PcDone) \<and>
    length (threads s') = length (threads s)"
proof -
  obtain s' where "sys_steps lib yaml fl s s'" "threads s' = map (\<lambda>(src, _). (src, PcDone)) (threads s)"
    using threads_finish[OF run_inv[OF assms], of "[]" "threads s"] by auto
  then show ?thesis by (intro exI[of _ s']) auto
qed

theorem reloads_can_finish_witness:
  "\<exists>s'. sys_steps sample_lib sample_yaml sample_flags (sample_sys\<lparr>threads := sample_threads\<rparr>) s' \<and>
     length (threads s') = 2"
  using reloads_can_finish[OF sample_start sample_spawn] by (auto simp: sample_threads_def)

text \<open>C11: One reload with nothing beside it. A policy that does not load, or whose facts do not start, changes neither
  server, stops nothing and leaves the logger alone; the failure is logged. Otherwise
  both servers hold the new policy, the old one is stopped, and nothing else is.\<close>

theorem reload_alone:
  assumes "main_start lib yaml fl w0 = Some (Inr s0)" "sys_steps lib yaml fl s0 s"
    "reload lib yaml fl w src s = (p, s')"
  shows "p = PcDone \<and>
    (case LoadFile (ReadFile w) (Getenv w) lib yaml (configPath fl) of
       Inl e \<Rightarrow> s' = s\<lparr>logs := logs s @ [reload_failed src (LoadFailed e)]\<rparr>
     | Inr c \<Rightarrow>
         (\<exists>err c'. policy_Start (ReadFile w) (HttpGet w) c = Some (err, c') \<and>
            (case err of
               Some e \<Rightarrow> s' = s\<lparr>heap := heap s @ [c'], logs := logs s @ [reload_failed src (StartFailed e)]\<rparr>
             | None \<Rightarrow>
                 (\<exists>old new. http_Policy (srv s) = Some old \<and> http_Policy (srv s') = Some new \<and>
                    grpc_Policy (gsrv s') = Some new \<and> heap s' ! new = c' \<and> new \<noteq> old \<and>
                    heap s' ! old = policy_Stop (heap s ! old) \<and> stopped s' = stopped s @ [old]))))"
proof (cases "LoadFile (ReadFile w) (Getenv w) lib yaml (configPath fl)")
  case (Inl e)
  with assms(3) reload_load_fails[OF Inl] show ?thesis by simp
next
  case (Inr c)
  obtain err c' where S: "policy_Start (ReadFile w) (HttpGet w) c = Some (err, c')"
    using policy_Start_loaded(1)[OF LoadFile_loaded[OF Inr]] by fastforce
  show ?thesis
  proof (cases err)
    case (Some e)
    with assms(3) reload_start_fails[OF Inr] S Inr show ?thesis by simp
  next
    case None
    note inv = run_inv[OF assms(1,2)]
    obtain st ls where ls: "applyLogging (Logging c') (levelFlag fl) (formatFlag fl) (logger s) = (st, ls)"
      by fastforce
    let ?old = "last (installed s)"
    have old: "?old < length (heap s)" using sys_invD(1,5)[OF inv] by simp
    from S None have "policy_Start (ReadFile w) (HttpGet w) c = Some (None, c')" by simp
    from reload_succeeds[OF Inr this ls sys_invD(2)[OF inv] old, of src] assms(3) S None Inr old
    show ?thesis using sys_invD(2)[OF inv]
      by (auto simp: http_Policy_def grpc_Policy_def nth_append)
  qed
qed

theorem reload_alone_witness:
  "\<exists>s'. reload sample_lib sample_yaml sample_flags sample_world ''sighup'' sample_sys = (PcDone, s') \<and>
     http_Policy (srv s') = grpc_Policy (gsrv s') \<and> stopped s' = [0]"
proof -
  obtain p s' where r: "reload sample_lib sample_yaml sample_flags sample_world ''sighup'' sample_sys = (p, s')"
    by fastforce
  from reload_alone[OF sample_start rtranclp.rtrancl_refl r] r show ?thesis
    by (auto simp: sample_LoadFile sample_Start sample_sys_fields)
qed

text \<open>Two reloads at once can leave the servers with different policies for good: when the second one overtakes the
  first between its two swaps, the HTTP server holds the second policy and the gRPC server the
  first, which the second reload has stopped, so that its facts are no longer refreshed.\<close>

theorem concurrent_reloads_diverge:
  "\<exists>s a b. sys_steps sample_lib sample_yaml sample_flags sample_sys s \<and>
     (\<forall>(src, p) \<in> set (threads s). p = PcDone) \<and>
     http_Policy (srv s) = Some a \<and> grpc_Policy (gsrv s) = Some b \<and> a \<noteq> b \<and> b \<in> set (stopped s)"
proof -
  obtain s where s: "schedule sample_lib sample_yaml sample_flags sample_world overtaking
      (sample_sys\<lparr>threads := sample_threads\<rparr>) = Some s"
    "threads s = [(''sighup'', PcDone), (''fsnotify'', PcDone)]"
    "http_Policy (srv s) = Some 2" "grpc_Policy (gsrv s) = Some 1" "stopped s = [1, 0]"
    using sample_overtaking by blast
  have "sys_steps sample_lib sample_yaml sample_flags sample_sys s"
    using sample_spawn schedule_steps[OF s(1)] by (rule rtranclp_trans)
  with s(2-5) show ?thesis by (intro exI[of _ s] exI[of _ 2] exI[of _ 1]) simp
qed

end
