(* ===== verification/Configwatch.thy ===== *)
theory Configwatch
  imports Go_Prelude "HOL-Library.Word"
begin

unbundle bit_operations_syntax

text \<open>
  \<^verbatim>\<open>internal/configwatch/watch.go\<close>: the filter of the file-system events and the debounced callback. The
  watcher and its timer are a step relation over a clock; the history of a run keeps the times of
  the relevant events and of the callbacks.
\<close>

section \<open>Events\<close>

definition OpCreate :: "32 word" where "OpCreate = 1"
definition OpWrite :: "32 word" where "OpWrite = 2"
definition OpRemove :: "32 word" where "OpRemove = 4"
definition OpRename :: "32 word" where "OpRename = 8"
definition OpChmod :: "32 word" where "OpChmod = 16"

lemmas op_defs = OpCreate_def OpWrite_def OpRemove_def OpRename_def OpChmod_def

record fs_event =
  EvName :: string
  EvOp :: "32 word"

definition kubeProjectedSymlink :: string where
  "kubeProjectedSymlink = ''..data''"

text \<open>\<^verbatim>\<open>filepath.Base\<close>: trailing slashes are cut, then everything up to the last slash.\<close>

definition Base :: "string \<Rightarrow> string" where
  "Base p =
     (if p = [] then ''.''
      else let q = rev (dropWhile (\<lambda>c. c = CHR ''/'') (rev p))
           in if q = [] then ''/'' else rev (takeWhile (\<lambda>c. c \<noteq> CHR ''/'') (rev q)))"

text \<open>\<^verbatim>\<open>filepath.Clean\<close> on a Unix path, element by element: an empty element and a dot are dropped, and
  \<^verbatim>\<open>..\<close> drops the element before it, if there is one to drop.\<close>

fun clean_elems :: "bool \<Rightarrow> string list \<Rightarrow> string list \<Rightarrow> string list" where
  "clean_elems rooted kept [] = rev kept"
| "clean_elems rooted kept (e # es) =
     (if e = [] \<or> e = ''.'' then clean_elems rooted kept es
      else if e = ''..'' then
        (case kept of
           [] \<Rightarrow> clean_elems rooted (if rooted then [] else [e]) es
         | k # ks \<Rightarrow> clean_elems rooted (if k = ''..'' then e # kept else ks) es)
      else clean_elems rooted (e # kept) es)"

definition Clean :: "string \<Rightarrow> string" where
  "Clean p =
     (let rooted = (p \<noteq> [] \<and> hd p = CHR ''/'');
          out = (if rooted then ''/'' else []) @ Join (clean_elems rooted [] (Split p (CHR ''/''))) ''/''
      in if out = [] then ''.'' else out)"

text \<open>\<^verbatim>\<open>filepath.Dir\<close>: everything up to the last slash, cleaned.\<close>

definition Dir :: "string \<Rightarrow> string" where
  "Dir p = Clean (rev (dropWhile (\<lambda>c. c \<noteq> CHR ''/'') (rev p)))"

definition relevant :: "fs_event \<Rightarrow> string \<Rightarrow> bool" where
  "relevant ev name \<longleftrightarrow>
     (let base = Base (EvName ev)
      in \<not> (base \<noteq> name \<and> base \<noteq> kubeProjectedSymlink) \<and>
         EvOp ev AND (OpCreate OR OpWrite OR OpRename OR OpChmod) \<noteq> 0)"

section \<open>The loop\<close>

text \<open>Times and durations are nanoseconds. The record holds what \<^verbatim>\<open>Run\<close> keeps in its variables, and
  the history of the run: the relevant events and the callbacks, with their times.\<close>

datatype item = Changed int | Reloaded int

record watch =
  debounce :: int
  basename :: string           \<comment> \<open>\<^verbatim>\<open>name\<close>\<close>
  now :: int
  timer :: "int option"        \<comment> \<open>the deadline of a timer that is pending\<close>
  watching :: bool             \<comment> \<open>\<^verbatim>\<open>Run\<close> has not returned\<close>
  history :: "item list"

definition effective_debounce :: "int \<Rightarrow> int" where
  "effective_debounce d = (if d \<le> 0 then 200 * 10 ^ 6 else d)"

text \<open>The beginning of \<^verbatim>\<open>Run\<close>: a watcher is made and the directory of the file added to it, and
  either may fail.\<close>

datatype watch_error = FsnotifyError string | WatchError string string

definition watch_Run ::
    "string option \<Rightarrow> (string \<Rightarrow> string option) \<Rightarrow> string \<Rightarrow> int \<Rightarrow> int \<Rightarrow> watch_error + watch" where
  "watch_Run new_error add_error path d t0 =
     (let deb = effective_debounce d;
          dir = Dir path;
          name = Base path
      in case new_error of
           Some e \<Rightarrow> Inl (FsnotifyError e)
         | None \<Rightarrow>
             (case add_error dir of
                Some e \<Rightarrow> Inl (WatchError dir e)
              | None \<Rightarrow> Inr \<lparr>debounce = deb, basename = name, now = t0, timer = None, watching = True,
                             history = []\<rparr>))"

text \<open>\<^verbatim>\<open>fire\<close>: the pending timer is stopped, and a new one started.\<close>

definition fire :: "watch \<Rightarrow> watch" where
  "fire w = w\<lparr>timer := Some (now w + debounce w), history := history w @ [Changed (now w)]\<rparr>"

definition on_event :: "fs_event \<Rightarrow> watch \<Rightarrow> watch" where
  "on_event ev w = (if \<not> relevant ev (basename w) then w else fire w)"

definition on_done :: "watch \<Rightarrow> watch" where
  "on_done w = w\<lparr>timer := None, watching := False\<rparr>"

definition on_closed :: "watch \<Rightarrow> watch" where
  "on_closed w = w\<lparr>watching := False\<rparr>"

text \<open>The runtime starts the callback of a timer at its deadline or later.\<close>

definition run_callback :: "watch \<Rightarrow> watch" where
  "run_callback w = w\<lparr>timer := None, history := history w @ [Reloaded (now w)]\<rparr>"

inductive watch_step :: "watch \<Rightarrow> watch \<Rightarrow> bool" where
  delay: "0 \<le> d \<Longrightarrow> watch_step w (w\<lparr>now := now w + d\<rparr>)"
| event: "watching w \<Longrightarrow> watch_step w (on_event ev w)"
| fs_error: "watching w \<Longrightarrow> watch_step w w"
| ctx_done: "watching w \<Longrightarrow> watch_step w (on_done w)"
| closed: "watching w \<Longrightarrow> watch_step w (on_closed w)"
| expire: "timer w = Some t \<Longrightarrow> t \<le> now w \<Longrightarrow> watch_step w (run_callback w)"

section \<open>The discipline of a history\<close>

text \<open>Every callback comes at least a debounce after the change right before it in the history: a
  burst of changes has one callback, after it has been quiet for the whole window.\<close>

definition debounced :: "int \<Rightarrow> item list \<Rightarrow> bool" where
  "debounced d h \<longleftrightarrow>
     (\<forall>i t. i < length h \<longrightarrow> h ! i = Reloaded t \<longrightarrow> 0 < i \<and> (\<exists>s. h ! (i - 1) = Changed s \<and> s + d \<le> t))"

lemma debounced_Changed: "debounced d h \<Longrightarrow> debounced d (h @ [Changed t])"
  by (auto simp: debounced_def nth_append less_Suc_eq)

lemma debounced_Reloaded:
  assumes "debounced d h" "h \<noteq> []" "last h = Changed s" "s + d \<le> t"
  shows "debounced d (h @ [Reloaded t])"
  unfolding debounced_def
proof (intro allI impI)
  fix i u assume i: "i < length (h @ [Reloaded t])" "(h @ [Reloaded t]) ! i = Reloaded u"
  show "0 < i \<and> (\<exists>s. (h @ [Reloaded t]) ! (i - 1) = Changed s \<and> s + d \<le> u)"
  proof (cases "i < length h")
    case True
    with i assms(1) show ?thesis by (auto simp: debounced_def nth_append)
  next
    case False
    with i(1) have eq: "i = length h" by simp
    with i(2) have "u = t" by simp
    moreover have "h ! (length h - 1) = Changed s" using assms(2,3) by (simp add: last_conv_nth)
    ultimately show ?thesis using eq assms(2,4) by (auto simp: nth_append)
  qed
qed

text \<open>A pending timer belongs to the last change, and a change that no timer is pending for has had
  its callback, as long as \<^verbatim>\<open>Run\<close> is at work.\<close>

definition watch_inv :: "int \<Rightarrow> watch \<Rightarrow> bool" where
  "watch_inv d w \<longleftrightarrow> debounce w = d \<and> debounced d (history w) \<and>
     (\<forall>t. timer w = Some t \<longrightarrow> history w \<noteq> [] \<and> last (history w) = Changed (t - d)) \<and>
     (watching w \<and> timer w = None \<longrightarrow> history w = [] \<or> (\<exists>t. last (history w) = Reloaded t))"

lemma watch_step_inv:
  assumes "watch_step w w'" "watch_inv d w"
  shows "watch_inv d w'"
  using assms
proof cases
  case (event ev)
  with assms(2) show ?thesis
    by (auto simp: watch_inv_def on_event_def fire_def debounced_Changed)
next
  case (expire t)
  then have "debounced d (history w @ [Reloaded (now w)])"
    using assms(2) by (intro debounced_Reloaded[where s = "t - d"]) (auto simp: watch_inv_def)
  with expire assms(2) show ?thesis by (simp add: watch_inv_def run_callback_def)
qed (auto simp: watch_inv_def on_done_def on_closed_def)

lemma watch_steps_inv: "watch_step\<^sup>*\<^sup>* w w' \<Longrightarrow> watch_inv d w \<Longrightarrow> watch_inv d w'"
  by (induction rule: rtranclp_induct) (auto intro: watch_step_inv)

lemma watch_Run_inv: "watch_Run ne ae path d t0 = Inr w \<Longrightarrow> watch_inv (effective_debounce d) w"
  by (auto simp: watch_Run_def watch_inv_def debounced_def Let_def split: option.splits)

lemma watch_Run_run:
  assumes "watch_Run ne ae path d t0 = Inr w0" "watch_step\<^sup>*\<^sup>* w0 w"
  shows "watch_inv (effective_debounce d) w"
  using watch_steps_inv[OF assms(2) watch_Run_inv[OF assms(1)]] .

text \<open>A pending timer can always run out: the clock passes the deadline and the callback runs.\<close>

lemma timer_expires:
  assumes "timer w = Some t"
  shows "\<exists>w'. watch_step\<^sup>*\<^sup>* w w' \<and> timer w' = None \<and>
    history w' = history w @ [Reloaded (max t (now w))]"
proof -
  let ?v = "w\<lparr>now := now w + (max t (now w) - now w)\<rparr>"
  have 1: "watch_step w ?v" by (rule delay) simp
  have 2: "watch_step ?v (run_callback ?v)" by (rule expire[where t = t]) (use assms in simp_all)
  from 1 2 have "watch_step\<^sup>*\<^sup>* w (run_callback ?v)"
    by (meson r_into_rtranclp rtranclp.rtrancl_into_rtrancl)
  moreover have "history (run_callback ?v) = history w @ [Reloaded (max t (now w))]"
      "timer (run_callback ?v) = None"
    by (simp_all add: run_callback_def)
  ultimately show ?thesis by blast
qed

section \<open>Properties\<close>

text \<open>C31: The watcher debounces and loses nothing. Of a watcher that \<^verbatim>\<open>Run\<close> has started, in every state
  it can come to: each callback follows a change directly and by no less than the debounce window
  (the default one when the argument is not positive), so that a burst has at most one callback. And while \<^verbatim>\<open>Run\<close> is at work, a change that is the last
  thing to have happened can still have its callback, at the end of its window or, when the clock is
  past it, at once.\<close>

theorem watcher_debounces:
  assumes "watch_Run new_error add_error path d t0 = Inr w0" "watch_step\<^sup>*\<^sup>* w0 w"
  shows "(\<forall>i t. i < length (history w) \<longrightarrow> history w ! i = Reloaded t \<longrightarrow>
            0 < i \<and> (\<exists>s. history w ! (i - 1) = Changed s \<and> s + effective_debounce d \<le> t)) \<and>
         (\<forall>s. watching w \<longrightarrow> history w \<noteq> [] \<longrightarrow> last (history w) = Changed s \<longrightarrow>
            (\<exists>w'. watch_step\<^sup>*\<^sup>* w w' \<and>
               history w' = history w @ [Reloaded (max (s + effective_debounce d) (now w))]))"
proof (intro conjI allI impI)
  note inv = watch_Run_run[OF assms]
  fix i t assume "i < length (history w)" "history w ! i = Reloaded t"
  with inv show "0 < i" "\<exists>s. history w ! (i - 1) = Changed s \<and> s + effective_debounce d \<le> t"
    by (auto simp: watch_inv_def debounced_def)
next
  note inv = watch_Run_run[OF assms]
  fix s assume "watching w" "history w \<noteq> []" "last (history w) = Changed s"
  with inv have "timer w = Some (s + effective_debounce d)"
    by (cases "timer w") (auto simp: watch_inv_def)
  from timer_expires[OF this]
  show "\<exists>w'. watch_step\<^sup>*\<^sup>* w w' \<and>
      history w' = history w @ [Reloaded (max (s + effective_debounce d) (now w))]" by blast
qed

text \<open>A sample run: a write to the file, another 100 ms later, and the callback 200 ms after that.\<close>

definition sample_watch :: watch where
  "sample_watch = \<lparr>debounce = 200000000, basename = ''policy.yaml'', now = 0, timer = None,
     watching = True, history = []\<rparr>"

definition sample_write :: fs_event where
  "sample_write = \<lparr>EvName = ''/etc/rv/policy.yaml'', EvOp = OpWrite\<rparr>"

lemma sample_Run: "watch_Run None (\<lambda>_. None) ''/etc/rv/policy.yaml'' 0 0 = Inr sample_watch"
  by code_simp

lemma sample_relevant: "relevant sample_write ''policy.yaml''"
  by code_simp

lemma sample_steps:
  "watch_step\<^sup>*\<^sup>* sample_watch \<lparr>debounce = 200000000, basename = ''policy.yaml'', now = 5,
     timer = Some 200000005, watching = True, history = [Changed 5]\<rparr>"
proof -
  have 1: "watch_step sample_watch (sample_watch\<lparr>now := 5\<rparr>)"
    using delay[of 5 sample_watch] by (simp add: sample_watch_def)
  have 2: "watch_step (sample_watch\<lparr>now := 5\<rparr>) (on_event sample_write (sample_watch\<lparr>now := 5\<rparr>))"
    by (rule event) (simp add: sample_watch_def)
  have 3: "on_event sample_write (sample_watch\<lparr>now := 5\<rparr>) = \<lparr>debounce = 200000000,
      basename = ''policy.yaml'', now = 5, timer = Some 200000005, watching = True, history = [Changed 5]\<rparr>"
    by (simp add: on_event_def fire_def sample_watch_def sample_relevant)
  from 1 2 show ?thesis unfolding 3 by (meson r_into_rtranclp rtranclp.rtrancl_into_rtrancl)
qed

theorem watcher_debounces_witness:
  "\<exists>w'. watch_step\<^sup>*\<^sup>* \<lparr>debounce = 200000000, basename = ''policy.yaml'', now = 5,
     timer = Some 200000005, watching = True, history = [Changed 5]\<rparr> w' \<and>
     history w' = [Changed 5, Reloaded 200000005]"
  using watcher_debounces[OF sample_Run sample_steps] by (simp add: effective_debounce_def)

text \<open>Which events count: those whose last path element is the file's name or the \<^verbatim>\<open>..data\<close> symbolic link
  of a projected volume, and that carry any of the four kinds that can bring new content. A pure
  removal never does, nor does an event of any other file of the directory.\<close>

theorem relevant_events:
  "relevant ev name \<longleftrightarrow>
     Base (EvName ev) \<in> {name, kubeProjectedSymlink} \<and> (\<exists>i \<in> {0, 1, 3, 4}. bit (EvOp ev) i)"
proof -
  have mask: "OpCreate OR OpWrite OR OpRename OR OpChmod = (27 :: 32 word)"
    by (simp add: op_defs)
  have "EvOp ev AND 27 \<noteq> 0 \<longleftrightarrow> (\<exists>i \<in> {0, 1, 3, 4}. bit (EvOp ev) i)"
  proof -
    have b: "bit (27 :: 32 word) i \<longleftrightarrow> i \<in> {0, 1, 3, 4}" if "i < 32" for i
    proof -
      have "\<forall>i \<in> set [0..<32]. bit (27 :: 32 word) i \<longleftrightarrow> i \<in> {0, 1, 3, 4}" by code_simp
      with that show ?thesis by simp
    qed
    have "EvOp ev AND 27 \<noteq> 0 \<longleftrightarrow> (\<exists>i < 32. bit (EvOp ev) i \<and> bit (27 :: 32 word) i)"
      by (auto simp: bit_eq_iff bit_and_iff dest: bit_imp_le_length)
    also have "\<dots> \<longleftrightarrow> (\<exists>i < 32. bit (EvOp ev) i \<and> i \<in> {0, 1, 3, 4})" using b by blast
    also have "\<dots> \<longleftrightarrow> (\<exists>i \<in> {0, 1, 3, 4}. bit (EvOp ev) i)"
      by (auto intro: exI[of _ 0] exI[of _ 1] exI[of _ 3] exI[of _ 4])
    finally show ?thesis .
  qed
  then show ?thesis by (auto simp: relevant_def Let_def mask)
qed

end
