(* ===== verification/Lifecycle.thy ===== *)
theory Lifecycle
  imports Reload Configwatch
begin

text \<open>
  The life of the process: \<^verbatim>\<open>main\<close> of \<^verbatim>\<open>cmd/main.go\<close> with \<^verbatim>\<open>Run\<close> and \<^verbatim>\<open>Stop\<close> of the two servers. The
  goroutines of \<^verbatim>\<open>Run\<close>, the watcher of the configuration, the reloads, the requests and streams in progress, the
  clock and the main goroutine interleave. The watcher keeps its own clock. What \<^verbatim>\<open>net/http\<close> and \<^verbatim>\<open>grpc\<close> do is what they document: after \<^verbatim>\<open>Shutdown\<close> or \<^verbatim>\<open>GracefulStop\<close> a
  server takes no new work and its \<^verbatim>\<open>Serve\<close> returns; \<^verbatim>\<open>Shutdown\<close> waits for the open requests until its context
  expires, \<^verbatim>\<open>GracefulStop\<close> waits for the open streams without a limit.
\<close>

section \<open>Servers\<close>

text \<open>A server as the process sees it: whether its field \<^verbatim>\<open>srv\<close> is set, whether it listens, whether it is
  being shut down, the requests or streams that are open, and whether \<^verbatim>\<open>Run\<close> has returned.\<close>

record server =
  srv_set :: bool
  listening :: bool
  closing :: bool
  open_calls :: nat
  run_done :: bool

definition new_server :: server where
  "new_server = \<lparr>srv_set = False, listening = False, closing = False, open_calls = 0, run_done = False\<rparr>"

text \<open>How \<^verbatim>\<open>ListenAndServe\<close> and \<^verbatim>\<open>Serve\<close> end: closed by \<^verbatim>\<open>Stop\<close> (\<^verbatim>\<open>ErrServerClosed\<close>, \<^verbatim>\<open>ErrServerStopped\<close> or
  nil), or with another error.\<close>

datatype serve_end = ServerClosed | ServeError string

definition run_result :: "serve_end \<Rightarrow> string option" where
  "run_result e = (case e of ServerClosed \<Rightarrow> None | ServeError t \<Rightarrow> Some t)"

definition run_ends :: "server \<Rightarrow> server" where
  "run_ends s = s\<lparr>listening := False, run_done := True\<rparr>"

definition run_make :: "server \<Rightarrow> server" where
  "run_make s = s\<lparr>srv_set := True\<rparr>"

definition run_serve :: "server \<Rightarrow> server" where
  "run_serve s = s\<lparr>listening := True\<rparr>"

definition shut :: "server \<Rightarrow> server" where
  "shut s = s\<lparr>closing := True, listening := False\<rparr>"

text \<open>\<^verbatim>\<open>Stop\<close> of the HTTP server at a given time: nothing when \<^verbatim>\<open>Run\<close> has not set the field; otherwise the server
  closes and the caller waits, at most until the context expires. \<^verbatim>\<open>Stop\<close> of the gRPC server: the second
  component tells whether the caller has to wait.\<close>

definition shutdownTimeout :: nat where "shutdownTimeout = 5000"

definition http_Stop :: "nat \<Rightarrow> server \<Rightarrow> server \<times> nat option" where
  "http_Stop t s = (if \<not> srv_set s then (s, None) else (shut s, Some (t + shutdownTimeout)))"

definition grpc_Stop :: "server \<Rightarrow> server \<times> bool" where
  "grpc_Stop s = (if srv_set s then (shut s, True) else (s, False))"

section \<open>The process\<close>

text \<open>The main goroutine: in the \<^verbatim>\<open>select\<close>, in one of the steps of the shutdown, or gone with an exit code.\<close>

datatype main_pc =
    MSelect
  | MHttpStop nat                      \<comment> \<open>waits in \<^verbatim>\<open>Shutdown\<close>, at most until the given time\<close>
  | MGrpcCall
  | MGrpcStop                          \<comment> \<open>waits in \<^verbatim>\<open>GracefulStop\<close>\<close>
  | MPolicyStop
  | MPolicyWait nat
  | MExit int

record cli =
  cli_flags :: flags
  port :: int
  grpcPort :: int
  watch :: bool
  watchDebounceMs :: int
  showVersion :: bool

text \<open>The goroutine of the watcher: not wanted, about to call \<^verbatim>\<open>configwatch.Run\<close>, in its loop (or gone from it
  with a timer that may be pending), or ended by an error.\<close>

datatype watch_state = WatchOff | WatchStarting | WatchUp watch | WatchEnded watch_error

text \<open>\<open>released\<close> is the policy that the shutdown stopped; \<open>stopped\<close> of the system records the reloads only.\<close>

record ('e, 'c) process =
  psys :: "('e, 'c) sys"
  phttp :: server
  pgrpc :: server
  errCh :: "string option list"
  main_at :: main_pc
  pwatch :: watch_state
  clock :: nat
  signalled :: bool
  released :: "nat option"

definition starting :: "string \<Rightarrow> int \<Rightarrow> ('e, 'c) sys \<Rightarrow> ('e, 'c) sys" where
  "starting kind p s = s\<lparr>logs := logs s @
     [Logged \<lparr>LLevel = LevelInfo, LMsg = ''starting '' @ kind @ '' server'',
        LAttrs = [AString ''addr'' (CHR '':'' # Itoa p)]\<rparr>]\<rparr>"

text \<open>\<^verbatim>\<open>Run\<close> of the HTTP server: the field is set, then the server serves until it ends, and the result goes to the
  channel of \<^verbatim>\<open>main\<close>. The gRPC server listens first and sets its field afterwards.\<close>

definition http_Run_make :: "cli \<Rightarrow> ('e, 'c) process \<Rightarrow> ('e, 'c) process" where
  "http_Run_make c p = p\<lparr>psys := starting ''http'' (port c) (psys p), phttp := run_make (phttp p)\<rparr>"

definition http_Run_end :: "serve_end \<Rightarrow> ('e, 'c) process \<Rightarrow> ('e, 'c) process" where
  "http_Run_end e p = p\<lparr>phttp := run_ends (phttp p), errCh := errCh p @ [run_result e]\<rparr>"

definition grpc_Run_make :: "cli \<Rightarrow> ('e, 'c) process \<Rightarrow> ('e, 'c) process" where
  "grpc_Run_make c p = p\<lparr>psys := starting ''grpc'' (grpcPort c) (psys p), pgrpc := run_make (pgrpc p)\<rparr>"

definition grpc_Run_end :: "serve_end \<Rightarrow> ('e, 'c) process \<Rightarrow> ('e, 'c) process" where
  "grpc_Run_end e p = p\<lparr>pgrpc := run_ends (pgrpc p), errCh := errCh p @ [run_result e]\<rparr>"

lemmas Run_defs = http_Run_make_def http_Run_end_def grpc_Run_make_def grpc_Run_end_def

text \<open>The beginning of \<^verbatim>\<open>main\<close>: the version is printed, or a fatal error ends the program, or it runs.\<close>

datatype ('e, 'c) boot = Printed string | FatalExit main_error | BootPanic | Up "('e, 'c) process"

definition main_boot ::
    "('e, 'a, 'c) cel_lib \<Rightarrow> ('e, 'c) yaml_decoder \<Rightarrow> cli \<Rightarrow> world \<Rightarrow> ('e, 'c) boot" where
  "main_boot lib yaml c w =
     (if showVersion c then Printed (buildVersion (cli_flags c))
      else case main_start lib yaml (cli_flags c) w of
             None \<Rightarrow> BootPanic
           | Some (Inl e) \<Rightarrow> FatalExit e
           | Some (Inr s) \<Rightarrow>
               Up \<lparr>psys = s, phttp = new_server, pgrpc = new_server, errCh = [], main_at = MSelect,
                  pwatch = (if watch c then WatchStarting else WatchOff),
                  clock = 0, signalled = False, released = None\<rparr>)"

text \<open>How the process ends when it does not get up: \<^verbatim>\<open>main\<close> returns, \<^verbatim>\<open>log.Fatalf\<close> exits with 1, a panic exits with 2.\<close>

definition boot_exit :: "('e, 'c) boot \<Rightarrow> int option" where
  "boot_exit b = (case b of Printed _ \<Rightarrow> Some 0 | FatalExit _ \<Rightarrow> Some 1 | BootPanic \<Rightarrow> Some 2 | Up _ \<Rightarrow> None)"

text \<open>The branches of the \<^verbatim>\<open>select\<close>.\<close>

definition on_signal :: "('e, 'c) process \<Rightarrow> ('e, 'c) process" where
  "on_signal p =
     (let (h, deadline) = http_Stop (clock p) (phttp p);
          s = psys p
      in p\<lparr>psys := s\<lparr>logs := logs s @ [Logged \<lparr>LLevel = LevelInfo, LMsg = ''shutting down'', LAttrs = []\<rparr>]\<rparr>,
           phttp := h, signalled := True,
           main_at := (case deadline of None \<Rightarrow> MGrpcCall | Some d \<Rightarrow> MHttpStop d)\<rparr>)"

definition on_server_end :: "string option \<Rightarrow> ('e, 'c) process \<Rightarrow> ('e, 'c) process" where
  "on_server_end e p =
     (case e of
        None \<Rightarrow> p\<lparr>main_at := MExit 0\<rparr>
      | Some t \<Rightarrow>
          let s = psys p
          in p\<lparr>psys := s\<lparr>logs := logs s @ [Logged \<lparr>LLevel = LevelError, LMsg = ''server crashed'',
                 LAttrs = [AString ''err'' t]\<rparr>]\<rparr>, main_at := MExit 1\<rparr>)"

text \<open>The rest of the shutdown, one action at a time; None while the main goroutine has to wait.\<close>

definition main_action :: "('e, 'c) process \<Rightarrow> ('e, 'c) process option" where
  "main_action p =
     (case main_at p of
        MHttpStop deadline \<Rightarrow>
          if open_calls (phttp p) = 0 \<or> deadline \<le> clock p then Some (p\<lparr>main_at := MGrpcCall\<rparr>) else None
      | MGrpcCall \<Rightarrow>
          (case grpc_Stop (pgrpc p) of
             (g, waits) \<Rightarrow> Some (p\<lparr>pgrpc := g, main_at := if waits then MGrpcStop else MPolicyStop\<rparr>))
      | MGrpcStop \<Rightarrow> if open_calls (pgrpc p) = 0 then Some (p\<lparr>main_at := MPolicyStop\<rparr>) else None
      | MPolicyStop \<Rightarrow>
          (case http_Policy (srv (psys p)) of
             None \<Rightarrow> Some (p\<lparr>main_at := MExit 0\<rparr>)
           | Some a \<Rightarrow>
               Some (p\<lparr>psys := (psys p)\<lparr>heap := heap (main_stop (psys p))\<rparr>, released := Some a,
                  main_at := MPolicyWait a\<rparr>))
      | MPolicyWait a \<Rightarrow> if drained (heap (psys p) ! a) then Some (p\<lparr>main_at := MExit 0\<rparr>) else None
      | _ \<Rightarrow> None)"

definition alive :: "('e, 'c) process \<Rightarrow> bool" where
  "alive p \<longleftrightarrow> (\<forall>n. main_at p \<noteq> MExit n)"

text \<open>The start of the watcher. The flag is turned into a duration, with wrap-around at 64 bits.\<close>

definition watch_debounce :: "cli \<Rightarrow> int" where
  "watch_debounce c = wrap64 (wrap64 (watchDebounceMs c) * 10 ^ 6)"

fun watch_error_text :: "watch_error \<Rightarrow> string" where
  "watch_error_text (FsnotifyError e) = ''fsnotify: '' @ e"
| "watch_error_text (WatchError dir e) = ''watch '' @ dir @ '': '' @ e"

definition start_watcher ::
    "cli \<Rightarrow> string option \<Rightarrow> (string \<Rightarrow> string option) \<Rightarrow> int \<Rightarrow> ('e, 'c) process \<Rightarrow> ('e, 'c) process" where
  "start_watcher c new_error add_error t0 p =
     (case watch_Run new_error add_error (configPath (cli_flags c)) (watch_debounce c) t0 of
        Inr w \<Rightarrow> p\<lparr>pwatch := WatchUp w\<rparr>
      | Inl e \<Rightarrow>
          let s = psys p
          in p\<lparr>psys := s\<lparr>logs := logs s @ [Logged \<lparr>LLevel = LevelError, LMsg = ''config watcher stopped'',
                 LAttrs = [AString ''err'' (watch_error_text e),
                           AString ''hint'' ''send SIGHUP to reload manually'']\<rparr>]\<rparr>,
               pwatch := WatchEnded e\<rparr>)"

text \<open>The callback of the watcher begins a reload.\<close>

definition watch_fires :: "watch \<Rightarrow> ('e, 'c) process \<Rightarrow> ('e, 'c) process" where
  "watch_fires w p =
     (let s = psys p
      in p\<lparr>psys := s\<lparr>threads := threads s @ [(''fsnotify'', PcLoad)]\<rparr>, pwatch := WatchUp (run_callback w)\<rparr>)"

fun is_reload :: "item \<Rightarrow> bool" where
  "is_reload (Reloaded _) = True"
| "is_reload (Changed _) = False"

definition callbacks :: "watch \<Rightarrow> nat" where
  "callbacks w = length (filter is_reload (history w))"

definition watcher_reloads :: "('e, 'c) sys \<Rightarrow> nat" where
  "watcher_reloads s = length (filter (\<lambda>t. fst t = ''fsnotify'') (threads s))"

inductive proc_step ::
    "('e, 'a, 'c) cel_lib \<Rightarrow> ('e, 'c) yaml_decoder \<Rightarrow> cli \<Rightarrow> ('e, 'c) process \<Rightarrow> ('e, 'c) process \<Rightarrow> bool"
  for lib yaml c where
  http_make: "alive p \<Longrightarrow> \<not> srv_set (phttp p) \<Longrightarrow>
    proc_step lib yaml c p (http_Run_make c p)"
| http_serve: "alive p \<Longrightarrow> srv_set (phttp p) \<Longrightarrow> \<not> run_done (phttp p) \<Longrightarrow> \<not> closing (phttp p) \<Longrightarrow>
    proc_step lib yaml c p (p\<lparr>phttp := run_serve (phttp p)\<rparr>)"
| http_end: "alive p \<Longrightarrow> srv_set (phttp p) \<Longrightarrow> \<not> run_done (phttp p) \<Longrightarrow>
    closing (phttp p) = (e = ServerClosed) \<Longrightarrow> proc_step lib yaml c p (http_Run_end e p)"
| http_request: "alive p \<Longrightarrow> listening (phttp p) \<Longrightarrow>
    proc_step lib yaml c p (p\<lparr>phttp := (phttp p)\<lparr>open_calls := Suc (open_calls (phttp p))\<rparr>\<rparr>)"
| http_response: "alive p \<Longrightarrow> open_calls (phttp p) = Suc n \<Longrightarrow>
    proc_step lib yaml c p (p\<lparr>phttp := (phttp p)\<lparr>open_calls := n\<rparr>\<rparr>)"
| grpc_listen_fails: "alive p \<Longrightarrow> \<not> srv_set (pgrpc p) \<Longrightarrow> \<not> run_done (pgrpc p) \<Longrightarrow>
    proc_step lib yaml c p (grpc_Run_end (ServeError t) p)"
| grpc_make: "alive p \<Longrightarrow> \<not> srv_set (pgrpc p) \<Longrightarrow> \<not> run_done (pgrpc p) \<Longrightarrow>
    proc_step lib yaml c p (grpc_Run_make c p)"
| grpc_serve: "alive p \<Longrightarrow> srv_set (pgrpc p) \<Longrightarrow> \<not> run_done (pgrpc p) \<Longrightarrow> \<not> closing (pgrpc p) \<Longrightarrow>
    proc_step lib yaml c p (p\<lparr>pgrpc := run_serve (pgrpc p)\<rparr>)"
| grpc_end: "alive p \<Longrightarrow> srv_set (pgrpc p) \<Longrightarrow> \<not> run_done (pgrpc p) \<Longrightarrow>
    closing (pgrpc p) = (e = ServerClosed) \<Longrightarrow> proc_step lib yaml c p (grpc_Run_end e p)"
| stream_opens: "alive p \<Longrightarrow> listening (pgrpc p) \<Longrightarrow>
    proc_step lib yaml c p (p\<lparr>pgrpc := (pgrpc p)\<lparr>open_calls := Suc (open_calls (pgrpc p))\<rparr>\<rparr>)"
| stream_ends: "alive p \<Longrightarrow> open_calls (pgrpc p) = Suc n \<Longrightarrow>
    proc_step lib yaml c p (p\<lparr>pgrpc := (pgrpc p)\<lparr>open_calls := n\<rparr>\<rparr>)"
| tick: "alive p \<Longrightarrow> proc_step lib yaml c p (p\<lparr>clock := Suc (clock p)\<rparr>)"
| reloads: "alive p \<Longrightarrow> sys_step lib yaml (cli_flags c) (psys p) s' \<Longrightarrow>
    watcher_reloads s' = watcher_reloads (psys p) \<Longrightarrow> proc_step lib yaml c p (p\<lparr>psys := s'\<rparr>)"
| watcher_starts: "alive p \<Longrightarrow> pwatch p = WatchStarting \<Longrightarrow>
    proc_step lib yaml c p (start_watcher c new_error add_error t0 p)"
| watcher_moves: "alive p \<Longrightarrow> pwatch p = WatchUp u \<Longrightarrow> watch_step u u' \<Longrightarrow> callbacks u' = callbacks u \<Longrightarrow>
    proc_step lib yaml c p (p\<lparr>pwatch := WatchUp u'\<rparr>)"
| watcher_fires: "alive p \<Longrightarrow> pwatch p = WatchUp u \<Longrightarrow> timer u = Some t \<Longrightarrow> t \<le> now u \<Longrightarrow>
    proc_step lib yaml c p (watch_fires u p)"
| signal: "main_at p = MSelect \<Longrightarrow> proc_step lib yaml c p (on_signal p)"
| server_end: "main_at p = MSelect \<Longrightarrow> errCh p = e # es \<Longrightarrow>
    proc_step lib yaml c p (on_server_end e (p\<lparr>errCh := es\<rparr>))"
| main: "main_action p = Some p' \<Longrightarrow> proc_step lib yaml c p p'"

abbreviation proc_steps ::
    "('e, 'a, 'c) cel_lib \<Rightarrow> ('e, 'c) yaml_decoder \<Rightarrow> cli \<Rightarrow> ('e, 'c) process \<Rightarrow> ('e, 'c) process \<Rightarrow> bool" where
  "proc_steps lib yaml c \<equiv> (proc_step lib yaml c)\<^sup>*\<^sup>*"

section \<open>Invariant\<close>

text \<open>A stopped policy: the cancel functions of its fetchers have all been called.\<close>

definition quiet :: "('e, 'c) config \<Rightarrow> bool" where
  "quiet c \<longleftrightarrow> (\<exists>r. cregistry c = Some r \<and> cancels r = [])"

lemma serving_quiet: "serving lib c \<Longrightarrow> quiet (policy_Stop c)"
  by (auto simp: serving_def quiet_def policy_Stop_def)

lemma quiet_Stop: "quiet c \<Longrightarrow> quiet (policy_Stop c)"
  by (auto simp: quiet_def policy_Stop_def)

lemma reg_step_quiet: "reg_step r r' \<Longrightarrow> cancels r = [] \<Longrightarrow> cancels r' = []"
  by (erule reg_step.cases)
    (auto simp: stop_cancel_def refresh_def store_value_def split: option.splits sum.splits)

lemma reload_step_quiet:
  assumes inv: "sys_inv lib s" and th: "threads s = xs @ (src, q) # ys"
    and st: "reload_step lib yaml fl w src q s = (q', s')"
    and a: "a \<in> set (installed s)" "quiet (heap s ! a)"
  shows "a \<in> set (installed s') \<and> quiet (heap s' ! a)"
proof -
  have lt: "a < length (heap s)" using sys_invD(5)[OF inv a(1)] by simp
  show ?thesis
  proof (cases q)
    case (PcStart b)
    with th have "b \<noteq> a" using fresh_not_installed(1)[OF inv, of xs "(src, q)" ys b] a(1) by auto
    with PcStart st a show ?thesis by (auto split: option.splits prod.splits)
  next
    case (PcStop b old)
    with st a lt show ?thesis by (auto simp: nth_update quiet_Stop split: option.splits)
  qed (use st a lt in \<open>auto simp: nth_append split: sum.splits prod.splits\<close>)
qed

lemma sys_step_quiet:
  assumes st: "sys_step lib yaml fl s s'" and inv: "sys_inv lib s"
    and a: "a \<in> set (installed s)" "quiet (heap s ! a)"
  shows "a \<in> set (installed s') \<and> quiet (heap s' ! a)"
  using st
proof cases
  case (run xs src q ys w q' t)
  with reload_step_quiet[OF inv _ _ a] show ?thesis by auto
next
  case (fetcher b r r')
  with a sys_invD(5)[OF inv a(1)] reg_step_quiet[of r r'] show ?thesis
    by (auto simp: nth_update quiet_def)
qed (use a in auto)

text \<open>What holds at each place of the main goroutine.\<close>

fun at_ok :: "main_pc \<Rightarrow> ('e, 'c) process \<Rightarrow> bool" where
  "at_ok MSelect p \<longleftrightarrow>
     \<not> signalled p \<and> \<not> closing (phttp p) \<and> \<not> closing (pgrpc p) \<and> released p = None"
| "at_ok (MHttpStop d) p \<longleftrightarrow>
     signalled p \<and> closing (phttp p) \<and> d \<le> clock p + shutdownTimeout \<and> released p = None"
| "at_ok MGrpcCall p \<longleftrightarrow> signalled p \<and> released p = None"
| "at_ok MGrpcStop p \<longleftrightarrow> signalled p \<and> closing (pgrpc p) \<and> released p = None"
| "at_ok MPolicyStop p \<longleftrightarrow>
     signalled p \<and> (closing (pgrpc p) \<longrightarrow> open_calls (pgrpc p) = 0) \<and> released p = None"
| "at_ok (MPolicyWait a) p \<longleftrightarrow>
     signalled p \<and> (closing (pgrpc p) \<longrightarrow> open_calls (pgrpc p) = 0) \<and> released p = Some a"
| "at_ok (MExit n) p \<longleftrightarrow>
     n = 0 \<and> signalled p \<and> (closing (pgrpc p) \<longrightarrow> open_calls (pgrpc p) = 0) \<and>
       (\<exists>a. released p = Some a \<and> drained (heap (psys p) ! a)) \<or>
     n = 1 \<and> \<not> signalled p \<and> (run_done (phttp p) \<or> run_done (pgrpc p)) \<and> released p = None"

definition server_ok :: "server \<Rightarrow> bool" where
  "server_ok s \<longleftrightarrow> (closing s \<longrightarrow> srv_set s \<and> \<not> listening s)"

definition proc_inv :: "('e, 'a, 'c) cel_lib \<Rightarrow> ('e, 'c) process \<Rightarrow> bool" where
  "proc_inv lib p \<longleftrightarrow>
     sys_inv lib (psys p) \<and> at_ok (main_at p) p \<and> server_ok (phttp p) \<and> server_ok (pgrpc p) \<and>
     (None \<in> set (errCh p) \<longrightarrow> closing (phttp p) \<or> closing (pgrpc p)) \<and>
     (errCh p \<noteq> [] \<longrightarrow> run_done (phttp p) \<or> run_done (pgrpc p)) \<and>
     (\<forall>a. released p = Some a \<longrightarrow> a \<in> set (installed (psys p)) \<and> quiet (heap (psys p) ! a))"

lemma sys_inv_logs [simp]: "sys_inv lib (s\<lparr>logs := ls\<rparr>) = sys_inv lib s"
  by (rule sys_inv_cong) simp_all

lemma starting_fields [simp]:
  "sys_inv lib (starting k n s) = sys_inv lib s" "heap (starting k n s) = heap s"
  "installed (starting k n s) = installed s"
  by (simp_all add: starting_def)

text \<open>An action of a server, of the clock or of a reload does not move the main goroutine.\<close>

lemma at_ok_env:
  assumes "at_ok (main_at p) p" "alive p" "clock p \<le> t"
    "closing h = closing (phttp p)" "closing g = closing (pgrpc p)"
    "closing (pgrpc p) \<Longrightarrow> open_calls g \<le> open_calls (pgrpc p)"
  shows "at_ok (main_at p) (p\<lparr>psys := s, phttp := h, pgrpc := g, errCh := es, clock := t\<rparr>)"
  using assms by (cases "main_at p") (auto simp: alive_def)

lemma proc_inv_env:
  assumes inv: "proc_inv lib p" and al: "alive p" and t: "clock p \<le> t"
    and h: "closing h = closing (phttp p)" "server_ok h" "run_done (phttp p) \<Longrightarrow> run_done h"
    and g: "closing g = closing (pgrpc p)" "server_ok g" "run_done (pgrpc p) \<Longrightarrow> run_done g"
      "closing (pgrpc p) \<Longrightarrow> open_calls g \<le> open_calls (pgrpc p)"
    and s: "sys_inv lib s"
      "\<And>a. a \<in> set (installed (psys p)) \<Longrightarrow> quiet (heap (psys p) ! a) \<Longrightarrow>
        a \<in> set (installed s) \<and> quiet (heap s ! a)"
    and es: "None \<in> set es \<Longrightarrow> None \<in> set (errCh p) \<or> closing h \<or> closing g"
      "es \<noteq> [] \<Longrightarrow> errCh p \<noteq> [] \<or> run_done h \<or> run_done g"
  shows "proc_inv lib (p\<lparr>psys := s, phttp := h, pgrpc := g, errCh := es, clock := t\<rparr>)"
proof -
  have "at_ok (main_at p) (p\<lparr>psys := s, phttp := h, pgrpc := g, errCh := es, clock := t\<rparr>)"
    using inv al t h g by (intro at_ok_env) (auto simp: proc_inv_def)
  then show ?thesis using inv h g s es unfolding proc_inv_def by auto
qed

text \<open>The same for a change of one part only.\<close>

lemma proc_inv_http:
  assumes "proc_inv lib p" "alive p" "closing h = closing (phttp p)" "server_ok h"
    "run_done (phttp p) \<Longrightarrow> run_done h"
  shows "proc_inv lib (p\<lparr>phttp := h\<rparr>)"
  using proc_inv_env[of lib p "clock p" h "pgrpc p" "psys p" "errCh p"] assms by (auto simp: proc_inv_def)

lemma proc_inv_grpc:
  assumes "proc_inv lib p" "alive p" "closing g = closing (pgrpc p)" "server_ok g"
    "run_done (pgrpc p) \<Longrightarrow> run_done g" "closing (pgrpc p) \<Longrightarrow> open_calls g \<le> open_calls (pgrpc p)"
  shows "proc_inv lib (p\<lparr>pgrpc := g\<rparr>)"
  using proc_inv_env[of lib p "clock p" "phttp p" g "psys p" "errCh p"] assms by (auto simp: proc_inv_def)

lemma proc_inv_sys:
  assumes "proc_inv lib p" "alive p" "sys_inv lib s"
    "\<And>a. a \<in> set (installed (psys p)) \<Longrightarrow> quiet (heap (psys p) ! a) \<Longrightarrow>
      a \<in> set (installed s) \<and> quiet (heap s ! a)"
  shows "proc_inv lib (p\<lparr>psys := s\<rparr>)"
  using proc_inv_env[of lib p "clock p" "phttp p" "pgrpc p" s "errCh p"] assms by (auto simp: proc_inv_def)

lemma proc_inv_end:
  assumes inv: "proc_inv lib p" and al: "alive p"
  shows "closing (phttp p) = (e = ServerClosed) \<Longrightarrow> proc_inv lib (http_Run_end e p)"
    "closing (pgrpc p) = (e = ServerClosed) \<Longrightarrow> proc_inv lib (grpc_Run_end e p)"
proof -
  have ok: "server_ok (phttp p)" "server_ok (pgrpc p)" "sys_inv lib (psys p)"
    using inv by (auto simp: proc_inv_def)
  show "proc_inv lib (http_Run_end e p)" if "closing (phttp p) = (e = ServerClosed)"
    using proc_inv_env[OF inv al order_refl, of "run_ends (phttp p)" "pgrpc p" "psys p"
        "errCh p @ [run_result e]"] ok that
    by (auto simp: Run_defs run_ends_def run_result_def server_ok_def split: serve_end.splits)
  show "proc_inv lib (grpc_Run_end e p)" if "closing (pgrpc p) = (e = ServerClosed)"
    using proc_inv_env[OF inv al order_refl, of "phttp p" "run_ends (pgrpc p)" "psys p"
        "errCh p @ [run_result e]"] ok that
    by (auto simp: Run_defs run_ends_def run_result_def server_ok_def split: serve_end.splits)
qed

lemma proc_inv_signal:
  assumes "proc_inv lib p" "main_at p = MSelect"
  shows "proc_inv lib (on_signal p)"
  using assms by (auto simp: proc_inv_def on_signal_def http_Stop_def shut_def server_ok_def Let_def)

lemma proc_inv_server_end:
  assumes "proc_inv lib p" "main_at p = MSelect" "errCh p = e # es"
  shows "proc_inv lib (on_server_end e (p\<lparr>errCh := es\<rparr>))"
  using assms by (cases e) (auto simp: proc_inv_def on_server_end_def server_ok_def Let_def)

lemma main_stop_heap:
  "http_Policy (srv s) = Some a \<Longrightarrow> heap (main_stop s) = (heap s)[a := policy_Stop (heap s ! a)]"
  by (simp add: main_stop_def)

lemma sys_inv_main_stop:
  assumes inv: "sys_inv lib s" and a: "http_Policy (srv s) = Some a"
  shows "sys_inv lib (s\<lparr>heap := heap (main_stop s)\<rparr>)"
    "a \<in> set (installed s) \<and> quiet (heap (main_stop s) ! a)"
proof -
  have i: "a \<in> set (installed s)" using sys_invD(1,2)[OF inv] a by auto
  then have srv: "a < length (heap s)" "serving lib (heap s ! a)" using sys_invD(5)[OF inv] by auto
  then have q: "quiet (policy_Stop (heap s ! a))" using serving_quiet by blast
  have "pc \<noteq> PcStart a" if "(src, pc) \<in> set (threads s)" for src pc
    using sys_invD(4)[OF inv] i that by fastforce
  with q show "sys_inv lib (s\<lparr>heap := heap (main_stop s)\<rparr>)" unfolding main_stop_heap[OF a]
    by (intro sys_inv_heap[OF inv] serving_Stop) (auto simp: quiet_def)
  show "a \<in> set (installed s) \<and> quiet (heap (main_stop s) ! a)"
    using i q srv unfolding main_stop_heap[OF a] by simp
qed

lemma proc_inv_main:
  assumes inv: "proc_inv lib p" and m: "main_action p = Some p'"
  shows "proc_inv lib p'"
proof (cases "main_at p")
  case MPolicyStop
  obtain a where a: "http_Policy (srv (psys p)) = Some a"
    using inv sys_invD(2)[of lib "psys p"] by (auto simp: proc_inv_def)
  from inv have "sys_inv lib (psys p)" by (simp add: proc_inv_def)
  note q = sys_inv_main_stop[OF this a]
  have p': "p' = p\<lparr>psys := (psys p)\<lparr>heap := heap (main_stop (psys p))\<rparr>, released := Some a,
      main_at := MPolicyWait a\<rparr>"
    using m MPolicyStop a by (simp add: main_action_def)
  show ?thesis using inv q MPolicyStop unfolding p' proc_inv_def by simp
next
  case MGrpcCall
  with inv m show ?thesis
    by (auto simp: proc_inv_def main_action_def grpc_Stop_def shut_def server_ok_def split: if_splits)
qed (use inv m in \<open>auto simp: proc_inv_def main_action_def split: if_splits\<close>)

lemma proc_inv_pwatch [simp]: "proc_inv lib (p\<lparr>pwatch := x\<rparr>) = proc_inv lib p"
  by (cases "main_at p") (simp_all add: proc_inv_def)

lemma proc_inv_watcher_starts:
  assumes "proc_inv lib p" "alive p"
  shows "proc_inv lib (start_watcher c ne ae t0 p)"
proof -
  have "proc_inv lib (p\<lparr>psys := (psys p)\<lparr>logs := ls\<rparr>\<rparr>)" for ls
    using assms by (intro proc_inv_sys) (auto simp: proc_inv_def)
  then have "proc_inv lib (p\<lparr>psys := (psys p)\<lparr>logs := ls\<rparr>, pwatch := x\<rparr>)" for ls x
    using proc_inv_pwatch[of lib x "p\<lparr>psys := (psys p)\<lparr>logs := ls\<rparr>\<rparr>"] by simp
  with assms show ?thesis by (simp add: start_watcher_def Let_def split: sum.split)
qed

lemma proc_inv_watcher_fires:
  assumes "proc_inv lib p" "alive p"
  shows "proc_inv lib (watch_fires w p)"
proof -
  have "proc_inv lib (p\<lparr>psys := (psys p)\<lparr>threads := threads (psys p) @ [(''fsnotify'', PcLoad)]\<rparr>\<rparr>)"
    using assms by (intro proc_inv_sys sys_inv_append) (auto simp: proc_inv_def)
  from iffD2[OF proc_inv_pwatch[where x = "WatchUp (run_callback w)"] this] show ?thesis
    by (simp add: watch_fires_def Let_def)
qed

lemma proc_inv_parts:
  "proc_inv lib p \<Longrightarrow> sys_inv lib (psys p) \<and> server_ok (phttp p) \<and> server_ok (pgrpc p)"
  by (simp add: proc_inv_def)

lemma proc_inv_make:
  assumes "proc_inv lib p" "alive p"
  shows "proc_inv lib (http_Run_make c p)" "proc_inv lib (grpc_Run_make c p)"
proof -
  have s: "proc_inv lib (p\<lparr>psys := starting k n (psys p)\<rparr>)" for k n
    using assms by (intro proc_inv_sys) (auto simp: proc_inv_def)
  have ok: "server_ok (run_make (phttp p))" "server_ok (run_make (pgrpc p))"
    using proc_inv_parts[OF assms(1)] by (simp_all add: server_ok_def run_make_def)
  show "proc_inv lib (http_Run_make c p)"
    using proc_inv_http[OF s[of "''http''" "port c"], of "run_make (phttp p)"] assms(2) ok
    by (simp add: alive_def Run_defs run_make_def)
  show "proc_inv lib (grpc_Run_make c p)"
    using proc_inv_grpc[OF s[of "''grpc''" "grpcPort c"], of "run_make (pgrpc p)"] assms(2) ok
    by (simp add: alive_def Run_defs run_make_def)
qed

lemma proc_inv_serve:
  assumes "proc_inv lib p" "alive p"
  shows "\<not> closing (phttp p) \<Longrightarrow> proc_inv lib (p\<lparr>phttp := run_serve (phttp p)\<rparr>)"
    "\<not> closing (pgrpc p) \<Longrightarrow> proc_inv lib (p\<lparr>pgrpc := run_serve (pgrpc p)\<rparr>)"
  using assms by (auto intro!: proc_inv_http proc_inv_grpc simp: run_serve_def server_ok_def)

lemma proc_inv_calls:
  assumes "proc_inv lib p" "alive p"
  shows "proc_inv lib (p\<lparr>phttp := (phttp p)\<lparr>open_calls := n\<rparr>\<rparr>)"
    "listening (pgrpc p) \<or> n \<le> open_calls (pgrpc p) \<Longrightarrow>
      proc_inv lib (p\<lparr>pgrpc := (pgrpc p)\<lparr>open_calls := n\<rparr>\<rparr>)"
  using assms proc_inv_parts[OF assms(1)]
  by (auto intro!: proc_inv_http proc_inv_grpc simp: server_ok_def)

lemma proc_inv_listen_fails:
  assumes "proc_inv lib p" "alive p" "\<not> srv_set (pgrpc p)"
  shows "proc_inv lib (grpc_Run_end (ServeError t) p)"
  using proc_inv_end(2)[OF assms(1,2), of "ServeError t"] proc_inv_parts[OF assms(1)] assms(3)
  by (simp add: server_ok_def)

lemma proc_inv_tick: "proc_inv lib p \<Longrightarrow> alive p \<Longrightarrow> proc_inv lib (p\<lparr>clock := Suc (clock p)\<rparr>)"
  using proc_inv_env[of lib p "Suc (clock p)" "phttp p" "pgrpc p" "psys p" "errCh p"]
  by (auto simp: proc_inv_def)

lemma proc_inv_reloads:
  assumes inv: "proc_inv lib p" and al: "alive p" and st: "sys_step lib yaml fl (psys p) s'"
  shows "proc_inv lib (p\<lparr>psys := s'\<rparr>)"
proof -
  have s: "sys_inv lib (psys p)" using proc_inv_parts[OF inv] by blast
  show ?thesis using proc_inv_sys[OF inv al sys_step_inv[OF st s]] sys_step_quiet[OF st s] by blast
qed

lemmas proc_inv_moves =
  proc_inv_make proc_inv_serve proc_inv_calls proc_inv_end proc_inv_listen_fails proc_inv_tick
  proc_inv_reloads proc_inv_watcher_starts proc_inv_watcher_fires proc_inv_signal proc_inv_server_end
  proc_inv_main

lemma proc_step_inv:
  assumes "proc_step lib yaml c p p'" "proc_inv lib p"
  shows "proc_inv lib p'"
  using assms by cases (simp_all add: proc_inv_moves)

lemma proc_steps_inv: "proc_steps lib yaml c p p' \<Longrightarrow> proc_inv lib p \<Longrightarrow> proc_inv lib p'"
  by (induction rule: rtranclp_induct) (auto intro: proc_step_inv)

lemma main_boot_inv: "main_boot lib yaml c w = Up p \<Longrightarrow> proc_inv lib p"
  using main_start_inv[of lib yaml "cli_flags c" w]
  by (auto simp: main_boot_def proc_inv_def new_server_def server_ok_def split: if_splits option.splits sum.splits)

lemma process_inv:
  assumes "main_boot lib yaml c w = Up p0" "proc_steps lib yaml c p0 p"
  shows "proc_inv lib p"
  using proc_steps_inv[OF assms(2) main_boot_inv[OF assms(1)]] .

section \<open>Runs of the process\<close>

text \<open>An infinite run: one step after the other, and nothing any more once the process has ended.\<close>

definition run_of ::
    "('e, 'a, 'c) cel_lib \<Rightarrow> ('e, 'c) yaml_decoder \<Rightarrow> cli \<Rightarrow> ('e, 'c) process \<Rightarrow> (nat \<Rightarrow> ('e, 'c) process) \<Rightarrow> bool" where
  "run_of lib yaml c p \<sigma> \<longleftrightarrow>
     \<sigma> 0 = p \<and> (\<forall>i. proc_step lib yaml c (\<sigma> i) (\<sigma> (Suc i)) \<or> \<not> alive (\<sigma> i) \<and> \<sigma> (Suc i) = \<sigma> i)"

text \<open>The fetchers of a policy that have not returned, and those whose cancel function has been called.\<close>

definition fetching :: "('e, 'c) config \<Rightarrow> string set" where
  "fetching c = (case cregistry c of None \<Rightarrow> {} | Some r \<Rightarrow> set (running r))"

definition told_to_stop :: "('e, 'c) config \<Rightarrow> string set" where
  "told_to_stop c = (case cregistry c of None \<Rightarrow> {} | Some r \<Rightarrow> set (cancelled r))"

text \<open>What a run needs of the scheduler, of the clock, of the clients and of the fetchers, while the process lives:
  an action of the main goroutine that stays possible is taken (weak fairness); every point of time comes;
  the open streams of a gRPC server that is being stopped come to an end; a fetcher whose context is cancelled
  returns. Nothing is asked of the clients of the HTTP server.\<close>

definition main_scheduled :: "(nat \<Rightarrow> ('e, 'c) process) \<Rightarrow> bool" where
  "main_scheduled \<sigma> \<longleftrightarrow>
     (\<forall>i. (\<forall>j \<ge> i. main_action (\<sigma> j) \<noteq> None) \<longrightarrow> (\<exists>j \<ge> i. main_action (\<sigma> j) = Some (\<sigma> (Suc j))))"

definition time_passes :: "(nat \<Rightarrow> ('e, 'c) process) \<Rightarrow> bool" where
  "time_passes \<sigma> \<longleftrightarrow> (\<forall>i t. \<exists>j \<ge> i. \<not> alive (\<sigma> j) \<or> t \<le> clock (\<sigma> j))"

definition streams_end :: "(nat \<Rightarrow> ('e, 'c) process) \<Rightarrow> bool" where
  "streams_end \<sigma> \<longleftrightarrow>
     (\<forall>i. closing (pgrpc (\<sigma> i)) \<and> 0 < open_calls (pgrpc (\<sigma> i)) \<longrightarrow>
        (\<exists>j \<ge> i. \<not> alive (\<sigma> j) \<or> open_calls (pgrpc (\<sigma> j)) < open_calls (pgrpc (\<sigma> i))))"

definition fetchers_return :: "(nat \<Rightarrow> ('e, 'c) process) \<Rightarrow> bool" where
  "fetchers_return \<sigma> \<longleftrightarrow>
     (\<forall>i a n. a < length (heap (psys (\<sigma> i))) \<and> n \<in> fetching (heap (psys (\<sigma> i)) ! a) \<and>
        n \<in> told_to_stop (heap (psys (\<sigma> i)) ! a) \<longrightarrow>
        (\<exists>j \<ge> i. \<not> alive (\<sigma> j) \<or> n \<notin> fetching (heap (psys (\<sigma> j)) ! a)))"

subsection \<open>What a step keeps\<close>

text \<open>After the signal only the main goroutine itself leaves its place.\<close>

lemma place_kept:
  assumes "proc_step lib yaml c p p'" "main_at p \<noteq> MSelect"
  shows "main_action p = Some p' \<or> main_at p' = main_at p \<and> signalled p' = signalled p"
  using assms by cases (auto simp: Run_defs start_watcher_def watch_fires_def Let_def split: sum.splits)

lemma main_action_signalled: "main_action p = Some p' \<Longrightarrow> signalled p' = signalled p"
  by (auto simp: main_action_def split: main_pc.splits if_splits option.splits prod.splits)

lemma main_action_place:
  assumes "main_action p = Some p'"
  shows "main_at p' \<noteq> MSelect"
  using assms by (cases "main_at p") (auto simp: main_action_def split: if_splits option.splits prod.splits)

lemma clock_kept: "proc_step lib yaml c p p' \<Longrightarrow> clock p \<le> clock p'"
  by (induction rule: proc_step.induct)
    (auto simp: Run_defs start_watcher_def watch_fires_def on_signal_def http_Stop_def on_server_end_def main_action_def
      Let_def split: sum.splits main_pc.splits if_splits option.splits prod.splits)

lemma closing_kept:
  assumes "proc_step lib yaml c p p'" "proc_inv lib p" "closing (pgrpc p)"
  shows "closing (pgrpc p') \<and> open_calls (pgrpc p') \<le> open_calls (pgrpc p)"
proof -
  have "\<not> listening (pgrpc p)" using assms(2,3) by (simp add: proc_inv_def server_ok_def)
  with assms(1,3) show ?thesis
    by cases (auto simp: Run_defs run_make_def run_ends_def start_watcher_def watch_fires_def on_signal_def http_Stop_def
        on_server_end_def main_action_def grpc_Stop_def shut_def Let_def
        split: sum.splits main_pc.splits if_splits option.splits prod.splits)
qed

text \<open>No fetcher is added to a policy that has been installed.\<close>

lemma reg_step_running: "reg_step r r' \<Longrightarrow> set (running r') \<subseteq> set (running r)"
  by (erule reg_step.cases)
    (auto simp: stop_cancel_def refresh_def store_value_def split: option.splits sum.splits dest: set_remove1_subset[THEN subsetD])

lemma fetching_Stop [simp]: "fetching (policy_Stop c) = fetching c"
  by (simp add: fetching_def policy_Stop_def split: option.split)

lemma reload_step_fetching:
  assumes inv: "sys_inv lib s" and th: "threads s = xs @ (src, q) # ys"
    and st: "reload_step lib yaml fl w src q s = (q', s')" and a: "a \<in> set (installed s)"
  shows "fetching (heap s' ! a) = fetching (heap s ! a)"
proof -
  have lt: "a < length (heap s)" using sys_invD(5)[OF inv a] by simp
  show ?thesis
  proof (cases q)
    case (PcStart b)
    with th have "b \<noteq> a" using fresh_not_installed(1)[OF inv, of xs "(src, q)" ys b] a by auto
    with PcStart st show ?thesis by (auto split: option.splits prod.splits)
  next
    case (PcStop b old)
    with st lt show ?thesis by (auto simp: nth_update split: option.splits if_splits)
  qed (use st lt in \<open>auto simp: nth_append split: sum.splits prod.splits\<close>)
qed

lemma sys_step_fetching:
  assumes st: "sys_step lib yaml fl s s'" and inv: "sys_inv lib s" and a: "a \<in> set (installed s)"
  shows "fetching (heap s' ! a) \<subseteq> fetching (heap s ! a)"
  using st
proof cases
  case (run xs src q ys w q' t)
  with reload_step_fetching[OF inv _ _ a] show ?thesis by auto
next
  case (fetcher b r r')
  with sys_invD(5)[OF inv a] reg_step_running[of r r'] show ?thesis
    by (auto simp: nth_update fetching_def)
qed auto

lemma main_action_heap:
  assumes "main_action p = Some p'" "main_at p = MPolicyWait a"
  shows "psys p' = psys p"
  using assms by (auto simp: main_action_def split: if_splits)

lemma fetching_kept:
  assumes st: "proc_step lib yaml c p p'" and inv: "proc_inv lib p" and a: "main_at p = MPolicyWait a"
  shows "fetching (heap (psys p') ! a) \<subseteq> fetching (heap (psys p) ! a)"
  using st
proof cases
  case (reloads s')
  have "sys_inv lib (psys p)" "a \<in> set (installed (psys p))" using inv a by (auto simp: proc_inv_def)
  with reloads sys_step_fetching[of lib yaml "cli_flags c" "psys p" s' a] show ?thesis by simp
next
  case main
  with main_action_heap[OF _ a] show ?thesis by auto
qed (use a in \<open>auto simp: Run_defs starting_def start_watcher_def watch_fires_def Let_def split: sum.splits\<close>)

text \<open>The fetchers of a policy that the shutdown waits for have all been told to return.\<close>

lemma released_told:
  assumes inv: "proc_inv lib p" and a: "main_at p = MPolicyWait a"
  shows "a < length (heap (psys p))" "fetching (heap (psys p) ! a) \<subseteq> told_to_stop (heap (psys p) ! a)"
    "finite (fetching (heap (psys p) ! a))" "fetching (heap (psys p) ! a) = {} \<Longrightarrow> drained (heap (psys p) ! a)"
proof -
  have "a \<in> set (installed (psys p))" "quiet (heap (psys p) ! a)" "sys_inv lib (psys p)"
    using inv a by (auto simp: proc_inv_def)
  then obtain r where r: "a < length (heap (psys p))" "cregistry (heap (psys p) ! a) = Some r"
    "set (running r) \<subseteq> set (cancelled r)"
    using sys_invD(5)[of lib "psys p" a] by (auto simp: quiet_def serving_def owned_def)
  then show "a < length (heap (psys p))" "fetching (heap (psys p) ! a) \<subseteq> told_to_stop (heap (psys p) ! a)"
    "finite (fetching (heap (psys p) ! a))" "fetching (heap (psys p) ! a) = {} \<Longrightarrow> drained (heap (psys p) ! a)"
    by (simp_all add: fetching_def told_to_stop_def drained_def)
qed

section \<open>The shutdown ends\<close>

lemma eventually_zero:
  fixes f :: "nat \<Rightarrow> nat"
  assumes "\<And>k. i \<le> k \<Longrightarrow> f (Suc k) \<le> f k" "\<And>k. i \<le> k \<Longrightarrow> 0 < f k \<Longrightarrow> \<exists>j \<ge> k. f j < f k"
  shows "\<exists>j \<ge> i. \<forall>k \<ge> j. f k = 0"
  using assms
proof (induction "f i" arbitrary: i rule: less_induct)
  case less
  show ?case
  proof (cases "f i = 0")
    case True
    have "f k = 0" if "i \<le> k" for k
      using that by (induction rule: dec_induct) (use True less(2) in \<open>force+\<close>)
    then show ?thesis by blast
  next
    case False
    then obtain m where m: "i \<le> m" "f m < f i" using less(3)[of i] by auto
    from less(1)[OF m(2)] m(1) less(2,3) obtain j where "m \<le> j" "\<forall>k \<ge> j. f k = 0"
      by (metis order_trans)
    with m(1) show ?thesis by (meson order_trans)
  qed
qed

text \<open>The runs that the theorem is about, and what holds in all their states.\<close>

definition fair_run ::
    "('e, 'a, 'c) cel_lib \<Rightarrow> ('e, 'c) yaml_decoder \<Rightarrow> cli \<Rightarrow> ('e, 'c) process \<Rightarrow> (nat \<Rightarrow> ('e, 'c) process) \<Rightarrow> bool" where
  "fair_run lib yaml c p \<sigma> \<longleftrightarrow>
     run_of lib yaml c p \<sigma> \<and> main_scheduled \<sigma> \<and> time_passes \<sigma> \<and> streams_end \<sigma> \<and> fetchers_return \<sigma>"

lemma fair_inv:
  assumes "run_of lib yaml c p \<sigma>" "proc_inv lib p" "signalled p"
  shows "proc_inv lib (\<sigma> i) \<and> signalled (\<sigma> i)"
proof (induction i)
  case (Suc i)
  have "main_at (\<sigma> i) \<noteq> MSelect" using Suc by (auto simp: proc_inv_def)
  moreover have "proc_step lib yaml c (\<sigma> i) (\<sigma> (Suc i)) \<or> \<sigma> (Suc i) = \<sigma> i" using assms(1) by (auto simp: run_of_def)
  ultimately show ?case
    using Suc proc_step_inv place_kept main_action_signalled by metis
qed (use assms in \<open>simp add: run_of_def\<close>)

lemma run_step: "run_of lib yaml c p \<sigma> \<Longrightarrow> alive (\<sigma> i) \<Longrightarrow> proc_step lib yaml c (\<sigma> i) (\<sigma> (Suc i))"
  by (auto simp: run_of_def)

text \<open>A place of the main goroutine is left by its action when the action becomes possible for good.\<close>

lemma place_left:
  assumes run: "run_of lib yaml c p \<sigma>" "main_scheduled \<sigma>" "proc_inv lib p" "signalled p"
    and m: "main_at (\<sigma> i) = m" "\<And>n. m \<noteq> MExit n"
    and en: "\<forall>k \<ge> i. main_at (\<sigma> k) = m \<Longrightarrow> \<exists>k \<ge> i. \<forall>l \<ge> k. main_action (\<sigma> l) \<noteq> None"
  shows "\<exists>j \<ge> i. main_at (\<sigma> j) = m \<and> main_action (\<sigma> j) = Some (\<sigma> (Suc j))"
proof (cases "\<forall>k \<ge> i. main_at (\<sigma> k) = m")
  case True
  then obtain k where k: "k \<ge> i" "\<forall>l \<ge> k. main_action (\<sigma> l) \<noteq> None" using en by auto
  then obtain j where "j \<ge> k" "main_action (\<sigma> j) = Some (\<sigma> (Suc j))"
    using run(2) by (auto simp: main_scheduled_def)
  with True k(1) show ?thesis by (meson order_trans)
next
  case False
  define j where "j = (LEAST k. k \<ge> i \<and> main_at (\<sigma> k) \<noteq> m)"
  have j: "j \<ge> i" "main_at (\<sigma> j) \<noteq> m" "\<And>k. k < j \<Longrightarrow> k \<ge> i \<Longrightarrow> main_at (\<sigma> k) = m"
    using False LeastI_ex[of "\<lambda>k. k \<ge> i \<and> main_at (\<sigma> k) \<noteq> m"] not_less_Least[of _ "\<lambda>k. k \<ge> i \<and> main_at (\<sigma> k) \<noteq> m"]
    unfolding j_def by blast+
  with m(1) have "j \<noteq> i" by auto
  with j(1) obtain k where k: "j = Suc k" "k \<ge> i" by (cases j) auto
  with j(3) have at: "main_at (\<sigma> k) = m" by simp
  then have "alive (\<sigma> k)" using m(2) by (simp add: alive_def)
  moreover have "main_at (\<sigma> k) \<noteq> MSelect" using fair_inv[OF run(1,3,4), of k] by (auto simp: proc_inv_def)
  ultimately have "main_action (\<sigma> k) = Some (\<sigma> (Suc k))"
    using place_kept[OF run_step[OF run(1)]] at j(2) k(1) by blast
  with at k(2) show ?thesis by blast
qed

text \<open>The waits end: that for the HTTP server by its deadline, that for the gRPC server when its streams have ended, and
  that for the policy when its fetchers have returned.\<close>

lemma clock_mono:
  assumes "run_of lib yaml c p \<sigma>" "k \<le> l"
  shows "clock (\<sigma> k) \<le> clock (\<sigma> l)"
proof (rule lift_Suc_mono_le[of "\<lambda>i. clock (\<sigma> i)", OF _ assms(2)])
  show "clock (\<sigma> i) \<le> clock (\<sigma> (Suc i))" for i
    using assms(1) clock_kept[of lib yaml c "\<sigma> i" "\<sigma> (Suc i)"] unfolding run_of_def by (metis order_refl)
qed

lemma http_wait_ends:
  assumes "run_of lib yaml c p \<sigma>" "time_passes \<sigma>" "\<forall>k \<ge> j. main_at (\<sigma> k) = MHttpStop d"
  shows "\<exists>k \<ge> j. \<forall>l \<ge> k. main_action (\<sigma> l) \<noteq> None"
proof -
  obtain k where k: "k \<ge> j" "\<not> alive (\<sigma> k) \<or> d \<le> clock (\<sigma> k)" using assms(2) by (auto simp: time_passes_def)
  with assms(3) have "d \<le> clock (\<sigma> k)" by (auto simp: alive_def)
  then have "d \<le> clock (\<sigma> l)" if "l \<ge> k" for l using clock_mono[OF assms(1) that] by simp
  with k(1) assms(3) show ?thesis by (intro exI[of _ k]) (simp add: main_action_def)
qed

lemma grpc_wait_ends:
  assumes run: "run_of lib yaml c p \<sigma>" "streams_end \<sigma>" "proc_inv lib p" "signalled p"
    and at: "\<forall>k \<ge> j. main_at (\<sigma> k) = MGrpcStop"
  shows "\<exists>k \<ge> j. \<forall>l \<ge> k. main_action (\<sigma> l) \<noteq> None"
proof -
  note inv = fair_inv[OF run(1,3,4)]
  have al: "alive (\<sigma> k)" if "k \<ge> j" for k using at that by (simp add: alive_def)
  have cl: "closing (pgrpc (\<sigma> k))" if "k \<ge> j" for k using inv[of k] at that by (auto simp: proc_inv_def)
  have "\<exists>k \<ge> j. \<forall>l \<ge> k. open_calls (pgrpc (\<sigma> l)) = 0"
  proof (rule eventually_zero)
    fix k
    assume k: "j \<le> k"
    show "open_calls (pgrpc (\<sigma> (Suc k))) \<le> open_calls (pgrpc (\<sigma> k))"
      using closing_kept[OF run_step[OF run(1) al[OF k]]] inv cl[OF k] by blast
    show "\<exists>m \<ge> k. open_calls (pgrpc (\<sigma> m)) < open_calls (pgrpc (\<sigma> k))" if "0 < open_calls (pgrpc (\<sigma> k))"
      using run(2) cl[OF k] al k that unfolding streams_end_def by (meson order_trans)
  qed
  with at show ?thesis by (auto simp: main_action_def)
qed

lemma policy_wait_ends:
  assumes run: "run_of lib yaml c p \<sigma>" "fetchers_return \<sigma>" "proc_inv lib p" "signalled p"
    and at: "\<forall>k \<ge> j. main_at (\<sigma> k) = MPolicyWait a"
  shows "\<exists>k \<ge> j. \<forall>l \<ge> k. main_action (\<sigma> l) \<noteq> None"
proof -
  let ?F = "\<lambda>k. fetching (heap (psys (\<sigma> k)) ! a)"
  have inv: "proc_inv lib (\<sigma> k)" for k using fair_inv[OF run(1,3,4)] by blast
  have al: "alive (\<sigma> k)" if "k \<ge> j" for k using at that by (simp add: alive_def)
  have told: "a < length (heap (psys (\<sigma> k)))" "?F k \<subseteq> told_to_stop (heap (psys (\<sigma> k)) ! a)" "finite (?F k)"
    "?F k = {} \<Longrightarrow> drained (heap (psys (\<sigma> k)) ! a)" if "k \<ge> j" for k
    using released_told[OF inv] at that by auto
  have sub: "?F (Suc k) \<subseteq> ?F k" if "k \<ge> j" for k
    using fetching_kept[OF run_step[OF run(1) al[OF that]] inv] at that by blast
  have subs: "?F l \<subseteq> ?F k" if "k \<ge> j" "l \<ge> k" for k l
    using that(2)
  proof (induction rule: dec_induct)
    case (step n)
    with sub[of n] that(1) show ?case by simp
  qed simp
  have "\<exists>k \<ge> j. \<forall>l \<ge> k. card (?F l) = 0"
  proof (rule eventually_zero)
    fix k
    assume k: "j \<le> k"
    show "card (?F (Suc k)) \<le> card (?F k)" using sub told(3) k by (intro card_mono) auto
    assume "0 < card (?F k)"
    then obtain n where n: "n \<in> ?F k" by (auto simp: card_gt_0_iff)
    then have "n \<in> told_to_stop (heap (psys (\<sigma> k)) ! a)" using told(2)[OF k] by blast
    with n obtain m where m: "m \<ge> k" "\<not> alive (\<sigma> m) \<or> n \<notin> ?F m"
      using run(2) told(1)[OF k] unfolding fetchers_return_def by blast
    with al[of m] k have m: "m \<ge> k" "n \<notin> ?F m" by auto
    then have "?F m \<subset> ?F k" using subs[OF k m(1)] n by blast
    with told(3)[OF k] m(1) show "\<exists>m \<ge> k. card (?F m) < card (?F k)" using psubset_card_mono by blast
  qed
  then obtain k where k: "k \<ge> j" "\<forall>l \<ge> k. card (?F l) = 0" by blast
  then have "drained (heap (psys (\<sigma> l)) ! a)" if "l \<ge> k" for l
    using told(3,4)[of l] that by (auto simp: card_eq_0_iff)
  with k(1) at show ?thesis by (intro exI[of _ k]) (auto simp: main_action_def)
qed

text \<open>One place after the other: where the main goroutine goes next.\<close>

definition next_places :: "main_pc \<Rightarrow> main_pc set" where
  "next_places m =
     (case m of
        MHttpStop d \<Rightarrow> {MGrpcCall}
      | MGrpcCall \<Rightarrow> {MGrpcStop, MPolicyStop}
      | MGrpcStop \<Rightarrow> {MPolicyStop}
      | MPolicyStop \<Rightarrow> range MPolicyWait
      | MPolicyWait a \<Rightarrow> {MExit 0}
      | _ \<Rightarrow> {})"

lemma main_action_next:
  assumes "proc_inv lib p" "main_action p = Some p'"
  shows "main_at p' \<in> next_places (main_at p)"
proof -
  have "http_Policy (srv (psys p)) \<noteq> None" using assms(1) sys_invD(2)[of lib "psys p"] by (auto simp: proc_inv_def)
  with assms(2) show ?thesis
    by (cases "main_at p") (auto simp: main_action_def next_places_def grpc_Stop_def split: if_splits)
qed

lemma never_waits: "main_at p = MGrpcCall \<or> main_at p = MPolicyStop \<Longrightarrow> main_action p \<noteq> None"
  by (elim disjE) (simp_all add: main_action_def case_prod_beta split: option.split)

lemma acts_now:
  fixes \<sigma> :: "nat \<Rightarrow> ('e, 'c) process"
  assumes "\<forall>k \<ge> i. main_at (\<sigma> k) = main_at (\<sigma> i)" "main_at (\<sigma> i) = MGrpcCall \<or> main_at (\<sigma> i) = MPolicyStop"
  shows "\<exists>k \<ge> i. \<forall>l \<ge> k. main_action (\<sigma> l) \<noteq> None"
proof -
  have "main_action (\<sigma> l) \<noteq> None" if "i \<le> l" for l
  proof -
    have "main_at (\<sigma> l) = main_at (\<sigma> i)" using assms(1)[rule_format, OF that] .
    with assms(2) show ?thesis using never_waits by metis
  qed
  then show ?thesis by blast
qed

lemma fair_run_moves:
  assumes run: "fair_run lib yaml c p \<sigma>" and inv: "proc_inv lib p" "signalled p"
    and al: "alive (\<sigma> i)"
  shows "\<exists>j \<ge> i. main_at (\<sigma> j) \<in> next_places (main_at (\<sigma> i))"
proof -
  note r = run[unfolded fair_run_def]
  have at: "main_at (\<sigma> k) \<noteq> MSelect" for k using fair_inv[of lib yaml c p \<sigma> k] r inv by (auto simp: proc_inv_def)
  have en: "\<exists>k \<ge> i. \<forall>l \<ge> k. main_action (\<sigma> l) \<noteq> None" if j: "\<forall>k \<ge> i. main_at (\<sigma> k) = main_at (\<sigma> i)"
  proof (cases "main_at (\<sigma> i)")
    case MSelect
    with at show ?thesis by blast
  next
    case (MHttpStop d)
    show ?thesis using http_wait_ends[OF _ _ j[unfolded MHttpStop], of lib yaml c p] r by blast
  next
    case MGrpcStop
    show ?thesis using grpc_wait_ends[OF _ _ inv j[unfolded MGrpcStop], of yaml c] r by blast
  next
    case (MPolicyWait a)
    show ?thesis using policy_wait_ends[OF _ _ inv j[unfolded MPolicyWait], of yaml c] r by blast
  next
    case (MExit n)
    with al show ?thesis by (simp add: alive_def)
  qed (use j acts_now in blast)+
  have ne: "main_at (\<sigma> i) \<noteq> MExit n" for n using al by (simp add: alive_def)
  have "\<exists>j \<ge> i. main_at (\<sigma> j) = main_at (\<sigma> i) \<and> main_action (\<sigma> j) = Some (\<sigma> (Suc j))"
    by (rule place_left[OF conjunct1[OF r] conjunct1[OF conjunct2[OF r]] inv refl ne en])
  then obtain j where j: "j \<ge> i" "main_at (\<sigma> j) = main_at (\<sigma> i)" "main_action (\<sigma> j) = Some (\<sigma> (Suc j))" by blast
  have "proc_inv lib (\<sigma> j)" using fair_inv[of lib yaml c p \<sigma> j] r inv by blast
  from main_action_next[OF this j(3)] j(1,2) show ?thesis by (metis le_SucI)
qed

text \<open>The number of places that are left.\<close>

fun places_left :: "main_pc \<Rightarrow> nat" where
  "places_left (MHttpStop d) = 5"
| "places_left MGrpcCall = 4"
| "places_left MGrpcStop = 3"
| "places_left MPolicyStop = 2"
| "places_left (MPolicyWait a) = 1"
| "places_left _ = 0"

lemma next_places_left: "m' \<in> next_places m \<Longrightarrow> places_left m' < places_left m"
  by (cases m) (auto simp: next_places_def)

lemma fair_run_ends:
  assumes "fair_run lib yaml c p \<sigma>" "proc_inv lib p" "signalled p"
  shows "\<exists>j. main_at (\<sigma> j) = MExit 0"
proof -
  have "\<exists>j. main_at (\<sigma> j) = MExit 0" for i :: nat
  proof (induction "places_left (main_at (\<sigma> i))" arbitrary: i rule: less_induct)
    case less
    show ?case
    proof (cases "alive (\<sigma> i)")
      case True
      then show ?thesis using fair_run_moves[OF assms] less next_places_left by blast
    next
      case False
      have "proc_inv lib (\<sigma> i) \<and> signalled (\<sigma> i)" using assms fair_inv unfolding fair_run_def by blast
      with False show ?thesis by (auto simp: alive_def proc_inv_def)
    qed
  qed
  then show ?thesis .
qed

section \<open>Streams before the policy\<close>

text \<open>When the gRPC server was up at the signal, the main goroutine gets to the policy only through \<^verbatim>\<open>GracefulStop\<close>.\<close>

definition streams_first :: "('e, 'c) process \<Rightarrow> bool" where
  "streams_first p \<longleftrightarrow>
     signalled p \<and> main_at p \<noteq> MSelect \<and> srv_set (pgrpc p) \<and>
     ((\<exists>d. main_at p = MHttpStop d) \<or> main_at p = MGrpcCall \<or> closing (pgrpc p))"

lemma streams_first_step:
  assumes "proc_step lib yaml c p p'" "proc_inv lib p" "streams_first p"
  shows "streams_first p'"
proof -
  have m: "main_at p \<noteq> MSelect" using assms(3) by (simp add: streams_first_def)
  show ?thesis
  proof (cases "main_action p = Some p'")
    case True
    with main_action_signalled[OF True] main_action_place[OF True] assms(3) show ?thesis
      by (cases "main_at p")
        (auto simp: streams_first_def main_action_def grpc_Stop_def shut_def split: if_splits option.splits)
  next
    case False
    have "srv_set (pgrpc p') \<and> (closing (pgrpc p) \<longrightarrow> closing (pgrpc p'))"
      using assms(1,3) m False
      by cases (auto simp: streams_first_def Run_defs run_make_def run_ends_def run_serve_def start_watcher_def
          watch_fires_def Let_def split: sum.splits)
    with place_kept[OF assms(1) m] False assms(3) show ?thesis by (auto simp: streams_first_def)
  qed
qed

lemma streams_first_steps:
  "proc_steps lib yaml c p q \<Longrightarrow> proc_inv lib p \<Longrightarrow> streams_first p \<Longrightarrow> streams_first q \<and> proc_inv lib q"
  by (induction rule: rtranclp_induct) (auto intro: streams_first_step proc_step_inv)

lemma streams_first_open:
  assumes "proc_inv lib q" "streams_first q" "0 < open_calls (pgrpc q)"
  shows "alive q \<and> released q = None"
  using assms by (cases "main_at q") (auto simp: proc_inv_def streams_first_def alive_def)

section \<open>Reloads by the watcher\<close>

text \<open>The reloads that the watcher began are the callbacks of its history.\<close>

definition watch_ok :: "cli \<Rightarrow> ('e, 'c) process \<Rightarrow> bool" where
  "watch_ok c p \<longleftrightarrow>
     (case pwatch p of
        WatchOff \<Rightarrow> \<not> watch c \<and> watcher_reloads (psys p) = 0
      | WatchStarting \<Rightarrow> watch c \<and> watcher_reloads (psys p) = 0
      | WatchUp w \<Rightarrow>
          watch c \<and> watch_inv (effective_debounce (watch_debounce c)) w \<and>
          watcher_reloads (psys p) = callbacks w
      | WatchEnded e \<Rightarrow> watch c \<and> watcher_reloads (psys p) = 0)"

lemma watch_ok_cong:
  "pwatch p' = pwatch p \<Longrightarrow> watcher_reloads (psys p') = watcher_reloads (psys p) \<Longrightarrow>
   watch_ok c p' = watch_ok c p"
  by (cases "pwatch p") (simp_all add: watch_ok_def)

lemma watcher_reloads_simps [simp]:
  "watcher_reloads (s\<lparr>logs := ls\<rparr>) = watcher_reloads s"
  "watcher_reloads (s\<lparr>heap := h\<rparr>) = watcher_reloads s"
  "watcher_reloads (starting k n s) = watcher_reloads s"
  "watcher_reloads (s\<lparr>threads := threads s @ [(''fsnotify'', q)]\<rparr>) = Suc (watcher_reloads s)"
  by (simp_all add: watcher_reloads_def starting_def)

lemma main_action_watch:
  "main_action p = Some p' \<Longrightarrow>
   pwatch p' = pwatch p \<and> watcher_reloads (psys p') = watcher_reloads (psys p)"
  by (auto simp: main_action_def split: main_pc.splits if_splits option.splits prod.splits)

lemma watch_ok_starts:
  assumes "watch_ok c p" "pwatch p = WatchStarting"
  shows "watch_ok c (start_watcher c ne ae t0 p)"
proof (cases "watch_Run ne ae (configPath (cli_flags c)) (watch_debounce c) t0")
  case (Inl e)
  with assms show ?thesis by (simp add: start_watcher_def watch_ok_def Let_def)
next
  case (Inr w)
  then have "watch_inv (effective_debounce (watch_debounce c)) w" by (rule watch_Run_inv)
  moreover have "callbacks w = 0" using Inr by (auto simp: watch_Run_def callbacks_def Let_def split: option.splits)
  ultimately show ?thesis using assms Inr by (simp add: start_watcher_def watch_ok_def)
qed

lemma watch_ok_fires:
  assumes "watch_ok c p" "pwatch p = WatchUp u" "timer u = Some t" "t \<le> now u"
  shows "watch_ok c (watch_fires u p)"
proof -
  have "watch_inv (effective_debounce (watch_debounce c)) (run_callback u)"
    using assms watch_step_inv[OF expire[OF assms(3,4)]] by (simp add: watch_ok_def)
  moreover have "callbacks (run_callback u) = Suc (callbacks u)"
    by (simp add: callbacks_def run_callback_def)
  ultimately show ?thesis using assms by (simp add: watch_ok_def watch_fires_def Let_def)
qed

lemma proc_step_watch_ok:
  assumes "proc_step lib yaml c p p'" "watch_ok c p"
  shows "watch_ok c p'"
proof -
  note keep = watch_ok_cong[THEN iffD2, OF _ _ assms(2)]
  show ?thesis using assms(1)
  proof cases
    case (watcher_starts ne ae t0)
    with watch_ok_starts[OF assms(2)] show ?thesis by simp
  next
    case (watcher_moves u u')
    with assms(2) watch_step_inv[OF watcher_moves(4)] show ?thesis by (simp add: watch_ok_def)
  next
    case (watcher_fires u t)
    with watch_ok_fires[OF assms(2)] show ?thesis by simp
  next
    case main
    with main_action_watch keep show ?thesis by blast
  next
    case (server_end e es)
    then show ?thesis by (intro keep; cases e) (simp_all add: on_server_end_def Let_def)
  qed (rule keep; simp add: Run_defs on_signal_def http_Stop_def Let_def)+
qed

lemma process_watch_ok:
  assumes "main_boot lib yaml c w = Up p0" "proc_steps lib yaml c p0 p"
  shows "watch_ok c p"
  using assms(2)
proof (induction rule: rtranclp_induct)
  case base
  have "threads s = []" if "main_start lib yaml fl w = Some (Inr s)" for fl s
    using that by (auto simp: main_start_def split: option.splits sum.splits prod.splits)
  with assms(1) show ?case
    by (auto simp: main_boot_def watch_ok_def watcher_reloads_def split: if_splits option.splits sum.splits)
qed (rule proc_step_watch_ok)

lemma debounced_callbacks:
  assumes "debounced d h"
  shows "length (filter is_reload h) \<le> length (filter (\<lambda>i. \<not> is_reload i) h)"
  using assms
proof (induction h rule: length_induct)
  case (1 h)
  show ?case
  proof (cases h rule: rev_cases)
    case (snoc h1 x)
    have d1: "debounced d h1" using 1(2) unfolding snoc debounced_def by (auto simp: nth_append split: if_splits)
    show ?thesis
    proof (cases x)
      case (Changed t)
      with 1(1) d1 snoc show ?thesis by (simp add: le_SucI)
    next
      case (Reloaded t)
      with 1(2) snoc have "0 < length h1 \<and> (\<exists>s. h1 ! (length h1 - 1) = Changed s)"
        unfolding debounced_def by (auto simp: nth_append split: if_splits dest!: spec[of _ "length h1"])
      then obtain h2 s where h1: "h1 = h2 @ [Changed s]"
        by (metis append_butlast_last_id last_conv_nth length_greater_0_conv)
      have "debounced d h2" using d1 unfolding h1 debounced_def by (auto simp: nth_append split: if_splits)
      with 1(1) Reloaded snoc h1 show ?thesis by simp
    qed
  qed simp
qed

section \<open>Properties\<close>

lemma main_start_cases:
  "main_start lib yaml fl w \<noteq> None"
  "main_start lib yaml fl w = Some (Inl (LoadFailed e)) \<Longrightarrow>
    LoadFile (ReadFile w) (Getenv w) lib yaml (configPath fl) = Inl e"
  "main_start lib yaml fl w = Some (Inl (StartFailed x)) \<Longrightarrow>
    \<exists>cfg cfg'. LoadFile (ReadFile w) (Getenv w) lib yaml (configPath fl) = Inr cfg \<and>
      policy_Start (ReadFile w) (HttpGet w) cfg = Some (Some x, cfg')"
  "main_start lib yaml fl w \<noteq> Some (Inl (LoggingFailed l))"
proof -
  show "main_start lib yaml fl w \<noteq> None"
  proof (cases "LoadFile (ReadFile w) (Getenv w) lib yaml (configPath fl)")
    case (Inr cfg)
    then obtain x where "policy_Start (ReadFile w) (HttpGet w) cfg = Some x"
      using policy_Start_loaded(1)[OF LoadFile_loaded] by (metis not_None_eq)
    with Inr show ?thesis by (auto simp: main_start_def split: option.split prod.split)
  qed (simp add: main_start_def)
qed (auto simp: main_start_def split: sum.splits option.splits prod.splits)

text \<open>C14: The exit codes of the process. With \<^verbatim>\<open>--version\<close> it prints the version and ends with 0. Otherwise it ends
  with 1 before it serves anything when the policy does not load or its facts do not start, and it never panics
  there. Once it is up, and whatever the servers, the reloads and the clients do, it ends with 0 only after a
  signal, when the policy of the HTTP server has been stopped and its fetchers are gone, and no stream is left on the
  gRPC server if \<^verbatim>\<open>Stop\<close> closed it (a server that \<^verbatim>\<open>Run\<close> makes after \<^verbatim>\<open>Stop\<close> looked is not closed and may
  still have streams); and it ends with 1 only without a signal, because one of the servers has failed. There is no
  other exit code.\<close>

theorem exit_codes:
  "case main_boot lib yaml c w of
     Printed v \<Rightarrow> showVersion c \<and> v = buildVersion (cli_flags c) \<and> boot_exit (Printed v :: ('e, 'c) boot) = Some 0
   | FatalExit (LoadFailed e) \<Rightarrow>
       \<not> showVersion c \<and> boot_exit (FatalExit (LoadFailed e) :: ('e, 'c) boot) = Some 1 \<and>
       LoadFile (ReadFile w) (Getenv w) lib yaml (configPath (cli_flags c)) = Inl e
   | FatalExit (StartFailed e) \<Rightarrow>
       \<not> showVersion c \<and> boot_exit (FatalExit (StartFailed e) :: ('e, 'c) boot) = Some 1 \<and>
       (\<exists>cfg cfg'. LoadFile (ReadFile w) (Getenv w) lib yaml (configPath (cli_flags c)) = Inr cfg \<and>
          policy_Start (ReadFile w) (HttpGet w) cfg = Some (Some e, cfg'))
   | FatalExit (LoggingFailed e) \<Rightarrow> False
   | BootPanic \<Rightarrow> False
   | Up p0 \<Rightarrow>
       \<not> showVersion c \<and>
       (\<forall>p n. proc_steps lib yaml c p0 p \<and> main_at p = MExit n \<longrightarrow>
          n = 0 \<and> signalled p \<and> (closing (pgrpc p) \<longrightarrow> open_calls (pgrpc p) = 0) \<and>
            (\<exists>a. released p = Some a \<and> drained (heap (psys p) ! a)) \<or>
          n = 1 \<and> \<not> signalled p \<and> (run_done (phttp p) \<or> run_done (pgrpc p)) \<and> released p = None)"
proof (cases "main_boot lib yaml c w")
  case (Up p0)
  have "at_ok (MExit n) p" if "proc_steps lib yaml c p0 p" "main_at p = MExit n" for p n
    using process_inv[OF Up that(1)] that(2) by (simp add: proc_inv_def)
  moreover have "\<not> showVersion c" using Up by (auto simp: main_boot_def split: if_splits)
  ultimately show ?thesis using Up by simp
next
  case (FatalExit e)
  then have "\<not> showVersion c" "main_start lib yaml (cli_flags c) w = Some (Inl e)"
    by (auto simp: main_boot_def split: if_splits option.splits sum.splits)
  with FatalExit main_start_cases(2,3)[of lib yaml "cli_flags c" w] show ?thesis
    by (cases e) (simp_all add: boot_exit_def main_start_cases(4))
next
  case BootPanic
  with main_start_cases(1)[of lib yaml "cli_flags c" w] show ?thesis
    by (auto simp: main_boot_def split: if_splits option.splits sum.splits)
qed (auto simp: main_boot_def boot_exit_def split: if_splits option.splits sum.splits)

text \<open>C13: A shutdown ends. From every state that the process can reach after the signal, every infinite run of all
  its parts (new requests, streams, reloads and refreshes included) gets to the exit with code 0, provided that the
  scheduler runs the main goroutine when its next action stays possible, that time passes, that the streams still
  open on the gRPC server end once it is being stopped, and that a fetcher whose context is cancelled returns.
  Requests that never end do not matter: the wait for the HTTP server is bounded by its timeout.\<close>

theorem shutdown_terminates:
  assumes "main_boot lib yaml c w = Up p0" "proc_steps lib yaml c p0 p" "signalled p"
    and "run_of lib yaml c p \<sigma>" "main_scheduled \<sigma>" "time_passes \<sigma>" "streams_end \<sigma>" "fetchers_return \<sigma>"
  shows "\<exists>i. main_at (\<sigma> i) = MExit 0"
  using fair_run_ends[of lib yaml c p \<sigma>] process_inv[OF assms(1,2)] assms(3-8) by (simp add: fair_run_def)

text \<open>C37: The policy outlives the streams. When the gRPC server was up at the signal, then as long as one of its streams
  is open the shutdown has not got past the servers: the policy that the streams are decided by has not been
  stopped by it and the process has not ended, however long that takes.\<close>

theorem policy_stopped_after_streams:
  assumes "main_boot lib yaml c w = Up p0" "proc_steps lib yaml c p0 p" "main_at p = MSelect" "srv_set (pgrpc p)"
    and "proc_steps lib yaml c (on_signal p) q" "0 < open_calls (pgrpc q)"
  shows "alive q \<and> released q = None"
proof -
  have "proc_inv lib (on_signal p)" using process_inv[OF assms(1,2)] assms(3) by (rule proc_inv_signal)
  moreover have "streams_first (on_signal p)"
    using assms(4) by (auto simp: streams_first_def on_signal_def http_Stop_def Let_def)
  ultimately show ?thesis using streams_first_steps[OF assms(5)] streams_first_open assms(6) by blast
qed

text \<open>The sample policy again: the process is started and gets the signal before its servers run.\<close>

definition sample_cli :: cli where
  "sample_cli = \<lparr>cli_flags = sample_flags, port = 8080, grpcPort = 9090, watch = False, watchDebounceMs = 200, showVersion = False\<rparr>"

definition sample_process :: "(nat, unit) process" where
  "sample_process = \<lparr>psys = sample_sys, phttp = new_server, pgrpc = new_server, errCh = [],
     main_at = MSelect, pwatch = WatchOff, clock = 0, signalled = False, released = None\<rparr>"

lemma sample_boot: "main_boot sample_lib sample_yaml sample_cli sample_world = Up sample_process"
  by (simp add: main_boot_def sample_cli_def sample_start sample_process_def)

definition sample_stopping :: "(nat, unit) process" where
  "sample_stopping = on_signal sample_process"

lemma sample_stopping_steps:
  "proc_steps sample_lib sample_yaml sample_cli sample_process sample_stopping" "signalled sample_stopping"
proof -
  show "proc_steps sample_lib sample_yaml sample_cli sample_process sample_stopping"
    unfolding sample_stopping_def by (rule r_into_rtranclp, rule proc_step.signal) (simp add: sample_process_def)
  show "signalled sample_stopping"
    by (simp add: sample_stopping_def on_signal_def sample_process_def http_Stop_def new_server_def Let_def)
qed

text \<open>The run of this process: \<^verbatim>\<open>Stop\<close> of the gRPC server, \<^verbatim>\<open>Stop\<close> of the policy, the end.\<close>

definition sample_stops :: "nat \<Rightarrow> (nat, unit) process" where
  "sample_stops i =
     (if i = 0 then sample_stopping
      else if i = 1 then sample_stopping\<lparr>main_at := MPolicyStop\<rparr>
      else if i = 2 then sample_stopping\<lparr>released := Some 0, main_at := MPolicyWait 0\<rparr>
      else sample_stopping\<lparr>released := Some 0, main_at := MExit 0\<rparr>)"

lemma sample_stopping_fields:
  "main_at sample_stopping = MGrpcCall" "pgrpc sample_stopping = new_server"
  "heap (psys sample_stopping) = heap sample_sys" "srv (psys sample_stopping) = srv sample_sys"
  by (simp_all add: sample_stopping_def on_signal_def sample_process_def http_Stop_def new_server_def Let_def)

lemma sample_sys_parts: "http_Policy (srv sample_sys) = Some 0" "heap sample_sys = [sample_policy]"
  using sample_sys_fields by (simp_all add: http_Policy_def http_New_def)

lemma sample_stops_acts:
  "main_action (sample_stops 0) = Some (sample_stops 1)"
  "main_action (sample_stops 1) = Some (sample_stops 2)"
  "main_action (sample_stops 2) = Some (sample_stops 3)"
  "i \<ge> 3 \<Longrightarrow> sample_stops i = sample_stops 3"
  "\<not> alive (sample_stops 3)" "main_action (sample_stops 3) = None"
  by (simp_all add: sample_stops_def main_action_def sample_stopping_fields sample_sys_parts grpc_Stop_def
      new_server_def main_stop_def sample_Stop sample_drained alive_def)

lemma sample_stops_run: "run_of sample_lib sample_yaml sample_cli sample_stopping sample_stops"
  unfolding run_of_def
proof (intro conjI allI)
  fix i :: nat
  consider "i = 0" | "i = 1" | "i = 2" | "i \<ge> 3" by linarith
  then show "proc_step sample_lib sample_yaml sample_cli (sample_stops i) (sample_stops (Suc i)) \<or>
      \<not> alive (sample_stops i) \<and> sample_stops (Suc i) = sample_stops i"
  proof cases
    case 4
    have "sample_stops i = sample_stops 3" "sample_stops (Suc i) = sample_stops 3"
      using 4 by (auto intro!: sample_stops_acts(4))
    with sample_stops_acts(5) show ?thesis by simp
  qed (use sample_stops_acts(1-3) in \<open>auto intro!: disjI1 proc_step.main simp: eval_nat_numeral\<close>)
qed (simp add: sample_stops_def)

lemma sample_stops_fair:
  "main_scheduled sample_stops" "time_passes sample_stops" "streams_end sample_stops" "fetchers_return sample_stops"
proof -
  have e: "\<exists>j \<ge> i. \<not> alive (sample_stops j) \<and> main_action (sample_stops j) = None" for i
    using sample_stops_acts(5,6) by (intro exI[of _ "i + 3"]) (simp add: sample_stops_acts(4)[of "i + 3"])
  show "main_scheduled sample_stops" unfolding main_scheduled_def using e by blast
  show "time_passes sample_stops" unfolding time_passes_def using e by blast
  show "streams_end sample_stops" unfolding streams_end_def using e by blast
  show "fetchers_return sample_stops" unfolding fetchers_return_def using e by blast
qed

theorem shutdown_terminates_witness:
  "run_of sample_lib sample_yaml sample_cli sample_stopping sample_stops \<and>
   (\<exists>i. main_at (sample_stops i) = MExit 0)"
  using shutdown_terminates[OF sample_boot sample_stopping_steps sample_stops_run sample_stops_fair]
    sample_stops_run by blast

definition sample_crashed :: "(nat, unit) process" where
  "sample_crashed =
     on_server_end (Some ''listen tcp :9090: bind: address already in use'')
       (sample_process\<lparr>pgrpc := new_server\<lparr>run_done := True\<rparr>\<rparr>)"

theorem exit_codes_witness:
  "main_at sample_crashed = MExit 1 \<and> run_done (pgrpc sample_crashed) \<and> \<not> signalled sample_crashed"
proof -
  let ?t = "''listen tcp :9090: bind: address already in use''"
  let ?p = "sample_process\<lparr>pgrpc := new_server\<lparr>run_done := True\<rparr>, errCh := [Some ?t]\<rparr>"
  have "proc_step sample_lib sample_yaml sample_cli sample_process ?p"
    using proc_step.grpc_listen_fails[of sample_process sample_lib sample_yaml sample_cli ?t]
    by (simp add: sample_process_def alive_def new_server_def Run_defs run_ends_def run_result_def)
  moreover have "proc_step sample_lib sample_yaml sample_cli ?p sample_crashed"
    using proc_step.server_end[of ?p "Some ?t" "[]"] by (simp add: sample_crashed_def sample_process_def)
  ultimately have s: "proc_steps sample_lib sample_yaml sample_cli sample_process sample_crashed"
    by (meson converse_rtranclp_into_rtranclp r_into_rtranclp)
  have m: "main_at sample_crashed = MExit 1"
    by (simp add: sample_crashed_def on_server_end_def Let_def)
  from exit_codes[where lib = sample_lib and yaml = sample_yaml and c = sample_cli and w = sample_world] s m
  have "\<not> signalled sample_crashed \<and> (run_done (phttp sample_crashed) \<or> run_done (pgrpc sample_crashed))"
    by (auto simp: sample_boot dest!: spec[of _ sample_crashed])
  with m show ?thesis
    by (simp add: sample_crashed_def on_server_end_def sample_process_def new_server_def Let_def)
qed

text \<open>A stream is opened, and the signal comes before the HTTP server runs.\<close>

definition sample_streaming :: "(nat, unit) process" where
  "sample_streaming = sample_process\<lparr>psys := starting ''grpc'' 9090 sample_sys,
     pgrpc := new_server\<lparr>srv_set := True, listening := True, open_calls := 1\<rparr>\<rparr>"

definition sample_blocked :: "(nat, unit) process" where
  "sample_blocked = the (main_action (on_signal sample_streaming))"

lemma sample_streaming_steps:
  "proc_steps sample_lib sample_yaml sample_cli sample_process sample_streaming"
proof -
  let ?step = "proc_step sample_lib sample_yaml sample_cli"
  let ?p1 = "sample_process\<lparr>psys := starting ''grpc'' 9090 sample_sys, pgrpc := new_server\<lparr>srv_set := True\<rparr>\<rparr>"
  let ?p2 = "?p1\<lparr>pgrpc := new_server\<lparr>srv_set := True, listening := True\<rparr>\<rparr>"
  have 1: "?step sample_process ?p1"
    using proc_step.grpc_make[of sample_process sample_lib sample_yaml sample_cli]
    by (simp add: sample_process_def alive_def new_server_def Run_defs run_make_def sample_cli_def)
  have 2: "?step ?p1 ?p2"
    using proc_step.grpc_serve[of ?p1 sample_lib sample_yaml sample_cli]
    by (simp add: sample_process_def alive_def new_server_def run_serve_def)
  have "?step ?p2 sample_streaming"
    using proc_step.stream_opens[of ?p2 sample_lib sample_yaml sample_cli]
    by (simp add: sample_process_def sample_streaming_def alive_def new_server_def)
  with 1 2 show ?thesis by (meson converse_rtranclp_into_rtranclp r_into_rtranclp)
qed

lemma sample_blocked_state:
  "main_action (on_signal sample_streaming) = Some sample_blocked"
  "main_at sample_blocked = MGrpcStop" "open_calls (pgrpc sample_blocked) = 1" "alive sample_blocked"
  by (simp_all add: sample_blocked_def main_action_def on_signal_def http_Stop_def grpc_Stop_def shut_def sample_streaming_def
      sample_process_def new_server_def alive_def Let_def)

theorem policy_stopped_after_streams_witness:
  "proc_steps sample_lib sample_yaml sample_cli (on_signal sample_streaming) sample_blocked \<and>
   open_calls (pgrpc sample_blocked) = 1 \<and> released sample_blocked = None"
proof -
  have p: "main_at sample_streaming = MSelect" "srv_set (pgrpc sample_streaming)"
    by (simp_all add: sample_streaming_def sample_process_def)
  have s: "proc_steps sample_lib sample_yaml sample_cli (on_signal sample_streaming) sample_blocked"
    by (rule r_into_rtranclp, rule proc_step.main[OF sample_blocked_state(1)])
  have "0 < open_calls (pgrpc sample_blocked)" by (simp add: sample_blocked_state)
  from policy_stopped_after_streams[OF sample_boot sample_streaming_steps p s this] s show ?thesis
    by (simp add: sample_blocked_state)
qed

text \<open>C32: From a change of the file to a reload. The reloads that begin because of the watcher are exactly the
  callbacks of its timer: each of them comes after a change of the file that was followed by a quiet
  window of the configured length, so that there are no more of them than changes; without \<^verbatim>\<open>--watch\<close>, or when
  the watcher cannot be set up, there are none.\<close>

theorem watcher_reloads_debounced:
  assumes "main_boot lib yaml c w = Up p0" "proc_steps lib yaml c p0 p"
  shows "(case pwatch p of
      WatchUp u \<Rightarrow>
        watch c \<and> watcher_reloads (psys p) = length (filter is_reload (history u)) \<and>
        debounced (effective_debounce (watch_debounce c)) (history u) \<and>
        watcher_reloads (psys p) \<le> length (filter (\<lambda>i. \<not> is_reload i) (history u))
    | _ \<Rightarrow> watcher_reloads (psys p) = 0)"
  using process_watch_ok[OF assms] debounced_callbacks
  by (auto simp: watch_ok_def watch_inv_def callbacks_def split: watch_state.splits)

definition sample_watching :: cli where
  "sample_watching = sample_cli\<lparr>watch := True\<rparr>"

definition sample_watched :: watch where
  "sample_watched = \<lparr>debounce = 200000000, basename = ''policy.yaml'', now = 0, timer = None,
     watching = True, history = []\<rparr>"

lemma sample_watch_up:
  "watch_Run None (\<lambda>_. None) ''policy.yaml'' (watch_debounce sample_watching) 0 = Inr sample_watched"
  by code_simp

theorem watcher_reloads_debounced_witness:
  "\<exists>p. proc_steps sample_lib sample_yaml sample_watching (sample_process\<lparr>pwatch := WatchStarting\<rparr>) p \<and>
     pwatch p = WatchUp sample_watched \<and> watcher_reloads (psys p) = 0"
proof -
  let ?q = "sample_process\<lparr>pwatch := WatchStarting\<rparr>"
  let ?p = "start_watcher sample_watching None (\<lambda>_. None) 0 ?q"
  have b: "main_boot sample_lib sample_yaml sample_watching sample_world = Up ?q"
    by (simp add: main_boot_def sample_watching_def sample_cli_def sample_start sample_process_def)
  have f: "configPath (cli_flags sample_watching) = ''policy.yaml''"
    by (simp add: sample_watching_def sample_cli_def sample_flags_def)
  have u: "pwatch ?p = WatchUp sample_watched"
    by (simp add: start_watcher_def f sample_watch_up)
  have "proc_step sample_lib sample_yaml sample_watching ?q ?p"
    by (rule proc_step.watcher_starts) (simp_all add: alive_def sample_process_def)
  then have s: "proc_steps sample_lib sample_yaml sample_watching ?q ?p" by (rule r_into_rtranclp)
  have "watcher_reloads (psys ?p) = 0"
    using watcher_reloads_debounced[OF b s] u by (simp add: sample_watched_def)
  with s u show ?thesis by blast
qed

end
