(* ===== verification/Cel_Net.thy ===== *)
theory Cel_Net
  imports Go_Url "HOL-Library.Word"
begin

unbundle bit_operations_syntax

text \<open>
  \<^verbatim>\<open>internal/celenv/net.go\<close>: the address functions of the expression language, with the parts of \<^verbatim>\<open>net\<close> and
  \<^verbatim>\<open>net/netip\<close> they use. An address is the list of its bytes, as in Go.
\<close>

section \<open>Addresses\<close>

type_synonym bytes = "8 word list"

text \<open>\<^verbatim>\<open>netip.Addr\<close>: four bytes, or sixteen with a zone that may be empty.\<close>

datatype addr = V4 bytes | V6 bytes string

text \<open>\<^verbatim>\<open>parseIPv4Fields\<close>: the finished fields, the value of the current one and the number of its digits.\<close>

fun v4_loop :: "bytes \<Rightarrow> nat \<Rightarrow> nat \<Rightarrow> string \<Rightarrow> bytes option" where
  "v4_loop fields val digs [] = (if length fields < 3 then None else Some (fields @ [of_nat val]))"
| "v4_loop fields val digs (c # s) =
     (if is_digit c then
        if digs = 1 \<and> val = 0 then None
        else let v = val * 10 + (byte c - 48)
             in if v > 255 then None else v4_loop fields v (digs + 1) s
      else if c = CHR ''.'' then
        if digs = 0 \<or> s = [] then None
        else if length fields = 3 then None
        else v4_loop (fields @ [of_nat val]) 0 0 s
      else None)"

text \<open>The hexadecimal digits at the start of a text, at most four of them: their value, their number
  and the rest.\<close>

fun hex_loop :: "nat \<Rightarrow> nat \<Rightarrow> string \<Rightarrow> (nat \<times> nat \<times> string) option" where
  "hex_loop acc n [] = Some (acc, n, [])"
| "hex_loop acc n (c # s) =
     (if is_hex c then if n > 3 then None else hex_loop (16 * acc + unhex c) (n + 1) s
      else Some (acc, n, c # s))"

lemma hex_loop_shorter: "hex_loop acc n s = Some (v, k, r) \<Longrightarrow> length r + k = length s + n"
  by (induction acc n s rule: hex_loop.induct) (auto split: if_splits)

text \<open>One turn of the loop of \<^verbatim>\<open>parseIPv6\<close>: the bytes so far, the place of the ellipsis, the text that is
  left, and whether the loop goes on.\<close>

definition v6_turn :: "bytes \<Rightarrow> nat option \<Rightarrow> string \<Rightarrow> (bytes \<times> nat option \<times> string \<times> bool) option" where
  "v6_turn ip ellipsis s =
     (case hex_loop 0 0 s of
        None \<Rightarrow> None
      | Some (acc, off, rest) \<Rightarrow>
          if off = 0 then None
          else if rest \<noteq> [] \<and> hd rest = CHR ''.'' then
            if ellipsis = None \<and> length ip \<noteq> 12 then None
            else if length ip + 4 > 16 then None
            else (case v4_loop [] 0 0 s of
                    None \<Rightarrow> None
                  | Some fields \<Rightarrow> Some (ip @ fields, ellipsis, [], False))
          else
            let ip' = ip @ [of_nat (acc div 256), of_nat (acc mod 256)]
            in case rest of
                 [] \<Rightarrow> Some (ip', ellipsis, [], False)
               | c # r \<Rightarrow>
                   if c \<noteq> CHR '':'' then None
                   else (case r of
                           [] \<Rightarrow> None
                         | d # r' \<Rightarrow>
                             if d = CHR '':'' then
                               if ellipsis \<noteq> None then None
                               else Some (ip', Some (length ip'), r', r' \<noteq> [])
                             else Some (ip', ellipsis, r, True)))"

lemma v6_turn_shorter: "v6_turn ip e s = Some (ip', e', s', go) \<Longrightarrow> length s' < length s"
  by (auto simp: v6_turn_def Let_def split: option.splits if_splits list.splits dest!: hex_loop_shorter)

function v6_loop :: "bytes \<Rightarrow> nat option \<Rightarrow> string \<Rightarrow> (bytes \<times> nat option \<times> string) option" where
  "v6_loop ip ellipsis s =
     (if length ip \<ge> 16 then Some (ip, ellipsis, s)
      else case v6_turn ip ellipsis s of
             None \<Rightarrow> None
           | Some (ip', e', s', go) \<Rightarrow> if go then v6_loop ip' e' s' else Some (ip', e', s'))"
  by pat_completeness auto
termination
  by (relation "measure (\<lambda>(ip, e, s). length s)") (auto dest: v6_turn_shorter)

declare v6_loop.simps [simp del]

definition parseIPv6 :: "string \<Rightarrow> addr option" where
  "parseIPv6 input =
     (let (s0, zone) = Cut input (CHR ''%'')
      in if CHR ''%'' \<in> set input \<and> zone = [] then None
         else if s0 = ''::'' then Some (V6 (replicate 16 0) zone)
         else let (e0, s) = (if HasPrefix s0 ''::'' then (Some 0, drop 2 s0) else (None, s0))
              in case v6_loop [] e0 s of
                   None \<Rightarrow> None
                 | Some (ip, ellipsis, rest) \<Rightarrow>
                     if rest \<noteq> [] then None
                     else if length ip < 16 then
                       (case ellipsis of
                          None \<Rightarrow> None
                        | Some e \<Rightarrow> Some (V6 (take e ip @ replicate (16 - length ip) 0 @ drop e ip) zone))
                     else if ellipsis \<noteq> None then None
                     else Some (V6 ip zone))"

fun addr_kind :: "string \<Rightarrow> char option" where
  "addr_kind [] = None"
| "addr_kind (c # s) = (if c \<in> {CHR ''.'', CHR '':'', CHR ''%''} then Some c else addr_kind s)"

definition ParseAddr :: "string \<Rightarrow> addr option" where
  "ParseAddr s =
     (case addr_kind s of
        None \<Rightarrow> None
      | Some c \<Rightarrow>
          if c = CHR ''.'' then map_option V4 (v4_loop [] 0 0 s)
          else if c = CHR '':'' then parseIPv6 s
          else None)"

definition v4InV6Prefix :: bytes where
  "v4InV6Prefix = replicate 10 0 @ [255, 255]"

fun As16 :: "addr \<Rightarrow> bytes" where
  "As16 (V4 b) = v4InV6Prefix @ b"
| "As16 (V6 b _) = b"

fun Zone :: "addr \<Rightarrow> string" where
  "Zone (V4 _) = []"
| "Zone (V6 _ z) = z"

fun BitLen :: "addr \<Rightarrow> nat" where
  "BitLen (V4 _) = 32"
| "BitLen (V6 _ _) = 128"

text \<open>\<^verbatim>\<open>net.ParseIP\<close>: sixteen bytes, or nil.\<close>

definition ParseIP :: "string \<Rightarrow> bytes option" where
  "ParseIP s =
     (case ParseAddr s of
        None \<Rightarrow> None
      | Some a \<Rightarrow> if Zone a \<noteq> [] then None else Some (As16 a))"

definition To4 :: "bytes \<Rightarrow> bytes option" where
  "To4 ip =
     (if length ip = 4 then Some ip
      else if length ip = 16 \<and> take 12 ip = v4InV6Prefix then Some (drop 12 ip)
      else None)"

section \<open>Networks\<close>

record ipnet =
  NetIP :: "bytes option"
  NetMask :: bytes

text \<open>\<^verbatim>\<open>CIDRMask\<close>, byte by byte.\<close>

fun cidr_mask :: "nat \<Rightarrow> nat \<Rightarrow> bytes" where
  "cidr_mask n 0 = []"
| "cidr_mask n (Suc l) = (if n \<ge> 8 then 255 else NOT (drop_bit n 255)) # cidr_mask (n - 8) l"

definition CIDRMask :: "nat \<Rightarrow> nat \<Rightarrow> bytes" where
  "CIDRMask ones bits = cidr_mask ones (bits div 8)"

text \<open>\<^verbatim>\<open>IP.Mask\<close>: None is the nil it gives for lengths that do not fit.\<close>

definition ip_Mask :: "bytes \<Rightarrow> bytes \<Rightarrow> bytes option" where
  "ip_Mask ip m =
     (let m' = (if length m = 16 \<and> length ip = 4 \<and> take 12 m = replicate 12 255 then drop 12 m else m);
          ip' = (if length m' = 4 \<and> length ip = 16 \<and> take 12 ip = v4InV6Prefix then drop 12 ip else ip)
      in if length ip' \<noteq> length m' then None else Some (map2 (AND) ip' m'))"

text \<open>\<^verbatim>\<open>dtoi\<close>: the value and the number of digits of a decimal prefix; None when there is none or it is
  too big.\<close>

fun dtoi_loop :: "nat \<Rightarrow> nat \<Rightarrow> string \<Rightarrow> (nat \<times> nat) option" where
  "dtoi_loop n i [] = (if i = 0 then None else Some (n, i))"
| "dtoi_loop n i (c # s) =
     (if is_digit c then
        let v = n * 10 + (byte c - 48) in if v \<ge> 16777215 then None else dtoi_loop v (i + 1) s
      else if i = 0 then None else Some (n, i))"

definition ParseCIDR :: "string \<Rightarrow> ipnet option" where
  "ParseCIDR s =
     (if CHR ''/'' \<notin> set s then None
      else let (addr, m) = Cut s (CHR ''/'')
           in case ParseAddr addr of
                None \<Rightarrow> None
              | Some a \<Rightarrow>
                  if Zone a \<noteq> [] then None
                  else (case dtoi_loop 0 0 m of
                          None \<Rightarrow> None
                        | Some (n, i) \<Rightarrow>
                            if i \<noteq> length m \<or> n > BitLen a then None
                            else let mk = CIDRMask n (BitLen a)
                                 in Some \<lparr>NetIP = ip_Mask (As16 a) mk, NetMask = mk\<rparr>))"

text \<open>\<^verbatim>\<open>networkNumberAndMask\<close>: None stands for two nils.\<close>

definition networkNumberAndMask :: "ipnet \<Rightarrow> (bytes \<times> bytes) option" where
  "networkNumberAndMask n =
     (case NetIP n of
        None \<Rightarrow> None
      | Some nip \<Rightarrow>
          let ip = (case To4 nip of Some x \<Rightarrow> Some x | None \<Rightarrow> if length nip \<noteq> 16 then None else Some nip)
          in case ip of
               None \<Rightarrow> None
             | Some ip \<Rightarrow>
                 if length (NetMask n) = 4 then
                   if length ip \<noteq> 4 then None else Some (ip, NetMask n)
                 else if length (NetMask n) = 16 then
                   Some (ip, if length ip = 4 then drop 12 (NetMask n) else NetMask n)
                 else None)"

definition net_Contains :: "ipnet \<Rightarrow> bytes \<Rightarrow> bool" where
  "net_Contains n ip0 =
     (let ip = (case To4 ip0 of Some x \<Rightarrow> x | None \<Rightarrow> ip0)
      in case networkNumberAndMask n of
           None \<Rightarrow> length ip = 0
         | Some (nn, m) \<Rightarrow>
             if length ip \<noteq> length nn then False
             else list_all (\<lambda>(a, b, k). a AND k = b AND k) (zip nn (zip ip m)))"

section \<open>The functions of the library\<close>

definition stringOf :: "goval \<Rightarrow> string" where
  "stringOf v = (case v of GString s \<Rightarrow> s | _ \<Rightarrow> [])"

definition cidrContains :: "string \<Rightarrow> bytes \<Rightarrow> bool" where
  "cidrContains s ip =
     (let s' = (if CHR ''/'' \<notin> set s then if CHR '':'' \<in> set s then s @ ''/128'' else s @ ''/32'' else s)
      in case ParseCIDR s' of None \<Rightarrow> False | Some n \<Rightarrow> net_Contains n ip)"

definition inCIDR :: "goval \<Rightarrow> goval \<Rightarrow> bool" where
  "inCIDR ipv cidrsv =
     (case ParseIP (stringOf ipv) of
        None \<Rightarrow> False
      | Some ip \<Rightarrow>
          let test = (\<lambda>v. case v of GString s \<Rightarrow> cidrContains s ip | _ \<Rightarrow> False)
          in case cidrsv of
               GRefSlice raws \<Rightarrow> list_ex test raws
             | GSlice anys \<Rightarrow> list_ex test anys
             | _ \<Rightarrow> False)"

definition ipFamily :: "goval \<Rightarrow> string" where
  "ipFamily v =
     (case ParseIP (stringOf v) of
        None \<Rightarrow> []
      | Some ip \<Rightarrow> if To4 ip \<noteq> None then ''ipv4'' else ''ipv6'')"

definition IsPrivate :: "bytes \<Rightarrow> bool" where
  "IsPrivate ip =
     (case To4 ip of
        Some a \<Rightarrow> a ! 0 = 10 \<or> (a ! 0 = 172 \<and> a ! 1 AND 0xf0 = 16) \<or> (a ! 0 = 192 \<and> a ! 1 = 168)
      | None \<Rightarrow> length ip = 16 \<and> ip ! 0 AND 0xfe = 0xfc)"

definition IsLinkLocalUnicast :: "bytes \<Rightarrow> bool" where
  "IsLinkLocalUnicast ip =
     (case To4 ip of
        Some a \<Rightarrow> a ! 0 = 169 \<and> a ! 1 = 254
      | None \<Rightarrow> length ip = 16 \<and> ip ! 0 = 0xfe \<and> ip ! 1 AND 0xc0 = 0x80)"

definition IsLinkLocalMulticast :: "bytes \<Rightarrow> bool" where
  "IsLinkLocalMulticast ip =
     (case To4 ip of
        Some a \<Rightarrow> a ! 0 = 224 \<and> a ! 1 = 0 \<and> a ! 2 = 0
      | None \<Rightarrow> length ip = 16 \<and> ip ! 0 = 0xff \<and> ip ! 1 AND 0x0f = 0x02)"

definition IPv6loopback :: bytes where
  "IPv6loopback = replicate 15 0 @ [1]"

definition IsLoopback :: "bytes \<Rightarrow> bool" where
  "IsLoopback ip = (case To4 ip of Some a \<Rightarrow> a ! 0 = 127 | None \<Rightarrow> ip = IPv6loopback)"

definition isPrivateIP :: "goval \<Rightarrow> bool" where
  "isPrivateIP v =
     (case ParseIP (stringOf v) of
        None \<Rightarrow> False
      | Some ip \<Rightarrow> IsPrivate ip \<or> IsLinkLocalUnicast ip \<or> IsLinkLocalMulticast ip)"

definition isLoopbackIP :: "goval \<Rightarrow> bool" where
  "isLoopbackIP v = (case ParseIP (stringOf v) of None \<Rightarrow> False | Some ip \<Rightarrow> IsLoopback ip)"

section \<open>Masks and bits\<close>

definition byte_bits :: "8 word \<Rightarrow> bool list" where
  "byte_bits b = map (bit b) (rev [0..<8])"

text \<open>The bits of an address, the most significant first.\<close>

definition addr_bits :: "bytes \<Rightarrow> bool list" where
  "addr_bits bs = concat (map byte_bits bs)"

lemma length_byte_bits [simp]: "length (byte_bits b) = 8"
  by (simp add: byte_bits_def)

lemma nth_byte_bits: "i < 8 \<Longrightarrow> byte_bits b ! i = bit b (7 - i)"
  by (simp add: byte_bits_def rev_nth)

lemma addr_bits_simps [simp]:
  "addr_bits [] = []" "addr_bits (b # bs) = byte_bits b @ addr_bits bs"
  "addr_bits (xs @ ys) = addr_bits xs @ addr_bits ys"
  by (simp_all add: addr_bits_def)

lemma length_addr_bits [simp]: "length (addr_bits bs) = 8 * length bs"
  by (induction bs) auto

lemma byte_bits_inject [simp]: "byte_bits a = byte_bits b \<longleftrightarrow> a = b"
proof
  assume eq: "byte_bits a = byte_bits b"
  have "bit a i = bit b i" if "i < 8" for i
    using arg_cong[OF eq, of "\<lambda>l. l ! (7 - i)"] that by (simp add: nth_byte_bits)
  then show "a = b" by (intro bit_word_eqI) simp
qed simp

lemma addr_bits_inject: "length a = length b \<Longrightarrow> addr_bits a = addr_bits b \<longleftrightarrow> a = b"
  by (induction a b rule: list_induct2) auto

definition mask_byte :: "nat \<Rightarrow> 8 word" where
  "mask_byte n = (if n \<ge> 8 then 255 else NOT (drop_bit n 255))"

lemma bit_mask_byte: "i < 8 \<Longrightarrow> bit (mask_byte n) i \<longleftrightarrow> 8 \<le> i + n"
proof -
  assume i: "i < 8"
  have all: "bit (255 :: 8 word) j \<longleftrightarrow> j < 8" for j
  proof -
    have "(255 :: 8 word) = mask 8" by (simp add: mask_eq_exp_minus_1)
    then show ?thesis by (simp only: bit_mask_iff) simp
  qed
  show ?thesis
  proof (cases "n \<ge> 8")
    case True
    then have "mask_byte n = 255" by (simp add: mask_byte_def)
    with i True all[of i] show ?thesis by (simp only:) simp
  next
    case False
    with i have "bit (mask_byte n) i \<longleftrightarrow> \<not> bit (255 :: 8 word) (n + i)"
      by (simp add: mask_byte_def bit_not_iff bit_drop_bit_eq)
    then show ?thesis unfolding all by linarith
  qed
qed

lemma masked_eq_iff:
  "a AND mask_byte n = b AND mask_byte n \<longleftrightarrow> take n (byte_bits a) = take n (byte_bits b)"
proof
  assume eq: "a AND mask_byte n = b AND mask_byte n"
  show "take n (byte_bits a) = take n (byte_bits b)"
  proof (rule nth_equalityI)
    fix i assume "i < length (take n (byte_bits a))"
    then have i: "i < n" "i < 8" by auto
    have "bit (a AND mask_byte n) (7 - i) = bit (b AND mask_byte n) (7 - i)" using eq by simp
    moreover have "8 \<le> 7 - i + n" "7 - i < 8" using i by linarith+
    ultimately have "bit a (7 - i) = bit b (7 - i)" by (simp only: bit_and_iff bit_mask_byte) simp
    with i show "take n (byte_bits a) ! i = take n (byte_bits b) ! i" by (simp add: nth_byte_bits)
  qed simp
next
  assume eq: "take n (byte_bits a) = take n (byte_bits b)"
  show "a AND mask_byte n = b AND mask_byte n"
  proof (rule bit_word_eqI)
    fix i assume "i < LENGTH(8)"
    then have i: "i < 8" by simp
    show "bit (a AND mask_byte n) i = bit (b AND mask_byte n) i"
    proof (cases "8 \<le> i + n")
      case True
      with i have j: "7 - i < n" "7 - i < 8" by auto
      have "take n (byte_bits a) ! (7 - i) = take n (byte_bits b) ! (7 - i)" using eq by simp
      then have "bit a i = bit b i" using i j by (simp add: nth_byte_bits)
      then show ?thesis by (simp add: bit_and_iff)
    next
      case False
      with i show ?thesis by (simp add: bit_and_iff bit_mask_byte)
    qed
  qed
qed

lemma cidr_mask_Suc: "cidr_mask n (Suc l) = mask_byte n # cidr_mask (n - 8) l"
  by (simp add: mask_byte_def)

lemma length_cidr_mask [simp]: "length (cidr_mask n l) = l"
  by (induction n l rule: cidr_mask.induct) auto

lemma drop_cidr_mask: "drop k (cidr_mask n l) = cidr_mask (n - 8 * k) (l - k)"
proof (induction k arbitrary: n l)
  case (Suc k)
  then show ?case by (cases l) (auto simp: algebra_simps)
qed simp

definition masked :: "nat \<Rightarrow> bytes \<Rightarrow> bytes" where
  "masked n a = map2 (AND) a (cidr_mask n (length a))"

lemma length_masked [simp]: "length (masked n a) = length a"
  by (simp add: masked_def)

lemma masked_Nil [simp]: "masked n [] = []"
  by (simp add: masked_def)

lemma masked_Cons: "masked n (x # a) = (x AND mask_byte n) # masked (n - 8) a"
  by (simp add: masked_def mask_byte_def)

text \<open>Comparing under the mask is comparing the bits of the prefix.\<close>

lemma masked_compare:
  assumes "length a = length b"
  shows "list_all (\<lambda>(a, b, k). a AND k = b AND k) (zip (masked n a) (zip b (cidr_mask n (length a)))) \<longleftrightarrow>
    take n (addr_bits a) = take n (addr_bits b)"
  using assms
proof (induction a b arbitrary: n rule: list_induct2)
  case (Cons x a y b)
  have "(x AND mask_byte n) AND mask_byte n = y AND mask_byte n \<longleftrightarrow> take n (byte_bits x) = take n (byte_bits y)"
    using masked_eq_iff[of x n y] by (simp add: and.assoc)
  then show ?case
    by (simp add: masked_Cons cidr_mask_Suc Cons.IH del: cidr_mask.simps)
qed (simp add: masked_def)

lemma take_addr_bits:
  assumes "length p = k" "8 * k \<le> n"
  shows "take n (addr_bits (p @ x)) = addr_bits p @ take (n - 8 * k) (addr_bits x)"
  using assms by simp

section \<open>Parsed addresses\<close>

lemma v4_loop_length: "v4_loop fs v d s = Some b \<Longrightarrow> length fs \<le> 3 \<Longrightarrow> length b = 4"
  by (induction fs v d s rule: v4_loop.induct) (auto simp: Let_def split: if_splits)

lemma v6_turn_length:
  assumes "v6_turn ip e s = Some (ip', e', s', go)" "even (length ip)" "length ip < 16"
    "\<forall>x. e = Some x \<longrightarrow> x \<le> length ip"
  shows "even (length ip') \<and> length ip' \<le> 16 \<and> (\<forall>x. e' = Some x \<longrightarrow> x \<le> length ip')"
proof -
  have l: "length ip + 2 \<le> 16" using assms(2,3) by presburger
  from assms show ?thesis using l
    by (auto simp: v6_turn_def Let_def split: option.splits if_splits list.splits dest!: v4_loop_length)
qed

lemma v6_loop_length:
  "v6_loop ip e s = Some (ip', e', r) \<Longrightarrow> even (length ip) \<Longrightarrow> length ip \<le> 16 \<Longrightarrow>
   \<forall>x. e = Some x \<longrightarrow> x \<le> length ip \<Longrightarrow>
   length ip' \<le> 16 \<and> (\<forall>x. e' = Some x \<longrightarrow> x \<le> length ip')"
proof (induction ip e s rule: v6_loop.induct)
  case (1 ip e s)
  show ?case
  proof (cases "length ip \<ge> 16")
    case True
    with 1 show ?thesis by (simp add: v6_loop.simps[of ip])
  next
    case False
    then obtain ip1 e1 s1 go where t: "v6_turn ip e s = Some (ip1, e1, s1, go)"
      and rest: "(if go then v6_loop ip1 e1 s1 else Some (ip1, e1, s1)) = Some (ip', e', r)"
      using "1.prems"(1) by (auto simp: v6_loop.simps[of ip] split: option.splits)
    note l = v6_turn_length[OF t "1.prems"(2) _ "1.prems"(4)]
    show ?thesis
    proof (cases go)
      case True
      with rest l False show ?thesis by (intro "1.IH"[OF False t refl refl refl True]) auto
    next
      case go: False
      with rest l False show ?thesis by auto
    qed
  qed
qed

fun addr_ok :: "addr \<Rightarrow> bool" where
  "addr_ok (V4 b) = (length b = 4)"
| "addr_ok (V6 b _) = (length b = 16)"

lemma parseIPv6_ok: "parseIPv6 s = Some a \<Longrightarrow> addr_ok a"
  by (auto simp: parseIPv6_def Let_def split: prod.splits option.splits if_splits dest!: v6_loop_length)

lemma ParseAddr_ok: "ParseAddr s = Some a \<Longrightarrow> addr_ok a"
  by (auto simp: ParseAddr_def split: option.splits if_splits dest: parseIPv6_ok v4_loop_length)

lemma length_As16: "addr_ok a \<Longrightarrow> length (As16 a) = 16"
  by (cases a) (auto simp: v4InV6Prefix_def)

lemma ParseIP_length: "ParseIP s = Some ip \<Longrightarrow> length ip = 16"
  by (auto simp: ParseIP_def split: option.splits if_splits dest!: ParseAddr_ok length_As16)

section \<open>Membership in a network\<close>

lemma length_v4InV6Prefix [simp]: "length v4InV6Prefix = 12"
  by (simp add: v4InV6Prefix_def)

lemma To4_16: "length ip = 16 \<Longrightarrow>
    To4 ip = (if take 12 ip = v4InV6Prefix then Some (drop 12 ip) else None)"
  by (simp add: To4_def)

lemma To4_4: "length ip = 4 \<Longrightarrow> To4 ip = Some ip"
  by (simp add: To4_def)

lemma take_masked: "take k (masked n a) = masked n (take k a)"
proof (induction k arbitrary: n a)
  case (Suc k)
  then show ?case by (cases a) (auto simp: masked_Cons)
qed simp

lemma drop_masked: "drop k (masked n a) = masked (n - 8 * k) (drop k a)"
proof (induction k arbitrary: n a)
  case (Suc k)
  then show ?case by (cases a) (auto simp: masked_Cons algebra_simps)
qed simp

lemma nth_masked: "k < length a \<Longrightarrow> masked n a ! k = a ! k AND mask_byte (n - 8 * k)"
proof (induction k arbitrary: n a)
  case 0
  then show ?case by (cases a) (auto simp: masked_Cons)
next
  case (Suc k)
  then show ?case by (cases a) (auto simp: masked_Cons algebra_simps)
qed

lemma masked_all: "8 * length a \<le> n \<Longrightarrow> masked n a = a"
proof (induction a arbitrary: n)
  case (Cons x a)
  have "x AND mask_byte n = x" using masked_eq_iff[of x n x] Cons.prems
    by (intro bit_word_eqI) (simp add: bit_and_iff bit_mask_byte)
  with Cons show ?case by (simp add: masked_Cons)
qed (simp add: masked_def)

text \<open>A masked address is an IPv4 one exactly when the unmasked one is, and the mask covers the whole
  prefix of the mapped range.\<close>

lemma masked_mapped:
  assumes "length a = 16"
  shows "take 12 (masked n a) = v4InV6Prefix \<longleftrightarrow> take 12 a = v4InV6Prefix \<and> 96 \<le> n"
proof (cases "96 \<le> n")
  case True
  with assms have "masked n (take 12 a) = take 12 a" by (intro masked_all) simp
  with True show ?thesis by (simp add: take_masked)
next
  case False
  have "masked n a ! 11 \<noteq> 255"
  proof
    assume eq: "masked n a ! 11 = 255"
    have "\<not> 8 \<le> n - 88" using False by linarith
    then have "\<not> bit (masked n a ! 11) 0"
      using nth_masked[of 11 a n] assms False by (simp add: bit_and_iff bit_mask_byte)
    then show False unfolding eq by simp
  qed
  moreover have "take 12 (masked n a) = v4InV6Prefix \<Longrightarrow> masked n a ! 11 = 255"
    by (drule arg_cong[of _ _ "\<lambda>l. l ! 11"]) (use assms in \<open>simp add: v4InV6Prefix_def nth_append\<close>)
  ultimately show ?thesis using False by blast
qed

text \<open>The sixteen-byte networks.\<close>

lemma contains_16:
  assumes a: "length a = 16" and ip: "length ip = 16"
  shows "net_Contains \<lparr>NetIP = Some (masked n a), NetMask = cidr_mask n 16\<rparr> ip \<longleftrightarrow>
    take n (addr_bits a) = take n (addr_bits ip) \<and> (n < 96 \<longrightarrow> To4 ip = None)"
proof (cases "take 12 a = v4InV6Prefix \<and> 96 \<le> n")
  case True
  then have m: "To4 (masked n a) = Some (masked (n - 96) (drop 12 a))"
    using a masked_mapped[OF a, of n] by (simp add: To4_16 drop_masked)
  have bits: "take n (addr_bits x) = addr_bits (take 12 x) @ take (n - 96) (addr_bits (drop 12 x))"
    if "length x = 16" for x
    using take_addr_bits[of "take 12 x" 12 n "drop 12 x"] True that by simp
  show ?thesis
  proof (cases "take 12 ip = v4InV6Prefix")
    case mapped: True
    have "net_Contains \<lparr>NetIP = Some (masked n a), NetMask = cidr_mask n 16\<rparr> ip \<longleftrightarrow>
        take (n - 96) (addr_bits (drop 12 a)) = take (n - 96) (addr_bits (drop 12 ip))"
      using masked_compare[of "drop 12 a" "drop 12 ip" "n - 96"] a ip mapped m
      by (simp add: net_Contains_def networkNumberAndMask_def To4_16 drop_cidr_mask)
    with bits[OF a] bits[OF ip] True mapped show ?thesis by simp
  next
    case False
    have "\<not> net_Contains \<lparr>NetIP = Some (masked n a), NetMask = cidr_mask n 16\<rparr> ip"
      using a ip False m by (simp add: net_Contains_def networkNumberAndMask_def To4_16)
    moreover have "take n (addr_bits a) \<noteq> take n (addr_bits ip)"
      using bits[OF a] bits[OF ip] True False a ip by (auto simp: addr_bits_inject)
    ultimately show ?thesis by blast
  qed
next
  case False
  then have m: "To4 (masked n a) = None" using a masked_mapped[OF a, of n] by (auto simp: To4_16)
  show ?thesis
  proof (cases "take 12 ip = v4InV6Prefix")
    case mapped: True
    have "\<not> net_Contains \<lparr>NetIP = Some (masked n a), NetMask = cidr_mask n 16\<rparr> ip"
      using a ip mapped m by (simp add: net_Contains_def networkNumberAndMask_def To4_16)
    moreover have "take n (addr_bits a) \<noteq> take n (addr_bits ip)" if n: "96 \<le> n"
    proof
      assume eq: "take n (addr_bits a) = take n (addr_bits ip)"
      have "take 96 (addr_bits x) = addr_bits (take 12 x)" if "length x = 16" for x
        using take_addr_bits[of "take 12 x" 12 96 "drop 12 x"] that by simp
      moreover have "take 96 (addr_bits a) = take 96 (addr_bits ip)"
        using arg_cong[OF eq, of "take 96"] n by (simp add: min_absorb1)
      ultimately have "take 12 a = take 12 ip" using a ip by (simp add: addr_bits_inject)
      with mapped False n show False by simp
    qed
    ultimately show ?thesis using ip mapped by (cases "96 \<le> n") (auto simp: To4_16)
  next
    case unmapped: False
    have "net_Contains \<lparr>NetIP = Some (masked n a), NetMask = cidr_mask n 16\<rparr> ip \<longleftrightarrow>
        take n (addr_bits a) = take n (addr_bits ip)"
      using masked_compare[of a ip n] a ip unmapped m
      by (simp add: net_Contains_def networkNumberAndMask_def To4_16)
    with ip unmapped show ?thesis by (simp add: To4_16)
  qed
qed

text \<open>The four-byte networks.\<close>

lemma contains_4:
  assumes a: "length a = 4" and ip: "length ip = 16"
  shows "net_Contains \<lparr>NetIP = Some (masked n a), NetMask = cidr_mask n 4\<rparr> ip \<longleftrightarrow>
    take (96 + n) (addr_bits (v4InV6Prefix @ a)) = take (96 + n) (addr_bits ip)"
proof -
  have split: "take (96 + n) (addr_bits ip) = addr_bits (take 12 ip) @ take n (addr_bits (drop 12 ip))"
    using take_addr_bits[of "take 12 ip" 12 "96 + n" "drop 12 ip"] ip by simp
  have "addr_bits v4InV6Prefix = addr_bits (take 12 ip) \<longleftrightarrow> take 12 ip = v4InV6Prefix"
    using ip addr_bits_inject[of v4InV6Prefix "take 12 ip"] by auto
  moreover have "net_Contains \<lparr>NetIP = Some (masked n a), NetMask = cidr_mask n 4\<rparr> ip \<longleftrightarrow>
      take 12 ip = v4InV6Prefix \<and> take n (addr_bits a) = take n (addr_bits (drop 12 ip))"
    using masked_compare[of a "drop 12 ip" n] a ip
    by (simp add: net_Contains_def networkNumberAndMask_def To4_16 To4_4)
  ultimately show ?thesis unfolding split using ip by auto
qed

text \<open>The number of leading bits of the sixteen-byte form that a prefix length fixes.\<close>

definition prefix16 :: "addr \<Rightarrow> nat \<Rightarrow> nat" where
  "prefix16 a n = n + (128 - BitLen a)"

lemma ParseCIDR_text:
  assumes "CHR ''/'' \<notin> set text" "ParseAddr text = Some a" "Zone a = []"
    "dtoi_loop 0 0 m = Some (n, length m)" "n \<le> BitLen a"
  shows "ParseCIDR (text @ CHR ''/'' # m) =
    Some \<lparr>NetIP = ip_Mask (As16 a) (CIDRMask n (BitLen a)), NetMask = CIDRMask n (BitLen a)\<rparr>"
  using assms by (simp add: ParseCIDR_def Cut_def Let_def)

lemma cidrContains_text:
  assumes "CHR ''/'' \<notin> set text" "ParseAddr text = Some a" "Zone a = []"
    "dtoi_loop 0 0 m = Some (n, length m)" "n \<le> BitLen a" "length ip = 16"
  shows "cidrContains (text @ CHR ''/'' # m) ip \<longleftrightarrow>
    take (prefix16 a n) (addr_bits (As16 a)) = take (prefix16 a n) (addr_bits ip) \<and>
    (prefix16 a n < 96 \<longrightarrow> To4 ip = None)"
proof -
  note P = ParseCIDR_text[OF assms(1-5)]
  have ok: "addr_ok a" using assms(2) by (rule ParseAddr_ok)
  show ?thesis
  proof (cases a)
    case (V4 b)
    with ok have b: "length b = 4" by simp
    have "ip_Mask (As16 a) (CIDRMask n 32) = Some (masked n b)"
      using V4 b by (simp add: ip_Mask_def CIDRMask_def masked_def)
    with P V4 contains_4[OF b assms(6), of n] show ?thesis
      by (simp add: cidrContains_def prefix16_def CIDRMask_def add.commute)
  next
    case (V6 b z)
    with ok have b: "length b = 16" by simp
    have "ip_Mask (As16 a) (CIDRMask n 128) = Some (masked n b)"
      using V6 b by (simp add: ip_Mask_def CIDRMask_def masked_def)
    with P V6 contains_16[OF b assms(6), of n] show ?thesis
      by (simp add: cidrContains_def prefix16_def CIDRMask_def)
  qed
qed

text \<open>An address without a prefix length: the text of an IPv4 address has no colon, that of an IPv6
  address has one.\<close>

lemma v4_loop_no_colon: "v4_loop fs v d s = Some b \<Longrightarrow> CHR '':'' \<notin> set s"
  by (induction fs v d s rule: v4_loop.induct) (auto simp: Let_def is_digit_def byte_def split: if_splits)

lemma addr_kind_in: "addr_kind s = Some c \<Longrightarrow> c \<in> set s"
  by (induction s) (auto split: if_splits)

lemma parseIPv6_V6: "parseIPv6 s = Some a \<Longrightarrow> \<exists>b z. a = V6 b z"
  by (auto simp: parseIPv6_def Let_def split: prod.splits option.splits if_splits)

lemma ParseAddr_colon:
  assumes "ParseAddr text = Some a"
  shows "CHR '':'' \<in> set text \<longleftrightarrow> BitLen a = 128"
proof -
  obtain c where c: "addr_kind text = Some c" using assms by (auto simp: ParseAddr_def split: option.splits)
  consider "c = CHR ''.''" "\<exists>b. a = V4 b \<and> v4_loop [] 0 0 text = Some b"
    | "c = CHR '':''" "parseIPv6 text = Some a"
    using assms c by (auto simp: ParseAddr_def split: if_splits)
  then show ?thesis
  proof cases
    case 1
    then show ?thesis using v4_loop_no_colon by auto
  next
    case 2
    then show ?thesis using parseIPv6_V6[OF 2(2)] addr_kind_in[OF c] by auto
  qed
qed

lemma cidrContains_bare:
  assumes "CHR ''/'' \<notin> set text" "ParseAddr text = Some a" "Zone a = []" "length ip = 16"
  shows "cidrContains text ip \<longleftrightarrow> As16 a = ip"
proof -
  have all: "take 128 (addr_bits x) = addr_bits x" if "length x = 16" for x using that by simp
  have len: "length (As16 a) = 16" using length_As16[OF ParseAddr_ok[OF assms(2)]] .
  have eq: "take 128 (addr_bits (As16 a)) = take 128 (addr_bits ip) \<longleftrightarrow> As16 a = ip"
    unfolding all[OF len] all[OF assms(4)] using len assms(4) by (intro addr_bits_inject) simp
  have d: "dtoi_loop 0 0 ''128'' = Some (128, 3)" "dtoi_loop 0 0 ''32'' = Some (32, 2)"
    by (simp_all add: is_digit_def byte_def)
  have app: "cidrContains text ip = cidrContains (text @ CHR ''/'' # (if BitLen a = 128 then ''128'' else ''32'')) ip"
    using assms(1) ParseAddr_colon[OF assms(2)] by (simp add: cidrContains_def)
  have "BitLen a = 128 \<or> BitLen a = 32" by (cases a) auto
  then show ?thesis
  proof
    assume l: "BitLen a = 128"
    with cidrContains_text[OF assms(1-3), of "''128''" 128 ip] assms(4) d eq app show ?thesis
      by (simp add: prefix16_def)
  next
    assume l: "BitLen a = 32"
    with cidrContains_text[OF assms(1-3), of "''32''" 32 ip] assms(4) d eq app show ?thesis
      by (simp add: prefix16_def)
  qed
qed

section \<open>Properties\<close>

text \<open>C23: Membership in a network is equality of the leading bits. For a text with a prefix length that
  parses, an address is a member exactly when it agrees with the network in the bits of the prefix
  of the sixteen-byte form, except that an IPv6 network shorter than the mapped range, such as
  \<^verbatim>\<open>::/0\<close>, has no IPv4 members. A text without a prefix length stands for its one address.\<close>

theorem cidr_membership:
  assumes "CHR ''/'' \<notin> set text" "ParseAddr text = Some a" "Zone a = []"
    "dtoi_loop 0 0 m = Some (n, length m)" "n \<le> BitLen a" "ParseIP s = Some ip"
  shows "(inCIDR (GString s) (GRefSlice [GString (text @ CHR ''/'' # m)]) \<longleftrightarrow>
      take (prefix16 a n) (addr_bits (As16 a)) = take (prefix16 a n) (addr_bits ip) \<and>
      (prefix16 a n < 96 \<longrightarrow> To4 ip = None)) \<and>
    (inCIDR (GString s) (GRefSlice [GString text]) \<longleftrightarrow> As16 a = ip)"
  using cidrContains_text[OF assms(1-5) ParseIP_length[OF assms(6)]]
    cidrContains_bare[OF assms(1-3) ParseIP_length[OF assms(6)]] assms(6)
  by (simp add: inCIDR_def stringOf_def)

theorem cidr_membership_witness:
  "inCIDR (GString ''10.1.2.3'') (GRefSlice [GString ''10.0.0.0/8'']) \<and>
   \<not> inCIDR (GString ''10.1.2.3'') (GRefSlice [GString ''10.0.0.0''])"
proof -
  have a: "ParseAddr ''10.0.0.0'' = Some (V4 [10, 0, 0, 0])" by code_simp
  have d: "dtoi_loop 0 0 ''8'' = Some (8, length ''8'')" by (simp add: is_digit_def byte_def)
  have ip: "ParseIP ''10.1.2.3'' = Some (replicate 10 0 @ [255, 255, 10, 1, 2, 3])" by code_simp
  have t: "take 104 (addr_bits (As16 (V4 [10, 0, 0, 0]))) =
      take 104 (addr_bits (replicate 10 0 @ [255, 255, 10, 1, 2, 3]))" by code_simp
  have n: "As16 (V4 [10, 0, 0, 0]) \<noteq> replicate 10 0 @ [255, 255, 10, 1, 2, 3]" by code_simp
  show ?thesis using cidr_membership[OF _ a _ d _ ip] t n by (simp add: prefix16_def)
qed

text \<open>The special ranges as networks: the text of the address with what it stands for, and the text of the
  prefix length with its value.\<close>

definition special_v4 :: "(string \<times> addr \<times> string \<times> nat) list" where
  "special_v4 =
     [(''10.0.0.0'', V4 [10, 0, 0, 0], ''8'', 8),
      (''172.16.0.0'', V4 [172, 16, 0, 0], ''12'', 12),
      (''192.168.0.0'', V4 [192, 168, 0, 0], ''16'', 16),
      (''169.254.0.0'', V4 [169, 254, 0, 0], ''16'', 16),
      (''224.0.0.0'', V4 [224, 0, 0, 0], ''24'', 24)]"

definition special_v6 :: "(string \<times> addr \<times> string \<times> nat) list" where
  "special_v6 =
     [(''fc00::'', V6 ([252, 0] @ replicate 14 0) [], ''7'', 7),
      (''fe80::'', V6 ([254, 128] @ replicate 14 0) [], ''10'', 10),
      (''ff02::'', V6 ([255, 2] @ replicate 14 0) [], ''16'', 16),
      (''ff12::'', V6 ([255, 18] @ replicate 14 0) [], ''16'', 16),
      (''ff22::'', V6 ([255, 34] @ replicate 14 0) [], ''16'', 16),
      (''ff32::'', V6 ([255, 50] @ replicate 14 0) [], ''16'', 16),
      (''ff42::'', V6 ([255, 66] @ replicate 14 0) [], ''16'', 16),
      (''ff52::'', V6 ([255, 82] @ replicate 14 0) [], ''16'', 16),
      (''ff62::'', V6 ([255, 98] @ replicate 14 0) [], ''16'', 16),
      (''ff72::'', V6 ([255, 114] @ replicate 14 0) [], ''16'', 16),
      (''ff82::'', V6 ([255, 130] @ replicate 14 0) [], ''16'', 16),
      (''ff92::'', V6 ([255, 146] @ replicate 14 0) [], ''16'', 16),
      (''ffa2::'', V6 ([255, 162] @ replicate 14 0) [], ''16'', 16),
      (''ffb2::'', V6 ([255, 178] @ replicate 14 0) [], ''16'', 16),
      (''ffc2::'', V6 ([255, 194] @ replicate 14 0) [], ''16'', 16),
      (''ffd2::'', V6 ([255, 210] @ replicate 14 0) [], ''16'', 16),
      (''ffe2::'', V6 ([255, 226] @ replicate 14 0) [], ''16'', 16),
      (''fff2::'', V6 ([255, 242] @ replicate 14 0) [], ''16'', 16)]"

definition special_nets :: "string list" where
  "special_nets = map (\<lambda>(t, a, m, n). t @ ''/'' @ m) (special_v4 @ special_v6)"

lemmas parse_simps = ParseAddr_def parseIPv6_def v6_loop.simps v6_turn_def Cut_def is_digit_def is_hex_def
  unhex_def byte_def Let_def

definition net_text :: "string \<times> addr \<times> string \<times> nat \<Rightarrow> bool" where
  "net_text = (\<lambda>(t, a, m, n). CHR ''/'' \<notin> set t \<and> ParseAddr t = Some a \<and> Zone a = [] \<and>
     dtoi_loop 0 0 m = Some (n, length m) \<and> n \<le> BitLen a)"

lemma special_v4_text: "list_all net_text special_v4"
  by (simp add: special_v4_def net_text_def parse_simps)

lemma special_v6_text: "list_all net_text special_v6"
  by (simp add: special_v6_def net_text_def parse_simps)

lemma masked_eq_bits:
  "length a = length b \<Longrightarrow> masked n a = masked n b \<longleftrightarrow> take n (addr_bits a) = take n (addr_bits b)"
proof (induction a b arbitrary: n rule: list_induct2)
  case (Cons x a y b)
  then show ?case using masked_eq_iff[of x n y] by (simp add: masked_Cons)
qed simp

lemma special_v4_contains:
  assumes "net_text (t, V4 b, m, n)" "length ip = 16" "length b = 4"
  shows "cidrContains (t @ ''/'' @ m) ip \<longleftrightarrow>
    take 12 ip = v4InV6Prefix \<and> masked n b = masked n (drop 12 ip)"
proof -
  have split: "take (96 + n) (addr_bits ip) = addr_bits (take 12 ip) @ take n (addr_bits (drop 12 ip))"
    using take_addr_bits[of "take 12 ip" 12 "96 + n" "drop 12 ip"] assms(2) by simp
  have "addr_bits v4InV6Prefix = addr_bits (take 12 ip) \<longleftrightarrow> take 12 ip = v4InV6Prefix"
    using assms(2) addr_bits_inject[of v4InV6Prefix "take 12 ip"] by auto
  moreover have "masked n b = masked n (drop 12 ip) \<longleftrightarrow> take n (addr_bits b) = take n (addr_bits (drop 12 ip))"
    using assms by (intro masked_eq_bits) simp
  ultimately show ?thesis
    using cidrContains_text[of t "V4 b" m n ip] assms split
    by (auto simp: net_text_def prefix16_def add.commute)
qed

lemma special_v6_contains:
  assumes "net_text (t, V6 b [], m, n)" "length ip = 16" "length b = 16" "n < 96"
  shows "cidrContains (t @ ''/'' @ m) ip \<longleftrightarrow> take 12 ip \<noteq> v4InV6Prefix \<and> masked n b = masked n ip"
  using cidrContains_text[of t "V6 b []" m n ip] masked_eq_bits[of b ip n] assms
  by (auto simp: net_text_def prefix16_def To4_16)

lemma and_255 [simp]: "(x :: 8 word) AND 255 = x"
proof -
  have "x AND mask_byte 8 = x" by (intro bit_word_eqI) (simp add: bit_and_iff bit_mask_byte)
  then show ?thesis by (simp add: mask_byte_def)
qed

lemma mask_bytes:
  "mask_byte 0 = 0" "mask_byte 2 = 0xc0" "mask_byte 4 = 0xf0" "mask_byte 7 = 0xfe" "8 \<le> n \<Longrightarrow> mask_byte n = 255"
  by (code_simp, code_simp, code_simp, code_simp, simp add: mask_byte_def)

lemma masked_0: "masked 0 xs = replicate (length xs) 0"
  by (induction xs) (auto simp: masked_Cons mask_bytes)

text \<open>The second byte of a link-local multicast address.\<close>

lemma low_nibble_2:
  "(x :: 8 word) AND 15 = 2 \<longleftrightarrow> x \<in> {0x02, 0x12, 0x22, 0x32, 0x42, 0x52, 0x62, 0x72, 0x82, 0x92, 0xa2,
     0xb2, 0xc2, 0xd2, 0xe2, 0xf2}"
proof -
  have u: "y = z \<longleftrightarrow> unat y = unat z" for y z :: "8 word" by (simp add: word_unat_eq_iff)
  have "(15 :: 8 word) = mask 4" by (simp add: mask_eq_exp_minus_1)
  then have "x AND 15 = take_bit 4 x" by (simp only: take_bit_eq_mask)
  then have "x AND 15 = 2 \<longleftrightarrow> unat x mod 16 = 2"
    unfolding u by (simp add: unsigned_take_bit_eq take_bit_eq_mod unat_mod_distrib)
  moreover have "unat x < 256"
  proof -
    have "unat x < 2 ^ LENGTH(8)" by (rule unsigned_less)
    then show ?thesis by simp
  qed
  ultimately have "x AND 15 = 2 \<longleftrightarrow> unat x \<in> (\<lambda>d. 16 * d + 2) ` set [0..<16]"
  proof -
    assume *: "x AND 15 = 2 \<longleftrightarrow> unat x mod 16 = 2" "unat x < 256"
    have "unat x = 16 * (unat x div 16) + unat x mod 16" by simp
    with *(2) have "unat x mod 16 = 2 \<Longrightarrow> \<exists>d < 16. unat x = 16 * d + 2"
      by (intro exI[of _ "unat x div 16"]) linarith
    moreover have "(16 * d + 2) mod 16 = (2 :: nat)" for d by presburger
    ultimately show ?thesis using *(1) by auto
  qed
  also have "(\<lambda>d. 16 * d + 2) ` set [0..<16] = {2, 18, 34, 50, 66, 82, 98, 114, 130, 146, 162, 178, 194, 210, 226, 242 :: nat}"
    by (simp add: upt_rec numeral_2_eq_2)
  finally show ?thesis by (simp add: u del: word_unat_eq_iff)
qed

definition member_of :: "bytes \<Rightarrow> string \<times> addr \<times> string \<times> nat \<Rightarrow> bool" where
  "member_of ip = (\<lambda>(t, a, m, n). cidrContains (t @ ''/'' @ m) ip)"

lemma list_ex_map: "list_ex P (map f xs) = list_ex (\<lambda>x. P (f x)) xs"
  by (induction xs) auto

lemma in_special:
  assumes "ParseIP s = Some ip"
  shows "inCIDR (GString s) (GRefSlice (map GString special_nets)) \<longleftrightarrow>
    list_ex (member_of ip) special_v4 \<or> list_ex (member_of ip) special_v6"
proof -
  have "list_ex (\<lambda>x. cidrContains (case x of (t, a, m, n) \<Rightarrow> t @ ''/'' @ m) ip) xs = list_ex (member_of ip) xs"
    for xs :: "(string \<times> addr \<times> string \<times> nat) list"
    by (rule list_ex_cong) (auto simp: member_of_def split: prod.split)
  with assms show ?thesis by (simp add: inCIDR_def stringOf_def special_nets_def list_ex_map)
qed

text \<open>The networks of one family, compared byte by byte under their masks.\<close>

lemma v4_list_members:
  assumes "list_all net_text xs" "list_all (\<lambda>(t, a, m, n). \<exists>bs. a = V4 bs) xs" "length ip = 16"
  shows "list_ex (member_of ip) xs \<longleftrightarrow> take 12 ip = v4InV6Prefix \<and>
    list_ex (\<lambda>(t, a, m, n). masked n (drop 12 (As16 a)) = masked n (drop 12 ip)) xs"
  using assms
proof (induction xs)
  case (Cons x xs)
  then obtain t bs m n where x: "x = (t, V4 bs, m, n)" by (cases x) auto
  with Cons.prems(1) have nt: "net_text (t, V4 bs, m, n)" by simp
  then have l: "length bs = 4" using ParseAddr_ok[of t "V4 bs"] by (simp add: net_text_def)
  from Cons show ?case
    using special_v4_contains[OF nt Cons.prems(3) l] by (auto simp: x member_of_def)
qed simp

lemma v6_list_members:
  assumes "list_all net_text xs" "list_all (\<lambda>(t, a, m, n). (\<exists>bs. a = V6 bs []) \<and> n < 96) xs"
    "length ip = 16"
  shows "list_ex (member_of ip) xs \<longleftrightarrow> take 12 ip \<noteq> v4InV6Prefix \<and>
    list_ex (\<lambda>(t, a, m, n). masked n (As16 a) = masked n ip) xs"
  using assms
proof (induction xs)
  case (Cons x xs)
  then obtain t bs m n where x: "x = (t, V6 bs [], m, n)" "n < 96" by (cases x) auto
  with Cons.prems(1) have nt: "net_text (t, V6 bs [], m, n)" by simp
  then have l: "length bs = 16" using ParseAddr_ok[of t "V6 bs []"] by (simp add: net_text_def)
  from Cons show ?case
    using special_v6_contains[OF nt Cons.prems(3) l x(2)] by (auto simp: x(1) member_of_def)
qed simp

lemma special_v4_members:
  assumes "length ip = 16" "take 12 ip = v4InV6Prefix" "drop 12 ip = [a, b, c, d]"
  shows "list_ex (member_of ip) special_v4 \<longleftrightarrow>
    IsPrivate ip \<or> IsLinkLocalUnicast ip \<or> IsLinkLocalMulticast ip"
proof -
  have "list_all (\<lambda>(t, a, m, n). \<exists>bs. a = V4 bs) special_v4" by (simp add: special_v4_def)
  from v4_list_members[OF special_v4_text this assms(1)]
  have "list_ex (member_of ip) special_v4 \<longleftrightarrow>
      list_ex (\<lambda>(t, x, m, n). masked n (drop 12 (As16 x)) = masked n [a, b, c, d]) special_v4"
    using assms(2,3) by simp
  also have "\<dots> \<longleftrightarrow> a = 10 \<or> a = 172 \<and> b AND 0xf0 = 16 \<or> a = 192 \<and> b = 168 \<or> a = 169 \<and> b = 254 \<or>
      a = 224 \<and> b = 0 \<and> c = 0"
    by (auto simp: special_v4_def masked_Cons mask_bytes)
  finally show ?thesis
    using assms by (simp add: IsPrivate_def IsLinkLocalUnicast_def IsLinkLocalMulticast_def To4_16)
qed

lemma special_v6_members:
  assumes "length ip = 16" "take 12 ip \<noteq> v4InV6Prefix" "ip = x # y # rest"
  shows "list_ex (member_of ip) special_v6 \<longleftrightarrow>
    IsPrivate ip \<or> IsLinkLocalUnicast ip \<or> IsLinkLocalMulticast ip"
proof -
  have "list_all (\<lambda>(t, a, m, n). (\<exists>bs. a = V6 bs []) \<and> n < 96) special_v6" by (simp add: special_v6_def)
  from v6_list_members[OF special_v6_text this assms(1)]
  have "list_ex (member_of ip) special_v6 \<longleftrightarrow>
      list_ex (\<lambda>(t, a, m, n). masked n (As16 a) = masked n (x # y # rest)) special_v6"
    using assms(2,3) by simp
  also have "\<dots> \<longleftrightarrow> x AND 0xfe = 0xfc \<or> x = 0xfe \<and> y AND 0xc0 = 0x80 \<or> x = 0xff \<and> y AND 0x0f = 2"
    unfolding low_nibble_2 using assms(1,3)
    by (auto simp: special_v6_def masked_Cons masked_0 mask_bytes)
  finally show ?thesis
    using assms by (simp add: IsPrivate_def IsLinkLocalUnicast_def IsLinkLocalMulticast_def To4_16)
qed

lemma list2_cases: "2 \<le> length xs \<Longrightarrow> \<exists>x y r. xs = x # y # r"
  by (cases xs; cases "tl xs") auto

lemma list4_cases: "length xs = 4 \<Longrightarrow> \<exists>a b c d. xs = [a, b, c, d]"
  using list2_cases[of xs] list2_cases[of "drop 2 xs"] by auto

lemma special_members:
  assumes "length ip = 16"
  shows "list_ex (member_of ip) special_v4 \<or> list_ex (member_of ip) special_v6 \<longleftrightarrow>
    IsPrivate ip \<or> IsLinkLocalUnicast ip \<or> IsLinkLocalMulticast ip"
proof (cases "take 12 ip = v4InV6Prefix")
  case True
  have "list_all (\<lambda>(t, a, m, n). (\<exists>bs. a = V6 bs []) \<and> n < 96) special_v6" by (simp add: special_v6_def)
  from v6_list_members[OF special_v6_text this assms] True have "\<not> list_ex (member_of ip) special_v6" by simp
  moreover obtain a b c d where "drop 12 ip = [a, b, c, d]"
    using list4_cases[of "drop 12 ip"] assms by auto
  ultimately show ?thesis using special_v4_members[OF assms True] by blast
next
  case False
  have "list_all (\<lambda>(t, a, m, n). \<exists>bs. a = V4 bs) special_v4" by (simp add: special_v4_def)
  from v4_list_members[OF special_v4_text this assms] False have "\<not> list_ex (member_of ip) special_v4" by simp
  moreover obtain x y rest where "ip = x # y # rest"
    using list2_cases[of ip] assms by auto
  ultimately show ?thesis using special_v6_members[OF assms False] by blast
qed

text \<open>C25: The private test is a membership test: it holds exactly for the members of the three private IPv4
  ranges, the unique local addresses, and the link-local unicast and multicast ranges of both
  families, for every text of an address; for any other text both are false.\<close>

theorem private_is_membership:
  "isPrivateIP (GString s) \<longleftrightarrow> inCIDR (GString s) (GRefSlice (map GString special_nets))"
proof (cases "ParseIP s")
  case None
  then show ?thesis by (simp add: isPrivateIP_def inCIDR_def stringOf_def)
next
  case (Some ip)
  with in_special[OF Some] special_members[OF ParseIP_length[OF Some]] show ?thesis
    by (simp add: isPrivateIP_def stringOf_def)
qed

text \<open>A native list of strings, as a header's values are, is neither of the two list types that are looked
  at: no address is in it.\<close>

lemma native_list_has_no_members: "\<not> inCIDR v (GStrings cidrs)"
  by (simp add: inCIDR_def split: option.split)

end
