(* ===== verification/Cel_Strings.thy ===== *)
theory Cel_Strings
  imports Celenv Cel_Net
begin

text \<open>
  \<^verbatim>\<open>internal/celenv/strings.go\<close>: globs, translated to regular expressions and matched through a cache of
  compiled expressions. The compiler of \<^verbatim>\<open>regexp\<close> is a parameter; what the package relies on is its
  documented behaviour on the fragment of the syntax that the translation of simple globs stays in.
\<close>

section \<open>Translation\<close>

definition QuoteMeta :: "string \<Rightarrow> string" where
  "QuoteMeta s = concat (map (\<lambda>c. if c \<in> set ''.+*?()|[]{}^$'' \<or> c = CHR 0x5C then [CHR 0x5C, c] else [c]) s)"

definition quoted_chars :: string where
  "quoted_chars = ''.+()|^$'' @ [CHR 0x5C]"

function glob_loop :: "string \<Rightarrow> string" where
  "glob_loop g =
     (case g of
        [] \<Rightarrow> []
      | c # r \<Rightarrow>
          if c = CHR ''*'' then
            if r \<noteq> [] \<and> hd r = CHR ''*'' then ''.*'' @ glob_loop (tl r)
            else ''[^/]*'' @ glob_loop r
          else if c = CHR ''?'' then ''[^/]'' @ glob_loop r
          else if c = CHR ''['' then
            (case IndexByte g (CHR '']'') of
               None \<Rightarrow> QuoteMeta [c] @ glob_loop r
             | Some j \<Rightarrow> take (j + 1) g @ glob_loop (drop (j + 1) g))
          else if c \<in> set quoted_chars then QuoteMeta [c] @ glob_loop r
          else c # glob_loop r)"
  by pat_completeness auto
termination
  by (relation "measure length") auto

declare glob_loop.simps [simp del]

definition globRE2 :: "string \<Rightarrow> string" where
  "globRE2 g = ''^'' @ glob_loop g @ ''$''"

section \<open>Matching\<close>

type_synonym matcher = "string \<Rightarrow> bool"

text \<open>The compiler gives a matcher, or None for an error.\<close>

type_synonym re_compiler = "string \<Rightarrow> matcher option"

type_synonym glob_cache = "string \<rightharpoonup> matcher"

definition matchGlob :: "re_compiler \<Rightarrow> string \<Rightarrow> string \<Rightarrow> glob_cache \<Rightarrow> bool \<times> glob_cache" where
  "matchGlob compile s pattern globCache =
     (case globCache pattern of
        Some re \<Rightarrow> (re s, globCache)
      | None \<Rightarrow>
          (case compile (globRE2 pattern) of
             None \<Rightarrow> (False, globCache)
           | Some re \<Rightarrow> (re s, globCache(pattern \<mapsto> re))))"

definition glob_fn :: "re_compiler \<Rightarrow> goval \<Rightarrow> goval \<Rightarrow> glob_cache \<Rightarrow> bool \<times> glob_cache" where
  "glob_fn compile sv pv = matchGlob compile (stringOf sv) (stringOf pv)"

fun glob_any_loop :: "re_compiler \<Rightarrow> string \<Rightarrow> goval list \<Rightarrow> glob_cache \<Rightarrow> bool \<times> glob_cache" where
  "glob_any_loop compile s [] c = (False, c)"
| "glob_any_loop compile s (v # vs) c =
     (case v of
        GString p \<Rightarrow>
          (case matchGlob compile s p c of
             (True, c') \<Rightarrow> (True, c')
           | (False, c') \<Rightarrow> glob_any_loop compile s vs c')
      | _ \<Rightarrow> glob_any_loop compile s vs c)"

definition globAny :: "re_compiler \<Rightarrow> goval \<Rightarrow> goval \<Rightarrow> glob_cache \<Rightarrow> bool \<times> glob_cache" where
  "globAny compile sv psv c =
     (case psv of
        GRefSlice raws \<Rightarrow> glob_any_loop compile (stringOf sv) raws c
      | GSlice anys \<Rightarrow> glob_any_loop compile (stringOf sv) anys c
      | _ \<Rightarrow> (False, c))"

text \<open>The cache is a memo of the answers without one.\<close>

definition glob_answer :: "re_compiler \<Rightarrow> string \<times> string \<Rightarrow> bool" where
  "glob_answer compile = (\<lambda>(s, p). case compile (globRE2 p) of None \<Rightarrow> False | Some re \<Rightarrow> re s)"

definition glob_cache_ok :: "re_compiler \<Rightarrow> glob_cache \<Rightarrow> bool" where
  "glob_cache_ok compile c \<longleftrightarrow> (\<forall>p re. c p = Some re \<longrightarrow> compile (globRE2 p) = Some re)"

interpretation globs: memo "\<lambda>(s, p). matchGlob compile s p" "glob_answer compile" "glob_cache_ok compile"
  for compile
  by unfold_locales
    (auto simp: matchGlob_def glob_answer_def glob_cache_ok_def split: option.splits if_splits)

section \<open>What a glob means\<close>

text \<open>The pieces of a glob, and the words each of them stands for. In the regular expression a dot does
  not match a newline.\<close>

datatype piece = Lit char | AnyStar | SegStar | SegOne

fun piece_word :: "piece \<Rightarrow> string \<Rightarrow> bool" where
  "piece_word (Lit c) w = (w = [c])"
| "piece_word AnyStar w = (CHR 0x0A \<notin> set w)"
| "piece_word SegStar w = (CHR ''/'' \<notin> set w)"
| "piece_word SegOne w = (length w = 1 \<and> CHR ''/'' \<notin> set w)"

definition matches :: "piece list \<Rightarrow> string \<Rightarrow> bool" where
  "matches ps s \<longleftrightarrow> (\<exists>ws. s = concat ws \<and> list_all2 piece_word ps ws)"

fun glob_pieces :: "string \<Rightarrow> piece list" where
  "glob_pieces [] = []"
| "glob_pieces (c # r) =
     (if c = CHR ''*'' then
        (case r of
           [] \<Rightarrow> [SegStar]
         | d # r' \<Rightarrow> if d = CHR ''*'' then AnyStar # glob_pieces r' else SegStar # glob_pieces r)
      else if c = CHR ''?'' then SegOne # glob_pieces r
      else Lit c # glob_pieces r)"

definition ascii :: "string \<Rightarrow> bool" where
  "ascii s \<longleftrightarrow> list_all (\<lambda>c. byte c < 128) s"

text \<open>A simple glob: no character class, and no brace, which the translation leaves as it is.\<close>

definition simple_glob :: "string \<Rightarrow> bool" where
  "simple_glob p \<longleftrightarrow> ascii p \<and> CHR ''{'' \<notin> set p \<and> (CHR ''['' \<notin> set p \<or> CHR '']'' \<notin> set p)"

section \<open>The fragment of the expression syntax\<close>

definition escaped_chars :: string where
  "escaped_chars = ''.+()|^$['' @ [CHR 0x5C]"

fun render :: "piece \<Rightarrow> string" where
  "render (Lit c) = (if c \<in> set escaped_chars then [CHR 0x5C, c] else [c])"
| "render AnyStar = ''.*''"
| "render SegStar = ''[^/]*''"
| "render SegOne = ''[^/]''"

definition plain_piece :: "piece \<Rightarrow> bool" where
  "plain_piece q \<longleftrightarrow> (\<forall>c. q = Lit c \<longrightarrow> byte c < 128 \<and> c \<notin> set ''*?{'')"

text \<open>What is relied on: an anchored sequence of such pieces compiles, and matches exactly the texts that are
  made of their words. Texts of one-byte characters are considered.\<close>

definition compiles_globs :: "re_compiler \<Rightarrow> bool" where
  "compiles_globs compile \<longleftrightarrow>
     (\<forall>ps. list_all plain_piece ps \<longrightarrow>
        (\<exists>re. compile (''^'' @ concat (map render ps) @ ''$'') = Some re \<and>
           (\<forall>s. ascii s \<longrightarrow> re s = matches ps s)))"

lemma escape_lit: "c \<in> set quoted_chars \<or> c = CHR ''['' \<Longrightarrow> QuoteMeta [c] = render (Lit c)"
  by (auto simp: QuoteMeta_def quoted_chars_def escaped_chars_def)

lemma plain_lit:
  "c \<notin> set quoted_chars \<Longrightarrow> c \<noteq> CHR ''['' \<Longrightarrow> render (Lit c) = [c]"
  by (auto simp: quoted_chars_def escaped_chars_def)

lemma glob_loop_star:
  "glob_loop [] = []" "glob_loop [CHR ''*''] = ''[^/]*''"
  "glob_loop (CHR ''*'' # CHR ''*'' # r) = ''.*'' @ glob_loop r"
  "d \<noteq> CHR ''*'' \<Longrightarrow> glob_loop (CHR ''*'' # d # r) = ''[^/]*'' @ glob_loop (d # r)"
  "glob_loop (CHR ''?'' # r) = ''[^/]'' @ glob_loop r"
proof -
  show nil: "glob_loop [] = []" by (subst glob_loop.simps) simp
  show "glob_loop [CHR ''*''] = ''[^/]*''" by (subst glob_loop.simps) (simp add: nil)
qed (subst glob_loop.simps, simp)+

lemma glob_loop_lit:
  assumes "c \<noteq> CHR ''*''" "c \<noteq> CHR ''?''" "c = CHR ''['' \<Longrightarrow> CHR '']'' \<notin> set r"
  shows "glob_loop (c # r) = render (Lit c) @ glob_loop r"
proof -
  consider "c = CHR ''[''" | "c \<noteq> CHR ''[''" "c \<in> set quoted_chars" | "c \<noteq> CHR ''[''" "c \<notin> set quoted_chars"
    by blast
  then show ?thesis
  proof cases
    case 1
    with assms(3) have "IndexByte (CHR ''['' # r) (CHR '']'') = None" by simp
    with escape_lit[of "CHR ''[''"] show ?thesis
      unfolding 1 by (subst glob_loop.simps) (simp del: render.simps IndexByte.simps IndexByte_None_iff)
  next
    case 2
    with assms escape_lit[of c] show ?thesis by (subst glob_loop.simps) (simp del: render.simps)
  next
    case 3
    with assms plain_lit[of c] show ?thesis by (subst glob_loop.simps) (simp del: render.simps)
  qed
qed

lemma glob_loop_pieces:
  "CHR ''['' \<notin> set p \<or> CHR '']'' \<notin> set p \<Longrightarrow> glob_loop p = concat (map render (glob_pieces p))"
proof (induction p rule: length_induct)
  case (1 p)
  show ?case
  proof (cases p)
    case Nil
    then show ?thesis by (simp add: glob_loop_star)
  next
    case (Cons c r)
    have IH: "glob_loop q = concat (map render (glob_pieces q))" if "q = r \<or> q = tl r" for q
    proof -
      have "set q \<subseteq> set p" using that Cons by (cases r) auto
      moreover have "length q < length p" using that Cons by auto
      ultimately show ?thesis using 1 by blast
    qed
    show ?thesis
    proof (cases "c = CHR ''*''")
      case True
      with Cons IH[of r] IH[of "tl r"] show ?thesis by (cases r) (auto simp: glob_loop_star)
    next
      case star: False
      show ?thesis
      proof (cases "c = CHR ''?''")
        case True
        with Cons IH[of r] show ?thesis by (simp add: glob_loop_star)
      next
        case False
        have "c = CHR ''['' \<Longrightarrow> CHR '']'' \<notin> set r" using 1 Cons by auto
        with glob_loop_lit[OF star False] star False Cons IH[of r] show ?thesis
          by (simp del: render.simps)
      qed
    qed
  qed
qed

lemma glob_pieces_plain:
  assumes "ascii p" "CHR ''{'' \<notin> set p"
  shows "list_all plain_piece (glob_pieces p)"
proof -
  have lit: "Lit c \<in> set (glob_pieces p) \<Longrightarrow> c \<in> set p \<and> c \<noteq> CHR ''*'' \<and> c \<noteq> CHR ''?''" for c
  proof (induction p rule: length_induct)
    case (1 p)
    show ?case
    proof (cases p)
      case (Cons d r)
      have IH: "c \<in> set p \<and> c \<noteq> CHR ''*'' \<and> c \<noteq> CHR ''?''" if "Lit c \<in> set (glob_pieces q)" "q = r \<or> q = tl r" for q
      proof -
        have "set q \<subseteq> set p" using that(2) Cons by (cases r) auto
        moreover have "length q < length p" using that(2) Cons by auto
        ultimately show ?thesis using 1 that(1) by blast
      qed
      show ?thesis
      proof (cases "Lit c \<in> set (glob_pieces r) \<or> Lit c \<in> set (glob_pieces (tl r))")
        case True
        with IH show ?thesis by blast
      next
        case False
        with 1(2) Cons have "c = d" "d \<noteq> CHR ''*''" "d \<noteq> CHR ''?''" by (auto split: if_splits list.splits)
        with Cons show ?thesis by simp
      qed
    qed (use 1 in simp)
  qed
  show ?thesis unfolding list_all_iff plain_piece_def
  proof (intro ballI allI impI)
    fix q c assume "q \<in> set (glob_pieces p)" "q = Lit c"
    with lit[of c] have "c \<in> set p" "c \<noteq> CHR ''*''" "c \<noteq> CHR ''?''" by auto
    with assms show "byte c < 128 \<and> c \<notin> set ''*?{''" by (auto simp: ascii_def list_all_iff)
  qed
qed

lemma glob_answer_simple:
  assumes "compiles_globs compile" "simple_glob p" "ascii s"
  shows "glob_answer compile (s, p) = matches (glob_pieces p) s"
proof -
  have "globRE2 p = ''^'' @ concat (map render (glob_pieces p)) @ ''$''"
    using assms(2) by (simp add: globRE2_def simple_glob_def glob_loop_pieces)
  moreover have "list_all plain_piece (glob_pieces p)"
    using assms(2) by (intro glob_pieces_plain) (auto simp: simple_glob_def)
  ultimately show ?thesis using assms(1,3) by (auto simp: compiles_globs_def glob_answer_def)
qed

text \<open>The answers of the two functions of the library, whatever the cache holds.\<close>

lemma matchGlob_answer:
  assumes "glob_cache_ok compile c"
  shows "fst (matchGlob compile s p c) = glob_answer compile (s, p)"
    "glob_cache_ok compile (snd (matchGlob compile s p c))"
  using globs.ask_answer[OF assms, of "(s, p)"] globs.ask_valid[OF assms, of "(s, p)"] by simp_all

lemma glob_any_loop_answer:
  "glob_cache_ok compile c \<Longrightarrow>
     fst (glob_any_loop compile s vs c) = (\<exists>p. GString p \<in> set vs \<and> glob_answer compile (s, p)) \<and>
     glob_cache_ok compile (snd (glob_any_loop compile s vs c))"
proof (induction vs arbitrary: c)
  case (Cons v vs)
  show ?case
  proof (cases "\<exists>p. v = GString p")
    case True
    then obtain p where v: "v = GString p" by blast
    obtain b c' where m: "matchGlob compile s p c = (b, c')" by fastforce
    with matchGlob_answer[OF Cons.prems, of s p] have b: "b = glob_answer compile (s, p)"
      and c': "glob_cache_ok compile c'" by auto
    show ?thesis
    proof (cases b)
      case True
      with v m b c' show ?thesis by auto
    next
      case False
      with v m b Cons.IH[OF c'] show ?thesis by auto
    qed
  next
    case False
    with Cons show ?thesis by (cases v) auto
  qed
qed simp

section \<open>A compiler of the fragment\<close>

text \<open>The converse of \<open>render\<close>, and a matcher that tries every split.\<close>

fun re_parse :: "string \<Rightarrow> piece list option" where
  "re_parse [] = Some []"
| "re_parse (c # r) =
     (if c = CHR 0x5C then
        (case r of [] \<Rightarrow> None | d # r' \<Rightarrow> map_option ((#) (Lit d)) (re_parse r'))
      else if c = CHR ''.'' then
        (case r of
           d # r' \<Rightarrow> if d = CHR ''*'' then map_option ((#) AnyStar) (re_parse r') else None
         | [] \<Rightarrow> None)
      else if c = CHR ''['' then
        (case r of
           a # b # d # e # r' \<Rightarrow>
             if [a, b, d, e] = ''^/]*'' then map_option ((#) SegStar) (re_parse r')
             else if [a, b, d] = ''^/]'' then map_option ((#) SegOne) (re_parse (e # r'))
             else None
         | [a, b, d] \<Rightarrow> if r = ''^/]'' then Some [SegOne] else None
         | _ \<Rightarrow> None)
      else if c \<in> set ''*+?()|{^$'' then None
      else map_option ((#) (Lit c)) (re_parse r))"

fun match_pieces :: "piece list \<Rightarrow> string \<Rightarrow> bool" where
  "match_pieces [] s = (s = [])"
| "match_pieces (Lit c # ps) s = (case s of [] \<Rightarrow> False | d # r \<Rightarrow> d = c \<and> match_pieces ps r)"
| "match_pieces (SegOne # ps) s = (case s of [] \<Rightarrow> False | d # r \<Rightarrow> d \<noteq> CHR ''/'' \<and> match_pieces ps r)"
| "match_pieces (AnyStar # ps) s =
     (match_pieces ps s \<or> (case s of [] \<Rightarrow> False | d # r \<Rightarrow> d \<noteq> CHR 0x0A \<and> match_pieces (AnyStar # ps) r))"
| "match_pieces (SegStar # ps) s =
     (match_pieces ps s \<or> (case s of [] \<Rightarrow> False | d # r \<Rightarrow> d \<noteq> CHR ''/'' \<and> match_pieces (SegStar # ps) r))"

definition fragment_compiler :: re_compiler where
  "fragment_compiler t =
     (if t \<noteq> [] \<and> hd t = CHR ''^'' \<and> last t = CHR ''$'' \<and> length t \<ge> 2
      then map_option match_pieces (re_parse (butlast (tl t))) else None)"

lemma matches_Nil: "matches [] s \<longleftrightarrow> s = []"
  by (auto simp: matches_def)

lemma matches_Cons: "matches (q # ps) s \<longleftrightarrow> (\<exists>w r. s = w @ r \<and> piece_word q w \<and> matches ps r)"
proof
  assume "matches (q # ps) s"
  then obtain w ws where "s = w @ concat ws" "piece_word q w" "list_all2 piece_word ps ws"
    by (auto simp: matches_def list_all2_Cons1)
  then show "\<exists>w r. s = w @ r \<and> piece_word q w \<and> matches ps r" unfolding matches_def by blast
next
  assume "\<exists>w r. s = w @ r \<and> piece_word q w \<and> matches ps r"
  then obtain w ws where "s = concat (w # ws)" "list_all2 piece_word (q # ps) (w # ws)"
    by (auto simp: matches_def)
  then show "matches (q # ps) s" unfolding matches_def by blast
qed

lemma matches_ConsI: "piece_word q w \<Longrightarrow> matches ps r \<Longrightarrow> matches (q # ps) (w @ r)"
  by (auto simp: matches_Cons)

lemma matches_star:
  assumes "\<And>w. piece_word q w \<longleftrightarrow> x \<notin> set w"
  shows "matches (q # ps) s \<longleftrightarrow>
    matches ps s \<or> (case s of [] \<Rightarrow> False | d # r \<Rightarrow> d \<noteq> x \<and> matches (q # ps) r)"
proof (cases s)
  case (Cons d r)
  have "matches (q # ps) (d # r) \<longleftrightarrow> matches ps (d # r) \<or> d \<noteq> x \<and> matches (q # ps) r"
  proof
    assume "matches (q # ps) (d # r)"
    then obtain w v where w: "d # r = w @ v" "x \<notin> set w" "matches ps v" by (auto simp: matches_Cons assms)
    then show "matches ps (d # r) \<or> d \<noteq> x \<and> matches (q # ps) r"
      by (cases w) (auto simp: matches_Cons assms)
  next
    assume "matches ps (d # r) \<or> d \<noteq> x \<and> matches (q # ps) r"
    then show "matches (q # ps) (d # r)"
    proof
      assume "matches ps (d # r)"
      then show ?thesis using matches_ConsI[of q "[]" ps "d # r"] by (simp add: assms)
    next
      assume *: "d \<noteq> x \<and> matches (q # ps) r"
      then obtain w v where "r = w @ v" "x \<notin> set w" "matches ps v" by (auto simp: matches_Cons assms)
      with * show ?thesis using matches_ConsI[of q "d # w" ps v] by (auto simp: assms)
    qed
  qed
  with Cons show ?thesis by simp
qed (auto simp: matches_Cons assms)

lemma match_pieces_correct: "match_pieces ps s = matches ps s"
proof (induction ps s rule: match_pieces.induct)
  case (4 ps s)
  then show ?case using matches_star[of AnyStar "CHR 0x0A" ps s] by (auto split: list.split)
next
  case (5 ps s)
  then show ?case using matches_star[of SegStar "CHR ''/''" ps s] by (auto split: list.split)
next
  case (2 c ps s)
  then show ?case by (cases s) (auto simp: matches_Cons)
next
  case (3 ps s)
  then show ?case
    using matches_ConsI[of SegOne "[hd s]" ps "tl s"] by (cases s) (auto simp: matches_Cons length_Suc_conv)
qed (simp add: matches_Nil)

lemma re_parse_render:
  assumes "list_all plain_piece ps"
  shows "re_parse (concat (map render ps)) = Some ps"
  using assms
proof (induction ps)
  case (Cons q ps)
  then have IH: "re_parse (concat (map render ps)) = Some ps" by simp
  show ?case
  proof (cases q)
    case (Lit c)
    with Cons.prems have "c \<notin> set ''*?{''" by (simp add: plain_piece_def)
    with Lit IH show ?thesis by (auto simp: escaped_chars_def)
  next
    case SegOne
    have hd: "concat (map render ps) = [] \<or> hd (concat (map render ps)) \<noteq> CHR ''*''"
    proof (cases ps)
      case (Cons q' ps')
      show ?thesis
      proof (cases q')
        case (Lit c)
        with Cons Cons.prems \<open>list_all plain_piece (q # ps)\<close> have "c \<noteq> CHR ''*''" by (simp add: plain_piece_def)
        with Lit Cons show ?thesis by (simp add: escaped_chars_def)
      qed (use Cons in auto)
    qed simp
    show ?thesis
    proof (cases "concat (map render ps)")
      case Nil
      with IH have "ps = []" by simp
      with SegOne show ?thesis by simp
    next
      case (Cons e r)
      with hd have "e \<noteq> CHR ''*''" by simp
      with SegOne IH Cons show ?thesis by simp
    qed
  qed (use IH in simp_all)
qed simp

lemma fragment_compiler_ok: "compiles_globs fragment_compiler"
  unfolding compiles_globs_def
proof (intro allI impI)
  fix ps assume "list_all plain_piece ps"
  then have "fragment_compiler (''^'' @ concat (map render ps) @ ''$'') = Some (match_pieces ps)"
    by (simp add: fragment_compiler_def butlast_append re_parse_render)
  then show "\<exists>re. fragment_compiler (''^'' @ concat (map render ps) @ ''$'') = Some re \<and>
      (\<forall>s. ascii s \<longrightarrow> re s = matches ps s)"
    by (simp add: match_pieces_correct)
qed

section \<open>Properties\<close>

text \<open>C24: A simple glob matches what its pieces say, whatever the cache holds: a star any text without
  a slash, two stars any text without a newline, a question mark one character that is no slash,
  and every other character, the special ones of regular expressions included, itself. A
  list of patterns matches when one of them does.\<close>

theorem glob_matches_pieces:
  assumes "compiles_globs compile" "glob_cache_ok compile c" "ascii s"
    "\<forall>p. GString p \<in> set patterns \<longrightarrow> simple_glob p"
  shows "fst (globAny compile (GString s) (GRefSlice patterns) c) \<longleftrightarrow>
    (\<exists>p. GString p \<in> set patterns \<and>
       (\<exists>ws. s = concat ws \<and> list_all2 piece_word (glob_pieces p) ws))"
proof -
  have "fst (globAny compile (GString s) (GRefSlice patterns) c) \<longleftrightarrow>
      (\<exists>p. GString p \<in> set patterns \<and> glob_answer compile (s, p))"
    using glob_any_loop_answer[OF assms(2)] by (simp add: globAny_def stringOf_def)
  also have "\<dots> \<longleftrightarrow> (\<exists>p. GString p \<in> set patterns \<and> matches (glob_pieces p) s)"
    using glob_answer_simple[OF assms(1) _ assms(3)] assms(4) by blast
  finally show ?thesis by (simp add: matches_def)
qed

lemma sample_glob:
  "glob_pieces ''/api/*.json'' = map Lit ''/api/'' @ SegStar # map Lit ''.json''"
  "simple_glob ''/api/*.json''" "ascii ''/api/v1.json''"
  by code_simp+

theorem glob_matches_pieces_witness:
  "fst (globAny fragment_compiler (GString ''/api/v1.json'') (GRefSlice [GString ''/api/*.json'']) Map.empty) \<and>
   list_all2 piece_word (glob_pieces ''/api/*.json'')
     (map (\<lambda>c. [c]) ''/api/'' @ ''v1'' # map (\<lambda>c. [c]) ''.json'')"
proof
  show w: "list_all2 piece_word (glob_pieces ''/api/*.json'')
     (map (\<lambda>c. [c]) ''/api/'' @ ''v1'' # map (\<lambda>c. [c]) ''.json'')"
    by (simp add: sample_glob)
  have "\<exists>ws. ''/api/v1.json'' = concat ws \<and> list_all2 piece_word (glob_pieces ''/api/*.json'') ws"
    using w by (intro exI[of _ "map (\<lambda>c. [c]) ''/api/'' @ ''v1'' # map (\<lambda>c. [c]) ''.json''"]) simp
  then show "fst (globAny fragment_compiler (GString ''/api/v1.json'')
      (GRefSlice [GString ''/api/*.json'']) Map.empty)"
    by (subst glob_matches_pieces[OF fragment_compiler_ok]) (simp_all add: glob_cache_ok_def sample_glob(2,3))
qed

end
