(* ===== verification/Jsonpath.thy ===== *)
theory Jsonpath
  imports Go_Values
begin

text \<open>
  \<^verbatim>\<open>internal/jsonpath\<close>: the compiler of the selector language (its three regular expressions as
  scanners), the evaluator over decoded JSON, the recursive descent and the insertion sort.
\<close>

section \<open>Compilation\<close>

datatype step = StepKey string | StepIndex int | StepWildcard | StepRecursive string

datatype jp_error =
    EmptyExpr
  | BadRecursive string
  | BadChild string
  | BadBracket string
  | BadIndex string
  | BadFragment string

definition isIdentStart :: "char \<Rightarrow> bool" where
  "isIdentStart b \<longleftrightarrow> b = CHR ''_'' \<or> is_upper b \<or> is_lower b"

definition ident_char :: "char \<Rightarrow> bool" where
  "ident_char b \<longleftrightarrow> isIdentStart b \<or> is_digit b \<or> b = CHR ''-''"

text \<open>The group \<^verbatim>\<open>([A-Za-z_][A-Za-z0-9_\-]*)\<close>, greedy: the name and what follows it.\<close>

definition scan_ident :: "string \<Rightarrow> (string \<times> string) option" where
  "scan_ident s =
     (case s of
        [] \<Rightarrow> None
      | c # cs \<Rightarrow>
          if isIdentStart c then Some (c # takeWhile ident_char cs, dropWhile ident_char cs)
          else None)"

definition reRecursive :: "string \<Rightarrow> (string \<times> string) option" where
  "reRecursive s = (if HasPrefix s ''..'' then scan_ident (drop 2 s) else None)"

definition reChild :: "string \<Rightarrow> (string \<times> string) option" where
  "reChild s = (if HasPrefix s ''.'' then scan_ident (drop 1 s) else None)"

text \<open>The group of \<^verbatim>\<open>reBracket\<close>: a star, digits with an optional minus sign, or a quoted text. The
  alternatives start with different bytes, so at most one can match.\<close>

definition scan_inner :: "string \<Rightarrow> (string \<times> string) option" where
  "scan_inner s =
     (case s of
        [] \<Rightarrow> None
      | c # cs \<Rightarrow>
          if c = CHR ''*'' then Some (''*'', cs)
          else if c = CHR 0x27 \<or> c = CHR 0x22 then
            (case dropWhile (\<lambda>d. d \<noteq> c) cs of
               [] \<Rightarrow> None
             | q # cs' \<Rightarrow> Some (c # takeWhile (\<lambda>d. d \<noteq> c) cs @ [q], cs'))
          else
            let sign = (if c = CHR ''-'' then [c] else []);
                body = (if c = CHR ''-'' then cs else s);
                ds = takeWhile is_digit body
            in if ds = [] then None else Some (sign @ ds, dropWhile is_digit body))"

definition reBracket :: "string \<Rightarrow> (string \<times> string) option" where
  "reBracket s =
     (case s of
        [] \<Rightarrow> None
      | c # cs \<Rightarrow>
          if c = CHR ''['' then
            (case scan_inner cs of
               Some (inner, d # rest) \<Rightarrow> if d = CHR '']'' then Some (inner, rest) else None
             | _ \<Rightarrow> None)
          else None)"

definition bracket_step :: "string \<Rightarrow> jp_error + step" where
  "bracket_step inner =
     (if inner = ''*'' then Inr StepWildcard
      else if HasPrefix inner [CHR 0x27] \<or> HasPrefix inner [CHR 0x22] then
        Inr (StepKey (take (length inner - 2) (drop 1 inner)))
      else (case ParseInt inner of
              Inl _ \<Rightarrow> Inl (BadIndex inner)
            | Inr n \<Rightarrow> Inr (StepIndex n)))"

lemma scan_ident_shorter: "scan_ident s = Some (m, r) \<Longrightarrow> length r < length s"
  by (auto simp: scan_ident_def split: list.splits if_splits intro: le_imp_less_Suc length_dropWhile_le)

lemma length_dropWhile_Cons: "dropWhile P xs = y # ys \<Longrightarrow> length ys < length xs"
  using length_dropWhile_le[of P xs] by simp

lemma scan_inner_shorter: "scan_inner s = Some (m, r) \<Longrightarrow> length r \<le> length s"
  by (auto simp: scan_inner_def Let_def length_dropWhile_le le_SucI
      split: if_splits list.splits dest!: length_dropWhile_Cons)

lemma reBracket_shorter: "reBracket s = Some (m, r) \<Longrightarrow> length r + 2 \<le> length s"
  by (fastforce simp: reBracket_def split: list.splits if_splits option.splits dest: scan_inner_shorter)

lemma reChild_shorter: "reChild s = Some (m, r) \<Longrightarrow> length r + 2 \<le> length s"
  by (cases s) (auto simp: reChild_def split: if_splits dest: scan_ident_shorter)

lemma reRecursive_shorter: "reRecursive s = Some (m, r) \<Longrightarrow> length r + 2 \<le> length s"
  by (cases s) (auto simp: reRecursive_def split: if_splits dest!: scan_ident_shorter)

text \<open>The loop over what is left of the expression. A name with no dot before it is retried with
  one, so the text can grow by a byte; the measure charges for that once.\<close>

definition loop_measure :: "string \<Rightarrow> nat" where
  "loop_measure s = 2 * length s + (if s \<noteq> [] \<and> isIdentStart (hd s) then 3 else 0)"

lemma loop_measure_shorter: "length r + 2 \<le> length s \<Longrightarrow> loop_measure r < loop_measure s"
  by (cases s) (auto simp: loop_measure_def)

function compile_loop :: "string \<Rightarrow> step list \<Rightarrow> jp_error + step list" where
  "compile_loop rest steps =
     (if rest = [] then Inr steps
      else if HasPrefix rest ''..'' then
        (case reRecursive rest of
           None \<Rightarrow> Inl (BadRecursive rest)
         | Some (m, rest') \<Rightarrow> compile_loop rest' (steps @ [StepRecursive m]))
      else if HasPrefix rest ''.'' then
        (case reChild rest of
           None \<Rightarrow> Inl (BadChild rest)
         | Some (m, rest') \<Rightarrow> compile_loop rest' (steps @ [StepKey m]))
      else if HasPrefix rest ''['' then
        (case reBracket rest of
           None \<Rightarrow> Inl (BadBracket rest)
         | Some (inner, rest') \<Rightarrow>
             (case bracket_step inner of
                Inl e \<Rightarrow> Inl e
              | Inr st \<Rightarrow> compile_loop rest' (steps @ [st])))
      else if isIdentStart (hd rest) then compile_loop (CHR ''.'' # rest) steps
      else Inl (BadFragment rest))"
  by pat_completeness auto
termination
  by (relation "measure (\<lambda>(rest, steps). loop_measure rest)")
     (auto intro!: loop_measure_shorter dest: reRecursive_shorter reChild_shorter reBracket_shorter
       simp: loop_measure_def isIdentStart_def is_upper_def is_lower_def byte_def)

declare compile_loop.simps [simp del]

definition jp_Compile :: "string \<Rightarrow> jp_error + step list" where
  "jp_Compile expr =
     (if expr = [] then Inl EmptyExpr else compile_loop (TrimPrefix expr ''$'') [])"

section \<open>Sorting\<close>

text \<open>The inner loop moves the element at \<open>j\<close> down by swaps; the outer one does so for each \<open>i\<close>.\<close>

fun sift :: "string list \<Rightarrow> nat \<Rightarrow> string list" where
  "sift s 0 = s"
| "sift s (Suc j) =
     (if s ! j > s ! Suc j then sift (s[j := s ! Suc j, Suc j := s ! j]) j else s)"

lemma length_sift [simp]: "length (sift s j) = length s"
  by (induction s j rule: sift.induct) auto

function sort_from :: "string list \<Rightarrow> nat \<Rightarrow> string list" where
  "sort_from s i = (if i < length s then sort_from (sift s i) (Suc i) else s)"
  by pat_completeness auto
termination
  by (relation "measure (\<lambda>(s, i). length s - i)") auto

declare sort_from.simps [simp del]

definition sortStrings :: "string list \<Rightarrow> string list" where
  "sortStrings s = sort_from s 1"

section \<open>Evaluation\<close>

fun collectRecursive :: "goval \<Rightarrow> string \<Rightarrow> goval list" where
  "collectRecursive (GMapSA m) name =
     (case map_of m name of None \<Rightarrow> [] | Some got \<Rightarrow> [got]) @
     concat (map (\<lambda>(k, vv). collectRecursive vv name) m)"
| "collectRecursive (GSlice xs) name = concat (map (\<lambda>vv. collectRecursive vv name) xs)"
| "collectRecursive v name = []"

definition map_get :: "(string \<times> goval) list \<Rightarrow> string \<Rightarrow> goval" where
  "map_get m k = (case map_of m k of None \<Rightarrow> GNil | Some v \<Rightarrow> v)"

fun eval_step :: "step \<Rightarrow> goval \<Rightarrow> goval list" where
  "eval_step (StepKey name) n =
     (case n of GMapSA m \<Rightarrow> (case map_of m name of None \<Rightarrow> [] | Some v \<Rightarrow> [v]) | _ \<Rightarrow> [])"
| "eval_step (StepIndex idx) n =
     (case n of
        GSlice a \<Rightarrow>
          let i = (if idx < 0 then int (length a) + idx else idx)
          in if 0 \<le> i \<and> i < int (length a) then [a ! nat i] else []
      | _ \<Rightarrow> [])"
| "eval_step StepWildcard n =
     (case n of
        GSlice a \<Rightarrow> a
      | GMapSA m \<Rightarrow> map (map_get m) (sortStrings (map fst m))
      | _ \<Rightarrow> [])"
| "eval_step (StepRecursive name) n = collectRecursive n name"

definition jp_Eval :: "step list \<Rightarrow> goval \<Rightarrow> goval list" where
  "jp_Eval steps root = fold (\<lambda>s nodes. concat (map (eval_step s) nodes)) steps [root]"

section \<open>The sort is the library's sort\<close>

lemma sift_split:
  "\<exists>us vs. xs = us @ vs \<and> sift (xs @ x # ys) (length xs) = us @ x # vs @ ys \<and>
     (\<forall>v \<in> set vs. x < v) \<and> (us \<noteq> [] \<longrightarrow> last us \<le> x)"
proof (induction xs arbitrary: ys rule: rev_induct)
  case (snoc z zs)
  show ?case
  proof (cases "x < z")
    case True
    from snoc[of "z # ys"] obtain us vs where *: "zs = us @ vs"
      "sift (zs @ x # z # ys) (length zs) = us @ x # vs @ z # ys"
      "\<forall>v \<in> set vs. x < v" "us \<noteq> [] \<longrightarrow> last us \<le> x" by blast
    have "(zs @ z # x # ys)[length zs := x, Suc (length zs) := z] = zs @ x # z # ys"
      by (simp add: list_update_append)
    with True *(2) have "sift ((zs @ [z]) @ x # ys) (length (zs @ [z])) = us @ x # (vs @ [z]) @ ys"
      by (simp add: nth_append)
    with * True show ?thesis
      by (intro exI[of _ us] exI[of _ "vs @ [z]"]) auto
  next
    case False
    then have "sift ((zs @ [z]) @ x # ys) (length (zs @ [z])) = (zs @ [z]) @ x # [] @ ys"
      by (simp add: nth_append)
    with False show ?thesis by (intro exI[of _ "zs @ [z]"] exI[of _ "[]"]) auto
  qed
qed simp

lemma sift_sorts:
  assumes "i < length s" "sorted (take i s)"
  shows "mset (sift s i) = mset s" "sorted (take (Suc i) (sift s i))"
proof -
  let ?x = "s ! i" and ?ys = "drop (Suc i) s"
  have s: "s = take i s @ ?x # ?ys" using assms(1) by (rule id_take_nth_drop)
  have len: "length (take i s) = i" using assms(1) by simp
  from sift_split[of "take i s" ?x ?ys] obtain us vs where *: "take i s = us @ vs"
    "sift s i = us @ ?x # vs @ ?ys" "\<forall>v \<in> set vs. ?x < v" "us \<noteq> [] \<longrightarrow> last us \<le> ?x"
    unfolding s[symmetric] len by blast
  have "mset s = mset (take i s @ ?x # ?ys)" using s by metis
  with * show "mset (sift s i) = mset s" by simp
  have "length (us @ ?x # vs) = Suc i" using *(1) len by (metis length_append length_Cons add_Suc_right)
  then have tk: "take (Suc i) (sift s i) = us @ ?x # vs"
    using *(2) by (metis append.assoc append_Cons append_eq_conv_conj)
  have so: "sorted (us @ vs)" using assms(2) *(1) by simp
  have "\<forall>u \<in> set us. u \<le> ?x"
  proof
    fix u assume u: "u \<in> set us"
    then have "us \<noteq> []" by auto
    then have "u \<le> last us" using so u
      by (metis append_butlast_last_id in_set_conv_decomp order_refl rotate1.simps(2)
          set_ConsD set_rotate1 sorted_append last_in_set)
    with * \<open>us \<noteq> []\<close> show "u \<le> ?x" by auto
  qed
  with so *(3) tk show "sorted (take (Suc i) (sift s i))"
    by (auto simp: sorted_append intro: less_imp_le order_trans)
qed

lemma sort_from_sorts: "sorted (take i s) \<Longrightarrow> sorted (sort_from s i) \<and> mset (sort_from s i) = mset s"
proof (induction s i rule: sort_from.induct)
  case (1 s i)
  then show ?case using sift_sorts[of i s]
    by (cases "i < length s") (auto simp: sort_from.simps[of s i])
qed

lemma sortStrings_sort: "sortStrings s = sort s"
proof -
  have "sorted (take 1 s)" by (cases s) auto
  then show ?thesis
    using sort_from_sorts[of 1 s] by (metis properties_for_sort sortStrings_def)
qed

section \<open>Printing and compiling\<close>

definition is_ident :: "string \<Rightarrow> bool" where
  "is_ident s \<longleftrightarrow> s \<noteq> [] \<and> isIdentStart (hd s) \<and> list_all ident_char s"

fun print_step :: "step \<Rightarrow> string" where
  "print_step (StepKey n) =
     (if is_ident n then CHR ''.'' # n
      else let q = (if CHR 0x27 \<in> set n then CHR 0x22 else CHR 0x27)
           in CHR ''['' # q # n @ [q, CHR '']''])"
| "print_step (StepIndex i) = CHR ''['' # Itoa i @ '']''"
| "print_step StepWildcard = ''[*]''"
| "print_step (StepRecursive n) = ''..'' @ n"

definition print_path :: "step list \<Rightarrow> string" where
  "print_path steps = CHR ''$'' # concat (map print_step steps)"

text \<open>The steps an expression can denote: a key has no text with both kinds of quotes, an index
  fits a Go \<^verbatim>\<open>int\<close>, and a recursive descent names an identifier.\<close>

fun expressible :: "step \<Rightarrow> bool" where
  "expressible (StepKey n) = (is_ident n \<or> CHR 0x27 \<notin> set n \<or> CHR 0x22 \<notin> set n)"
| "expressible (StepIndex i) = int64 i"
| "expressible StepWildcard = True"
| "expressible (StepRecursive n) = is_ident n"

definition stops_ident :: "string \<Rightarrow> bool" where
  "stops_ident s \<longleftrightarrow> s = [] \<or> \<not> ident_char (hd s)"

lemma stops_ident_print: "stops_ident (print_step st @ s)"
  by (cases st)
     (auto simp: stops_ident_def ident_char_def isIdentStart_def is_upper_def is_lower_def
       is_digit_def byte_def Let_def)

lemma stops_ident_path: "stops_ident (concat (map print_step steps))"
  by (cases steps) (simp_all add: stops_ident_print stops_ident_def[of "[]"])

lemma scan_ident_append:
  assumes "is_ident n" "stops_ident s"
  shows "scan_ident (n @ s) = Some (n, s)"
proof -
  obtain c cs where n: "n = c # cs" using assms(1) by (auto simp: is_ident_def neq_Nil_conv)
  have "takeWhile ident_char (cs @ s) = cs" "dropWhile ident_char (cs @ s) = s"
    using assms n by (auto simp: is_ident_def stops_ident_def list_all_iff takeWhile_append2
        dropWhile_append2 neq_Nil_conv takeWhile_eq_Nil_iff dropWhile_eq_self_iff)
  with assms n show ?thesis by (simp add: scan_ident_def is_ident_def)
qed

lemma is_ident_no_dot: "is_ident n \<Longrightarrow> \<not> HasPrefix (n @ s) ''.''"
  by (auto simp: is_ident_def isIdentStart_def is_upper_def is_lower_def byte_def neq_Nil_conv)

lemma takeWhile_quote: "q \<notin> set n \<Longrightarrow> takeWhile (\<lambda>d. d \<noteq> q) (n @ q # s) = n \<and>
    dropWhile (\<lambda>d. d \<noteq> q) (n @ q # s) = q # s"
  by (induction n) auto

lemma reBracket_quoted:
  assumes "q = CHR 0x27 \<or> q = CHR 0x22" "q \<notin> set n"
  shows "reBracket (CHR ''['' # q # n @ q # CHR '']'' # s) = Some (q # n @ [q], s)"
  using assms takeWhile_quote[OF assms(2)] by (auto simp: reBracket_def scan_inner_def)

lemma Itoa_shape:
  "\<exists>sg ds. Itoa i = sg @ ds \<and> (sg = [] \<or> sg = ''-'') \<and> ds \<noteq> [] \<and> list_all is_digit ds"
proof (cases "i < 0")
  case True
  then show ?thesis
    by (intro exI[of _ "''-''"] exI[of _ "nat_digits (nat (- i))"])
       (auto simp: Itoa_def list_all_iff nat_digits_all_digits)
next
  case False
  then show ?thesis
    by (intro exI[of _ "[]"] exI[of _ "nat_digits (nat i)"])
       (auto simp: Itoa_def list_all_iff nat_digits_all_digits)
qed

lemma takeWhile_digits:
  "list_all is_digit ds \<Longrightarrow> takeWhile is_digit (ds @ CHR '']'' # s) = ds \<and>
    dropWhile is_digit (ds @ CHR '']'' # s) = CHR '']'' # s"
  by (induction ds) (auto simp: is_digit_def byte_def)

lemma digit_not_special: "is_digit c \<Longrightarrow> c \<noteq> CHR ''-'' \<and> c \<noteq> CHR ''*'' \<and> c \<noteq> CHR 0x27 \<and> c \<noteq> CHR 0x22"
  by (auto simp: is_digit_def byte_def)

lemma reBracket_index: "reBracket (CHR ''['' # Itoa i @ CHR '']'' # s) = Some (Itoa i, s)"
proof -
  obtain sg ds where it: "Itoa i = sg @ ds" "sg = [] \<or> sg = ''-''" "ds \<noteq> []" "list_all is_digit ds"
    using Itoa_shape by blast
  then obtain d ds' where ds: "ds = d # ds'" by (auto simp: neq_Nil_conv)
  with it have "is_digit d" by simp
  with it ds takeWhile_digits[OF it(4), of s] digit_not_special[of d] show ?thesis
    by (auto simp: reBracket_def scan_inner_def Let_def)
qed

lemma bracket_step_index: "int64 i \<Longrightarrow> bracket_step (Itoa i) = Inr (StepIndex i)"
proof -
  assume r: "int64 i"
  obtain sg ds where it: "Itoa i = sg @ ds" "sg = [] \<or> sg = ''-''" "ds \<noteq> []" "list_all is_digit ds"
    using Itoa_shape by blast
  then obtain d ds' where ds: "ds = d # ds'" by (auto simp: neq_Nil_conv)
  with it digit_not_special[of d] have "Itoa i \<noteq> ''*'' \<and> \<not> HasPrefix (Itoa i) [CHR 0x27] \<and>
      \<not> HasPrefix (Itoa i) [CHR 0x22]" by auto
  with r show ?thesis by (simp add: bracket_step_def ParseInt_Itoa)
qed

lemma compile_loop_print:
  assumes "expressible st" "stops_ident s"
  shows "compile_loop (print_step st @ s) acc = compile_loop s (acc @ [st])"
proof (cases st)
  case (StepKey n)
  show ?thesis
  proof (cases "is_ident n")
    case True
    with StepKey assms(2) is_ident_no_dot[OF True] show ?thesis
      by (subst compile_loop.simps) (simp add: reChild_def scan_ident_append)
  next
    case False
    define q where "q = (if CHR 0x27 \<in> set n then CHR 0x22 else CHR 0x27)"
    have q: "q = CHR 0x27 \<or> q = CHR 0x22" "q \<notin> set n"
      using StepKey assms(1) False by (auto simp: q_def)
    have "bracket_step (q # n @ [q]) = Inr (StepKey n)"
      using q by (auto simp: bracket_step_def)
    with StepKey False reBracket_quoted[OF q, of s] show ?thesis
      by (subst compile_loop.simps) (simp add: q_def[symmetric])
  qed
next
  case (StepIndex i)
  with assms reBracket_index[of i s] show ?thesis
    by (subst compile_loop.simps) (simp add: bracket_step_index)
next
  case StepWildcard
  then show ?thesis
    by (subst compile_loop.simps) (simp add: reBracket_def scan_inner_def bracket_step_def)
next
  case (StepRecursive n)
  with assms show ?thesis
    by (subst compile_loop.simps) (simp add: reRecursive_def scan_ident_append)
qed

lemma compile_loop_print_path:
  "list_all expressible steps \<Longrightarrow>
     compile_loop (concat (map print_step steps)) acc = Inr (acc @ steps)"
proof (induction steps arbitrary: acc)
  case Nil
  show ?case by (simp add: compile_loop.simps)
next
  case (Cons st steps)
  then show ?case by (simp add: compile_loop_print stops_ident_path)
qed

section \<open>The order in which Go visits a map\<close>

text \<open>Two decoded documents are the same value when they differ in the order of map entries only.\<close>

inductive same_value :: "goval \<Rightarrow> goval \<Rightarrow> bool" where
  same_refl [intro, simp]: "same_value v v"
| same_slice: "list_all2 same_value xs ys \<Longrightarrow> same_value (GSlice xs) (GSlice ys)"
| same_map: "distinct (map fst m) \<Longrightarrow> distinct (map fst m') \<Longrightarrow> dom (map_of m) = dom (map_of m') \<Longrightarrow>
    (\<And>k v v'. map_of m k = Some v \<Longrightarrow> map_of m' k = Some v' \<Longrightarrow> same_value v v') \<Longrightarrow>
    same_value (GMapSA m) (GMapSA m')"

inductive_cases same_sliceE: "same_value (GSlice xs) w"
inductive_cases same_mapE: "same_value (GMapSA m) w"

lemma list_all2_same_refl [simp]: "list_all2 same_value xs xs"
  by (simp add: list_all2_conv_all_nth)

lemma sort_keys_cong:
  assumes "distinct (map fst m)" "distinct (map fst m')" "dom (map_of m) = dom (map_of m')"
  shows "sort (map fst m) = sort (map fst m')"
proof -
  have "set (map fst m) = set (map fst m')" using assms(3) by (simp add: dom_map_of_conv_image_fst)
  with assms(1,2) show ?thesis by (metis sorted_list_of_set_sort_remdups distinct_remdups_id)
qed

lemma eval_step_same:
  assumes "same_value v w" "\<And>n. st \<noteq> StepRecursive n"
  shows "list_all2 same_value (eval_step st v) (eval_step st w)"
  using assms(1)
proof cases
  case (same_slice xs ys)
  then have "length xs = length ys" by (simp add: list_all2_lengthD)
  with same_slice assms(2) show ?thesis
    by (cases st) (auto simp: Let_def list_all2_conv_all_nth)
next
  case (same_map m m')
  have keys: "sort (map fst m) = sort (map fst m')"
    using same_map(3-5) by (rule sort_keys_cong)
  have get: "same_value (map_get m k) (map_get m' k)" for k
    using same_map(5,6) by (auto simp: map_get_def domIff split: option.split)
  show ?thesis
  proof (cases st)
    case (StepKey n)
    have "map_of m n = None \<longleftrightarrow> map_of m' n = None"
      using same_map(5) by (metis domIff)
    with StepKey same_map show ?thesis by (auto split: option.split)
  next
    case StepWildcard
    with same_map keys get show ?thesis
      by (simp add: sortStrings_sort list_all2_map1 list_all2_map2 list.rel_refl)
  qed (use same_map assms(2) in auto)
qed simp

lemma list_all2_concat_map:
  assumes "list_all2 R xs ys" "\<And>x y. R x y \<Longrightarrow> list_all2 S (f x) (f y)"
  shows "list_all2 S (concat (map f xs)) (concat (map f ys))"
  using assms(1) by (induction rule: list_all2_induct) (auto intro: list_all2_appendI assms(2))

lemma jp_Eval_same_nodes:
  assumes "list_all2 same_value vs ws" "list_all (\<lambda>st. \<forall>n. st \<noteq> StepRecursive n) steps"
  shows "list_all2 same_value
    (fold (\<lambda>s nodes. concat (map (eval_step s) nodes)) steps vs)
    (fold (\<lambda>s nodes. concat (map (eval_step s) nodes)) steps ws)"
  using assms
proof (induction steps arbitrary: vs ws)
  case (Cons st steps)
  have "list_all2 same_value (concat (map (eval_step st) vs)) (concat (map (eval_step st) ws))"
    using Cons.prems by (intro list_all2_concat_map[OF Cons.prems(1)] eval_step_same) auto
  with Cons show ?case by simp
qed simp

section \<open>Recursive descent\<close>

text \<open>The nodes below a node, through maps and lists, at any depth.\<close>

inductive below :: "goval \<Rightarrow> goval \<Rightarrow> bool" where
  below_self: "below v v"
| below_map: "(k, w) \<in> set m \<Longrightarrow> below w v \<Longrightarrow> below (GMapSA m) v"
| below_slice: "w \<in> set xs \<Longrightarrow> below w v \<Longrightarrow> below (GSlice xs) v"

lemma collectRecursive_sound:
  "x \<in> set (collectRecursive n name) \<Longrightarrow> \<exists>m. below n (GMapSA m) \<and> map_of m name = Some x"
proof (induction n name rule: collectRecursive.induct)
  case (1 m name)
  then show ?case
    by (fastforce split: option.splits intro: below.intros)
next
  case (2 xs name)
  then show ?case by (fastforce intro: below.intros)
qed auto

lemma collectRecursive_complete:
  "below n (GMapSA m) \<Longrightarrow> map_of m name = Some x \<Longrightarrow> x \<in> set (collectRecursive n name)"
proof (induction n "GMapSA m" rule: below.induct)
  case (below_map k w m')
  then have "x \<in> set (collectRecursive w name)" by simp
  with below_map(1) have "\<exists>p \<in> set m'. x \<in> set ((\<lambda>(k, vv). collectRecursive vv name) p)"
    by (intro bexI[of _ "(k, w)"]) auto
  then show ?case by simp
qed auto

lemma jp_Eval_append: "jp_Eval (s @ t) root = concat (map (jp_Eval t) (jp_Eval s root))"
proof -
  have *: "fold (\<lambda>s nodes. concat (map (eval_step s) nodes)) t ns = concat (map (jp_Eval t) ns)"
    for t ns
  proof (induction t arbitrary: ns)
    case Nil
    show ?case by (induction ns) (auto simp: jp_Eval_def)
  next
    case (Cons st t)
    have "jp_Eval (st # t) n = concat (map (jp_Eval t) (eval_step st n))" for n
      by (subst jp_Eval_def) (simp add: Cons)
    moreover have "concat (map f (concat (map g ns))) = concat (map (\<lambda>n. concat (map f (g n))) ns)"
      for f :: "goval \<Rightarrow> goval list" and g :: "goval \<Rightarrow> goval list"
      by (induction ns) auto
    ultimately show ?case by (simp add: Cons)
  qed
  have "jp_Eval (s @ t) root =
      fold (\<lambda>s nodes. concat (map (eval_step s) nodes)) t (jp_Eval s root)"
    by (simp add: jp_Eval_def)
  then show ?thesis by (simp only: *)
qed

section \<open>Properties\<close>

text \<open>C34: Printing a sequence of expressible steps as a path expression and compiling it gives the
  steps back: the compiler reads every form of the documented syntax as the step it stands for.\<close>

theorem jsonpath_roundtrip:
  assumes "list_all expressible steps"
  shows "jp_Compile (print_path steps) = Inr steps"
  using compile_loop_print_path[OF assms, of "[]"]
  by (simp add: jp_Compile_def print_path_def TrimPrefix_def)

theorem jsonpath_roundtrip_witness:
  "jp_Compile (print_path [StepKey ''a'', StepKey ''x y'', StepIndex (-1), StepWildcard,
       StepRecursive ''n'']) =
     Inr [StepKey ''a'', StepKey ''x y'', StepIndex (-1), StepWildcard, StepRecursive ''n'']"
  by (rule jsonpath_roundtrip) code_simp

text \<open>The hand-written insertion sort with swaps is the library's sort on byte strings.\<close>

theorem sortStrings_is_sort: "sortStrings s = sort s"
  by (rule sortStrings_sort)

text \<open>A selector without recursive descent gives the same results, in the same order, however
  Go orders the entries of the maps of the document.\<close>

theorem jsonpath_order_independent:
  assumes "same_value v w" "list_all (\<lambda>st. \<forall>n. st \<noteq> StepRecursive n) steps"
  shows "list_all2 same_value (jp_Eval steps v) (jp_Eval steps w)"
  using assms jp_Eval_same_nodes[of "[v]" "[w]" steps] by (simp add: jp_Eval_def)

theorem jsonpath_order_independent_witness:
  "list_all2 same_value
     (jp_Eval [StepWildcard] (GMapSA [(''a'', GInt 1), (''b'', GInt 2)]))
     (jp_Eval [StepWildcard] (GMapSA [(''b'', GInt 2), (''a'', GInt 1)]))"
  by (rule jsonpath_order_independent) (auto intro!: same_map split: if_splits)

text \<open>Recursive descent returns exactly the values that some map at or below the node holds
  under the name.\<close>

theorem recursive_descent_exact:
  "set (jp_Eval [StepRecursive name] n) = {x. \<exists>m. below n (GMapSA m) \<and> map_of m name = Some x}"
  using collectRecursive_sound collectRecursive_complete by (fastforce simp: jp_Eval_def)

text \<open>The order of the results of a recursive descent is left open by the code: two orders of
  the same document give different lists, although the comment promises document order.\<close>

theorem recursive_descent_order_open:
  "\<exists>v w. same_value v w \<and>
     \<not> list_all2 same_value (jp_Eval [StepRecursive ''n''] v) (jp_Eval [StepRecursive ''n''] w)"
proof -
  let ?a = "(''a'', GMapSA [(''n'', GInt 1)])" and ?b = "(''b'', GMapSA [(''n'', GInt 2)])"
  have "same_value (GMapSA [?a, ?b]) (GMapSA [?b, ?a])"
    by (rule same_map) (auto split: if_splits)
  moreover have "\<not> same_value (GInt 1) (GInt 2)" by (auto elim: same_value.cases)
  ultimately show ?thesis
    by (intro exI[of _ "GMapSA [?a, ?b]"] exI[of _ "GMapSA [?b, ?a]"]) (simp add: jp_Eval_def)
qed

end
