(* ===== verification/Go_Sha256.thy ===== *)
theory Go_Sha256
  imports Go_Prelude "HOL-Library.Word"
begin

unbundle bit_operations_syntax

text \<open>
  \<^verbatim>\<open>crypto/sha256\<close> and \<^verbatim>\<open>encoding/hex\<close>, as the expression function \<^verbatim>\<open>sha256Hex\<close> of
  \<^verbatim>\<open>internal/celenv/encoding.go\<close> uses them: the hash function of FIPS 180-4 on the bytes of a text.
\<close>

text \<open>The round constants and the first state, in decimal.\<close>

definition sha_K :: "32 word list" where
  "sha_K =
     [1116352408, 1899447441, 3049323471, 3921009573, 961987163, 1508970993, 2453635748, 2870763221,
      3624381080, 310598401, 607225278, 1426881987, 1925078388, 2162078206, 2614888103, 3248222580,
      3835390401, 4022224774, 264347078, 604807628, 770255983, 1249150122, 1555081692, 1996064986,
      2554220882, 2821834349, 2952996808, 3210313671, 3336571891, 3584528711, 113926993, 338241895,
      666307205, 773529912, 1294757372, 1396182291, 1695183700, 1986661051, 2177026350, 2456956037,
      2730485921, 2820302411, 3259730800, 3345764771, 3516065817, 3600352804, 4094571909, 275423344,
      430227734, 506948616, 659060556, 883997877, 958139571, 1322822218, 1537002063, 1747873779,
      1955562222, 2024104815, 2227730452, 2361852424, 2428436474, 2756734187, 3204031479, 3329325298]"

record sha_state =
  hA :: "32 word"
  hB :: "32 word"
  hC :: "32 word"
  hD :: "32 word"
  hE :: "32 word"
  hF :: "32 word"
  hG :: "32 word"
  hH :: "32 word"

definition sha_init :: sha_state where
  "sha_init = \<lparr>hA = 1779033703, hB = 3144134277, hC = 1013904242, hD = 2773480762,
     hE = 1359893119, hF = 2600822924, hG = 528734635, hH = 1541459225\<rparr>"

definition rotr :: "nat \<Rightarrow> 32 word \<Rightarrow> 32 word" where
  "rotr n w = drop_bit n w OR push_bit (32 - n) w"

text \<open>The message schedule: sixteen words are extended one by one.\<close>

fun sha_extend :: "nat \<Rightarrow> 32 word list \<Rightarrow> 32 word list" where
  "sha_extend 0 ws = ws"
| "sha_extend (Suc n) ws =
     (let t = length ws;
          v1 = ws ! (t - 2);
          v2 = ws ! (t - 15);
          t1 = rotr 17 v1 XOR rotr 19 v1 XOR drop_bit 10 v1;
          t2 = rotr 7 v2 XOR rotr 18 v2 XOR drop_bit 3 v2
      in sha_extend n (ws @ [t1 + ws ! (t - 7) + t2 + ws ! (t - 16)]))"

definition sha_round :: "32 word \<times> 32 word \<Rightarrow> sha_state \<Rightarrow> sha_state" where
  "sha_round = (\<lambda>(k, w) s.
     let t1 = hH s + (rotr 6 (hE s) XOR rotr 11 (hE s) XOR rotr 25 (hE s)) +
              ((hE s AND hF s) XOR (NOT (hE s) AND hG s)) + k + w;
         t2 = (rotr 2 (hA s) XOR rotr 13 (hA s) XOR rotr 22 (hA s)) +
              ((hA s AND hB s) XOR (hA s AND hC s) XOR (hB s AND hC s))
     in \<lparr>hA = t1 + t2, hB = hA s, hC = hB s, hD = hC s, hE = hD s + t1, hF = hE s, hG = hF s, hH = hG s\<rparr>)"

definition sha_block :: "32 word list \<Rightarrow> sha_state \<Rightarrow> sha_state" where
  "sha_block ws s =
     (let r = fold sha_round (zip sha_K (sha_extend 48 ws)) s
      in \<lparr>hA = hA s + hA r, hB = hB s + hB r, hC = hC s + hC r, hD = hD s + hD r,
          hE = hE s + hE r, hF = hF s + hF r, hG = hG s + hG r, hH = hH s + hH r\<rparr>)"

definition be_bytes :: "nat \<Rightarrow> int \<Rightarrow> int list" where
  "be_bytes n v = map (\<lambda>i. v div 256 ^ i mod 256) (rev [0..<n])"

definition sha_pad :: "int list \<Rightarrow> int list" where
  "sha_pad bs =
     bs @ [128] @ replicate ((119 - length bs mod 64) mod 64) 0 @ be_bytes 8 (8 * int (length bs))"

fun be_words :: "int list \<Rightarrow> 32 word list" where
  "be_words (a # b # c # d # r) = of_int (((a * 256 + b) * 256 + c) * 256 + d) # be_words r"
| "be_words _ = []"

function sha_blocks :: "32 word list \<Rightarrow> sha_state \<Rightarrow> sha_state" where
  "sha_blocks ws s = (if ws = [] then s else sha_blocks (drop 16 ws) (sha_block (take 16 ws) s))"
  by pat_completeness auto
termination
  by (relation "measure (\<lambda>(ws, s). length ws)") (auto simp: neq_Nil_conv)

declare sha_blocks.simps [simp del]

definition Sum256 :: "string \<Rightarrow> int list" where
  "Sum256 m =
     (let s = sha_blocks (be_words (sha_pad (map (\<lambda>c. int (byte c)) m))) sha_init
      in concat (map (\<lambda>w. be_bytes 4 (uint w)) [hA s, hB s, hC s, hD s, hE s, hF s, hG s, hH s]))"

definition hex_EncodeToString :: "int list \<Rightarrow> string" where
  "hex_EncodeToString bs = concat (map (\<lambda>b. [hex_digit (nat (b div 16)), hex_digit (nat (b mod 16))]) bs)"

text \<open>The digest has thirty-two bytes.\<close>

lemma length_Sum256: "length (Sum256 m) = 32"
  by (simp add: Sum256_def Let_def be_bytes_def)

lemma Sum256_bytes: "b \<in> set (Sum256 m) \<Longrightarrow> 0 \<le> b \<and> b < 256"
  by (auto simp: Sum256_def Let_def be_bytes_def)

lemma length_hex: "length (hex_EncodeToString bs) = 2 * length bs"
  by (induction bs) (auto simp: hex_EncodeToString_def)

lemma hex_alphabet:
  assumes "c \<in> set (hex_EncodeToString bs)" "\<forall>b \<in> set bs. 0 \<le> b \<and> b < 256"
  shows "\<exists>d < 16. c = hex_digit d"
proof -
  from assms(1) obtain b where b: "b \<in> set bs" "c = hex_digit (nat (b div 16)) \<or> c = hex_digit (nat (b mod 16))"
    by (auto simp: hex_EncodeToString_def)
  with assms(2) have "nat (b div 16) < 16" "nat (b mod 16) < 16" by auto
  with b(2) show ?thesis by blast
qed

end
