(* ===== verification/Cel_Data.thy ===== *)
theory Cel_Data
  imports Policy_Vars Jsonpath Cel_Net Go_Sha256
begin

text \<open>
  \<^verbatim>\<open>internal/celenv/http.go\<close>, \<^verbatim>\<open>data.go\<close> and \<^verbatim>\<open>encoding.go\<close>: the shortcuts over headers and queries, the
  parsers of structured data, and the unverified reading of a JSON web token. The arguments are what
  \<^verbatim>\<open>Value()\<close> gives of the CEL values; the decoders of JSON and YAML are those of \<open>codec\<close>.
\<close>

section \<open>Headers and queries\<close>

fun anyNonEmpty :: "string list \<Rightarrow> bool" where
  "anyNonEmpty [] = False"
| "anyNonEmpty (v # vs) = (if v \<noteq> [] then True else anyNonEmpty vs)"

fun anyNonEmptyString :: "goval list \<Rightarrow> bool" where
  "anyNonEmptyString [] = False"
| "anyNonEmptyString (e # es) =
     (case e of GString s \<Rightarrow> if s \<noteq> [] then True else anyNonEmptyString es | _ \<Rightarrow> anyNonEmptyString es)"

definition has_fn :: "goval \<Rightarrow> goval \<Rightarrow> bool" where
  "has_fn nameV bucketV =
     (let name = stringOf nameV
      in case bucketV of
           GMapSL b \<Rightarrow> (case map_of b name of None \<Rightarrow> False | Some vals \<Rightarrow> anyNonEmpty vals)
         | GMapSA alt \<Rightarrow>
             (case map_of alt name of
                None \<Rightarrow> False
              | Some v \<Rightarrow>
                  (case v of GStrings x \<Rightarrow> anyNonEmpty x | GSlice x \<Rightarrow> anyNonEmptyString x | _ \<Rightarrow> False))
         | _ \<Rightarrow> False)"

definition firstOr_string :: "goval \<Rightarrow> goval \<Rightarrow> goval \<Rightarrow> string" where
  "firstOr_string bucketV nameV defV =
     (let name = stringOf nameV;
          def = stringOf defV
      in case bucketV of
           GMapSS b \<Rightarrow> (case map_of b name of Some v \<Rightarrow> if v \<noteq> [] then v else def | None \<Rightarrow> def)
         | GMapSA alt \<Rightarrow>
             (case map_of alt name of
                Some (GString s) \<Rightarrow> if s \<noteq> [] then s else def
              | _ \<Rightarrow> def)
         | _ \<Rightarrow> def)"

definition firstOr_list :: "goval \<Rightarrow> goval \<Rightarrow> goval \<Rightarrow> string" where
  "firstOr_list bucketV nameV defV =
     (let name = stringOf nameV;
          def = stringOf defV
      in case bucketV of
           GMapSL b \<Rightarrow> (case map_of b name of Some (v # vs) \<Rightarrow> if v \<noteq> [] then v else def | _ \<Rightarrow> def)
         | GMapSA alt \<Rightarrow>
             (case map_of alt name of
                Some (GStrings (x # xs)) \<Rightarrow> if x \<noteq> [] then x else def
              | Some (GSlice (GString s # xs)) \<Rightarrow> if s \<noteq> [] then s else def
              | _ \<Rightarrow> def)
         | _ \<Rightarrow> def)"

section \<open>Structured data\<close>

definition jsonPath_fn :: "goval \<Rightarrow> goval \<Rightarrow> goval list" where
  "jsonPath_fn root pathv =
     (case jp_Compile (stringOf pathv) of Inl _ \<Rightarrow> [] | Inr expr \<Rightarrow> jp_Eval expr root)"

definition emptyMap :: goval where
  "emptyMap = GMapSA []"

fun normalise :: "(goval \<Rightarrow> string) \<Rightarrow> goval \<Rightarrow> goval" where
  "normalise fmtv (GMapAA x) =
     GMapSA (fold (\<lambda>(k, v). map_put k v) (map (\<lambda>(k, vv). (Sprint fmtv k, normalise fmtv vv)) x) [])"
| "normalise fmtv (GMapSA x) = GMapSA (map (\<lambda>(k, vv). (k, normalise fmtv vv)) x)"
| "normalise fmtv (GSlice x) = GSlice (map (normalise fmtv) x)"
| "normalise fmtv v = v"

definition parseJSONFromAny :: "codec \<Rightarrow> goval \<Rightarrow> goval" where
  "parseJSONFromAny cd v =
     (case v of
        GString s \<Rightarrow>
          if s = [] then emptyMap
          else (case json_Unmarshal cd s of
                  Inl _ \<Rightarrow> emptyMap
                | Inr raw \<Rightarrow> normalise (fmt_other cd) raw)
      | _ \<Rightarrow> emptyMap)"

definition parseYAMLFromAny :: "codec \<Rightarrow> goval \<Rightarrow> goval" where
  "parseYAMLFromAny cd v =
     (case v of
        GString s \<Rightarrow>
          if s = [] then emptyMap
          else (case yaml_Unmarshal cd s of
                  Inl _ \<Rightarrow> emptyMap
                | Inr raw \<Rightarrow> normalise (fmt_other cd) raw)
      | _ \<Rightarrow> emptyMap)"

section \<open>Base64\<close>

text \<open>The alphabet of \<^verbatim>\<open>base64.URLEncoding\<close>.\<close>

definition b64_alphabet :: string where
  "b64_alphabet = ''ABCDEFGHIJKLMNOPQRSTUVWXYZabcdefghijklmnopqrstuvwxyz0123456789-_''"

definition b64_val :: "char \<Rightarrow> nat option" where
  "b64_val c = IndexByte b64_alphabet c"

fun b64_vals :: "string \<Rightarrow> nat list option" where
  "b64_vals [] = Some []"
| "b64_vals (c # s) =
     (case b64_val c of None \<Rightarrow> None | Some v \<Rightarrow> map_option ((#) v) (b64_vals s))"

text \<open>Four sextets are three bytes; the bits that are left over at the end are ignored.\<close>

fun b64_bytes :: "nat list \<Rightarrow> string option" where
  "b64_bytes [] = Some []"
| "b64_bytes [a] = None"
| "b64_bytes [a, b] = Some [char_of (4 * a + b div 16)]"
| "b64_bytes [a, b, c] = Some [char_of (4 * a + b div 16), char_of (16 * (b mod 16) + c div 4)]"
| "b64_bytes (a # b # c # d # r) =
     map_option (\<lambda>t. char_of (4 * a + b div 16) # char_of (16 * (b mod 16) + c div 4) #
       char_of (64 * (c mod 4) + d) # t) (b64_bytes r)"

definition skip_newlines :: "string \<Rightarrow> string" where
  "skip_newlines s = filter (\<lambda>c. c \<noteq> CHR 0x0A \<and> c \<noteq> CHR 0x0D) s"

definition raw_decode :: "string \<Rightarrow> string option" where
  "raw_decode s = Option.bind (b64_vals (skip_newlines s)) b64_bytes"

definition padded_decode :: "string \<Rightarrow> string option" where
  "padded_decode s =
     (let t = skip_newlines s;
          body = takeWhile (\<lambda>c. c \<noteq> CHR ''='') t;
          pad = dropWhile (\<lambda>c. c \<noteq> CHR ''='') t
      in if length t mod 4 \<noteq> 0 \<or> length pad > 2 \<or> pad \<noteq> replicate (length pad) (CHR ''='') then None
         else Option.bind (b64_vals body) b64_bytes)"

section \<open>Hashes and tokens\<close>

definition sha256Hex :: "goval \<Rightarrow> string" where
  "sha256Hex v = hex_EncodeToString (Sum256 (stringOf v))"

text \<open>\<^verbatim>\<open>json.Unmarshal\<close> to a \<^verbatim>\<open>map[string]any\<close>: null gives the nil map, any other value that is not an object
  an error.\<close>

definition json_object :: "codec \<Rightarrow> string \<Rightarrow> (string \<times> goval) list option" where
  "json_object cd b =
     (case json_Unmarshal cd b of Inr (GMapSA m) \<Rightarrow> Some m | Inr GNil \<Rightarrow> Some [] | _ \<Rightarrow> None)"

text \<open>The second component tells whether there was an error.\<close>

definition decodeJWTSegment :: "codec \<Rightarrow> string \<Rightarrow> (string \<times> goval) list \<times> bool" where
  "decodeJWTSegment cd s =
     (case (case raw_decode s of Some raw \<Rightarrow> Some raw | None \<Rightarrow> padded_decode s) of
        None \<Rightarrow> ([], True)
      | Some raw \<Rightarrow> (case json_object cd raw of None \<Rightarrow> ([], True) | Some m \<Rightarrow> (m, False)))"

definition parseJWTUnverified :: "codec \<Rightarrow> goval \<Rightarrow> goval" where
  "parseJWTUnverified cd v =
     (let parts = Split (stringOf v) (CHR ''.'')
      in if length parts < 2 then GMapSA []
         else let hdr = fst (decodeJWTSegment cd (parts ! 0));
                  pl = fst (decodeJWTSegment cd (parts ! 1))
              in GMapSA [(''header'', GMapSA hdr), (''payload'', GMapSA pl)])"

section \<open>The two normalisations\<close>

text \<open>The copy of the function in \<^verbatim>\<open>celenv\<close> does what the one in \<^verbatim>\<open>policy\<close> does.\<close>

lemma normalise_same: "normalise fmtv v = normaliseDecoded fmtv v"
proof (induction fmtv v rule: normalise.induct)
  case (1 fmtv x)
  then have "map (\<lambda>(k, vv). (Sprint fmtv k, normalise fmtv vv)) x =
      map (\<lambda>(k, vv). (Sprint fmtv k, normaliseDecoded fmtv vv)) x"
    by (intro map_cong) auto
  then show ?case by (simp only: normalise.simps normaliseDecoded.simps)
next
  case (2 fmtv x)
  then have "map (\<lambda>(k, vv). (k, normalise fmtv vv)) x = map (\<lambda>(k, vv). (k, normaliseDecoded fmtv vv)) x"
    by (intro map_cong) auto
  then show ?case by simp
qed simp_all

text \<open>Values without a map of arbitrary keys below them.\<close>

fun string_keyed :: "goval \<Rightarrow> bool" where
  "string_keyed (GMapAA _) = False"
| "string_keyed (GMapSA m) = (\<forall>(k, v) \<in> set m. string_keyed v)"
| "string_keyed (GSlice xs) = (\<forall>v \<in> set xs. string_keyed v)"
| "string_keyed _ = True"

lemma map_put_set: "set (map_put k v m) \<subseteq> insert (k, v) (set m)"
  by (induction k v m rule: map_put.induct) auto

lemma fold_map_put_set: "set (fold (\<lambda>(k, v). map_put k v) kvs m) \<subseteq> set kvs \<union> set m"
proof (induction kvs arbitrary: m)
  case (Cons kv kvs)
  obtain k v where "kv = (k, v)" by fastforce
  with Cons[of "map_put k v m"] map_put_set[of k v m] show ?case by auto
qed simp

lemma string_keyed_normalise: "string_keyed (normalise fmtv v)"
proof (induction fmtv v rule: normalise.induct)
  case (1 fmtv x)
  let ?kvs = "map (\<lambda>(k, vv). (Sprint fmtv k, normalise fmtv vv)) x"
  have "\<forall>(k, v) \<in> set ?kvs. string_keyed v" using 1 by auto
  then show ?case using fold_map_put_set[of ?kvs "[]"] by fastforce
next
  case (2 fmtv x)
  then show ?case by auto
qed auto

lemma normalise_fixes: "string_keyed v \<Longrightarrow> normalise fmtv v = v"
proof (induction fmtv v rule: normalise.induct)
  case (2 fmtv x)
  then have "map (\<lambda>(k, vv). (k, normalise fmtv vv)) x = x" by (intro map_idI) auto
  then show ?case by simp
next
  case (3 fmtv x)
  then have "map (normalise fmtv) x = x" by (intro map_idI) auto
  then show ?case by simp
qed simp_all

section \<open>Encoding\<close>

text \<open>The encoding without padding, for the round trips.\<close>

definition b64_char :: "nat \<Rightarrow> char" where
  "b64_char v = b64_alphabet ! v"

fun raw_encode :: "string \<Rightarrow> string" where
  "raw_encode [] = []"
| "raw_encode [x] = [b64_char (byte x div 4), b64_char (16 * (byte x mod 4))]"
| "raw_encode [x, y] =
     [b64_char (byte x div 4), b64_char (16 * (byte x mod 4) + byte y div 16), b64_char (4 * (byte y mod 16))]"
| "raw_encode (x # y # z # r) =
     b64_char (byte x div 4) # b64_char (16 * (byte x mod 4) + byte y div 16) #
     b64_char (4 * (byte y mod 16) + byte z div 64) # b64_char (byte z mod 64) # raw_encode r"

lemma b64_alphabet_facts:
  "distinct b64_alphabet" "length b64_alphabet = 64" "CHR ''.'' \<notin> set b64_alphabet"
  "CHR 0x0A \<notin> set b64_alphabet" "CHR 0x0D \<notin> set b64_alphabet" "CHR ''='' \<notin> set b64_alphabet"
  by (simp_all add: b64_alphabet_def)

lemma b64_char_in: "v < 64 \<Longrightarrow> b64_char v \<in> set b64_alphabet"
  using nth_mem[of v b64_alphabet] by (simp add: b64_char_def b64_alphabet_facts)

lemma IndexByte_nth: "distinct s \<Longrightarrow> i < length s \<Longrightarrow> IndexByte s (s ! i) = Some i"
proof (induction s arbitrary: i)
  case (Cons c s)
  then show ?case by (cases i) auto
qed simp

lemma b64_val_char: "v < 64 \<Longrightarrow> b64_val (b64_char v) = Some v"
  by (simp add: b64_val_def b64_char_def IndexByte_nth b64_alphabet_facts)

lemma sextets:
  "byte x div 4 < 64" "16 * (byte x mod 4) + byte y div 16 < 64" "4 * (byte y mod 16) + byte z div 64 < 64"
  "byte z mod 64 < 64" "16 * (byte x mod 4) < 64" "4 * (byte y mod 16) < 64"
  using byte_less_256[of x] byte_less_256[of y] byte_less_256[of z] by linarith+

lemma sextet_bytes:
  "byte y div 16 div 16 = 0" "byte z div 64 div 4 = 0"
  "byte y div 16 mod 16 = byte y div 16" "byte z div 64 mod 4 = byte z div 64"
  using byte_less_256[of y] byte_less_256[of z] by (simp_all add: div_mult2_eq[symmetric] del: byte_less_256)

lemma raw_encode_chars: "set (raw_encode s) \<subseteq> set b64_alphabet"
  by (induction s rule: raw_encode.induct) (auto intro!: b64_char_in sextets)

lemma raw_encode_decode: "Option.bind (b64_vals (raw_encode s)) b64_bytes = Some s"
proof (induction s rule: raw_encode.induct)
  case (4 x y z r)
  then obtain vs where "b64_vals (raw_encode r) = Some vs" "b64_bytes vs = Some r"
    by (auto simp: Option.bind_eq_Some_conv)
  then show ?case by (simp add: b64_val_char sextets sextet_bytes)
qed (simp_all add: b64_val_char sextets sextet_bytes)

lemma raw_decode_encode: "raw_decode (raw_encode s) = Some s"
proof -
  have "skip_newlines (raw_encode s) = raw_encode s"
    unfolding skip_newlines_def using raw_encode_chars[of s] b64_alphabet_facts(4,5)
    by (intro filter_True) auto
  then show ?thesis by (simp add: raw_decode_def raw_encode_decode)
qed

lemma padded_decode_encode:
  "padded_decode (raw_encode s @ replicate ((3 - length s mod 3) mod 3) (CHR ''='')) = Some s"
proof -
  let ?n = "(3 - length s mod 3) mod 3"
  let ?pad = "replicate ?n (CHR ''='')"
  have len: "(length (raw_encode s) + ?n) mod 4 = 0"
  proof (induction s rule: raw_encode.induct)
    case (4 x y z r)
    have "length (x # y # z # r) mod 3 = length r mod 3" by simp
    with 4 show ?case by simp
  qed simp_all
  have in_al: "c \<in> set b64_alphabet" if "c \<in> set (raw_encode s)" for c using that raw_encode_chars by blast
  have skip: "skip_newlines (raw_encode s @ ?pad) = raw_encode s @ ?pad"
    unfolding skip_newlines_def using in_al b64_alphabet_facts(4,5) by (intro filter_True) auto
  have ne: "\<forall>c \<in> set (raw_encode s). c \<noteq> CHR ''=''" using in_al b64_alphabet_facts(6) by auto
  have tw: "takeWhile (\<lambda>c. c \<noteq> CHR ''='') (raw_encode s @ ?pad) = raw_encode s"
    "dropWhile (\<lambda>c. c \<noteq> CHR ''='') (raw_encode s @ ?pad) = ?pad"
    using ne by (simp_all add: takeWhile_append2 dropWhile_append2 takeWhile_replicate dropWhile_replicate)
  have "length ?pad \<le> 2" by simp
  then show ?thesis using len by (simp add: padded_decode_def skip tw raw_encode_decode Let_def)
qed

lemma Split_token:
  "CHR ''.'' \<notin> set h \<Longrightarrow> CHR ''.'' \<notin> set p \<Longrightarrow>
     Split (h @ CHR ''.'' # p @ CHR ''.'' # sig) (CHR ''.'') = h # p # Split sig (CHR ''.'')"
  by (simp add: Split_append)

lemma raw_encode_no_dot: "CHR ''.'' \<notin> set (raw_encode s)"
  using raw_encode_chars[of s] b64_alphabet_facts(3) by blast

lemma decode_segment:
  assumes "json_Unmarshal cd b = Inr (GMapSA m)"
  shows "decodeJWTSegment cd (raw_encode b) = (m, False)"
  using assms by (simp add: decodeJWTSegment_def raw_decode_encode json_object_def)

section \<open>Properties\<close>

text \<open>C35: A token is read back as it was written: the header and the payload of a compact serialisation
  are the objects that were encoded, whatever the signature is. The encoding with padding is read
  as well.\<close>

theorem jwt_roundtrip:
  assumes "json_Unmarshal cd h = Inr (GMapSA hm)" "json_Unmarshal cd p = Inr (GMapSA pm)"
  shows "parseJWTUnverified cd (GString (raw_encode h @ ''.'' @ raw_encode p @ ''.'' @ sig)) =
      GMapSA [(''header'', GMapSA hm), (''payload'', GMapSA pm)] \<and>
    padded_decode (raw_encode h @ replicate ((3 - length h mod 3) mod 3) (CHR ''='')) = Some h"
  using Split_token[OF raw_encode_no_dot raw_encode_no_dot, of h p sig]
  by (simp add: parseJWTUnverified_def stringOf_def decode_segment[OF assms(1)] decode_segment[OF assms(2)]
      padded_decode_encode)

definition token_codec :: codec where
  "token_codec = \<lparr>json_Unmarshal = (\<lambda>s. if s = ''{}'' then Inr (GMapSA []) else Inr (GMapSA [(''s'', GString s)])),
     yaml_Unmarshal = (\<lambda>s. Inr (GString s)), fmt_other = (\<lambda>_. [])\<rparr>"

theorem jwt_roundtrip_witness:
  "parseJWTUnverified token_codec (GString (raw_encode ''{}'' @ ''.'' @ raw_encode ''[1]'' @ ''.'' @ ''x'')) =
     GMapSA [(''header'', GMapSA []), (''payload'', GMapSA [(''s'', GString ''[1]'')])]"
  using jwt_roundtrip[of token_codec "''{}''" "[]" "''[1]''" "[(''s'', GString ''[1]'')]" "''x''"]
  by (simp add: token_codec_def)

text \<open>The parsers never fail and agree with the body of the request: applied to the raw body they give the same
  document as the decoded body variable, and the empty map for a body that does not parse. Their
  results have string keys throughout.\<close>

theorem parsers_agree_with_body:
  "parseJSONFromAny cd (GString b) = map_get (body_var cd b hs) ''json'' \<and>
   parseYAMLFromAny cd (GString b) = map_get (body_var cd b hs) ''yaml'' \<and>
   string_keyed (parseJSONFromAny cd v) \<and> string_keyed (parseYAMLFromAny cd v)"
proof -
  have "string_keyed (parseJSONFromAny cd v)" "string_keyed (parseYAMLFromAny cd v)"
    by (cases v; simp add: parseJSONFromAny_def parseYAMLFromAny_def emptyMap_def string_keyed_normalise
        split: sum.split)+
  moreover have "parseJSONFromAny cd (GString b) = map_get (body_var cd b hs) ''json''"
    "parseYAMLFromAny cd (GString b) = map_get (body_var cd b hs) ''yaml''"
    by (simp_all add: parseJSONFromAny_def parseYAMLFromAny_def emptyMap_def map_get_def body_var_def tryJSON_def
        tryYAML_def normalise_same Let_def split: sum.split)
  ultimately show ?thesis by blast
qed

text \<open>The header shortcuts agree on the two projections of the headers: the first value is the same from
  the map of first values and from the map of all values, and a name for which \<^verbatim>\<open>has\<close> is false gives the
  default in both.\<close>

theorem header_shortcuts_agree:
  assumes "distinct (map (ToLower \<circ> fst) h)" "project ToLower h [] [] = (alls, firsts)"
  shows "firstOr_string (GMapSS firsts) n d = firstOr_list (GMapSL alls) n d \<and>
    (\<not> has_fn n (GMapSL alls) \<longrightarrow> firstOr_string (GMapSS firsts) n d = stringOf d)"
proof -
  let ?n = "stringOf n"
  note sp = project_spec[OF assms(1), of "[]" "[]" ?n, unfolded assms(2)]
  show ?thesis
  proof (cases "find (\<lambda>(k, _). ToLower k = ?n) h")
    case None
    with sp show ?thesis by (simp add: firstOr_string_def firstOr_list_def Let_def)
  next
    case (Some kv)
    obtain k vs where "kv = (k, vs)" by fastforce
    with sp Some show ?thesis
      by (cases vs) (auto simp: firstOr_string_def firstOr_list_def has_fn_def Let_def)
  qed
qed

theorem header_shortcuts_agree_witness:
  "firstOr_string (GMapSS [(''x-env'', ''prod'')]) (GString ''x-env'') (GString ''none'') =
   firstOr_list (GMapSL [(''x-env'', [''prod'', ''test''])]) (GString ''x-env'') (GString ''none'')"
proof -
  have "ToLower ''X-Env'' = ''x-env''" by code_simp
  then show ?thesis
    using header_shortcuts_agree[of "[(''X-Env'', [''prod'', ''test''])]" "[(''x-env'', [''prod'', ''test''])]"
      "[(''x-env'', ''prod'')]" "GString ''x-env''" "GString ''none''"]
    by (simp del: ToLower_simps)
qed

text \<open>A digest is printed as sixty-four lower-case hexadecimal digits.\<close>

lemma sha256Hex_shape:
  "length (sha256Hex v) = 64 \<and> (\<forall>c \<in> set (sha256Hex v). \<exists>d < 16. c = hex_digit d)"
  using hex_alphabet[of _ "Sum256 (stringOf v)"] Sum256_bytes[of _ "stringOf v"]
  by (auto simp: sha256Hex_def length_hex length_Sum256)

text \<open>A segment that does not decode gives the empty object without the token being rejected.\<close>

lemma jwt_broken_segment:
  "parseJWTUnverified cd (GString ''!.!'') = GMapSA [(''header'', GMapSA []), (''payload'', GMapSA [])]"
proof -
  have "raw_decode ''!'' = None" "padded_decode ''!'' = None" by code_simp+
  then show ?thesis by (simp add: parseJWTUnverified_def stringOf_def decodeJWTSegment_def)
qed

end
