(* ===== verification/Cel_Url.thy ===== *)
theory Cel_Url
  imports Cel_Net
begin

text \<open>
  \<^verbatim>\<open>parseURL\<close> of \<^verbatim>\<open>internal/celenv/net.go\<close>, with the \<^verbatim>\<open>url.Parse\<close> of Go 1.24.0 under it: fragment, scheme,
  query, authority and path, with the escapes each of them allows. Later patch releases also refuse
  a bracketed host that is no IPv6 address; the round trip below is not about such hosts.
\<close>

section \<open>Escapes\<close>

datatype escape_mode = encodePath | encodeUserPassword | encodeHost | encodeZone | encodeFragment

datatype url_error =
    ControlCharacter | MissingScheme | ColonInFirstSegment | MissingCloseBracket
  | InvalidPort string | InvalidUserinfo | EscapeError string | InvalidHost char

definition is_alnum :: "char \<Rightarrow> bool" where
  "is_alnum c \<longleftrightarrow> is_upper c \<or> is_lower c \<or> is_digit c"

definition host_marks :: string where
  "host_marks = ''!$&'' @ CHR 0x27 # ''()*+,;=:[]<>'' @ [CHR 0x22]"

definition shouldEscape :: "escape_mode \<Rightarrow> char \<Rightarrow> bool" where
  "shouldEscape mode c =
     (if is_alnum c then False
      else if mode \<in> {encodeHost, encodeZone} \<and> c \<in> set host_marks then False
      else if c \<in> set ''-_.~'' then False
      else if c \<in> set ''$&+,/:;=?@'' \<and> mode = encodePath then c = CHR ''?''
      else if c \<in> set ''$&+,/:;=?@'' \<and> mode = encodeUserPassword then c \<in> set ''@/?:''
      else if c \<in> set ''$&+,/:;=?@'' \<and> mode = encodeFragment then False
      else if mode = encodeFragment \<and> c \<in> set ''!()*'' then False
      else True)"

text \<open>The escapes that the host and the zone of an address do not allow.\<close>

definition escape_refused :: "escape_mode \<Rightarrow> char \<Rightarrow> char \<Rightarrow> bool" where
  "escape_refused mode a b \<longleftrightarrow>
     [a, b] \<noteq> ''25'' \<and>
     (mode = encodeHost \<and> unhex a < 8 \<or>
      mode = encodeZone \<and> 16 * unhex a + unhex b \<noteq> 32 \<and>
        shouldEscape encodeHost (char_of (16 * unhex a + unhex b)))"

fun unescape :: "escape_mode \<Rightarrow> string \<Rightarrow> url_error + string" where
  "unescape mode [] = Inr []"
| "unescape mode (c # s) =
     (if c = CHR ''%'' then
        (case s of
           a # b # r \<Rightarrow>
             if \<not> (is_hex a \<and> is_hex b) \<or> escape_refused mode a b then Inl (EscapeError [c, a, b])
             else map_sum id (Cons (char_of (16 * unhex a + unhex b))) (unescape mode r)
         | _ \<Rightarrow> Inl (EscapeError (c # s)))
      else if mode \<in> {encodeHost, encodeZone} \<and> byte c < 128 \<and> shouldEscape mode c then
        Inl (InvalidHost c)
      else map_sum id (Cons c) (unescape mode s))"

section \<open>Authorities\<close>

definition validOptionalPort :: "string \<Rightarrow> bool" where
  "validOptionalPort p \<longleftrightarrow> p = [] \<or> hd p = CHR '':'' \<and> list_all is_digit (tl p)"

definition userinfo_marks :: string where
  "userinfo_marks = ''-._:~!$&'' @ CHR 0x27 # ''()*+,;=%@''"

definition validUserinfo :: "string \<Rightarrow> bool" where
  "validUserinfo s \<longleftrightarrow> list_all (\<lambda>c. is_alnum c \<or> c \<in> set userinfo_marks) s"

text \<open>\<^verbatim>\<open>strings.Index\<close>, for a text that is not empty.\<close>

fun Index :: "string \<Rightarrow> string \<Rightarrow> nat option" where
  "Index [] p = None"
| "Index (c # s) p = (if HasPrefix (c # s) p then Some 0 else map_option Suc (Index s p))"

definition bind_sum :: "'e + 'a \<Rightarrow> ('a \<Rightarrow> 'e + 'b) \<Rightarrow> 'e + 'b" where
  "bind_sum m f = (case m of Inl e \<Rightarrow> Inl e | Inr x \<Rightarrow> f x)"

definition parseHost :: "string \<Rightarrow> url_error + string" where
  "parseHost host =
     (if HasPrefix host ''['' then
        (case LastIndexByte host (CHR '']'') of
           None \<Rightarrow> Inl MissingCloseBracket
         | Some i \<Rightarrow>
             let colonPort = drop (Suc i) host
             in if \<not> validOptionalPort colonPort then Inl (InvalidPort colonPort)
                else (case Index (take i host) ''%25'' of
                        Some zone \<Rightarrow>
                          bind_sum (unescape encodeHost (take zone host)) (\<lambda>host1.
                          bind_sum (unescape encodeZone (take (i - zone) (drop zone host))) (\<lambda>host2.
                          bind_sum (unescape encodeHost (drop i host)) (\<lambda>host3.
                          Inr (host1 @ host2 @ host3))))
                      | None \<Rightarrow> unescape encodeHost host))
      else
        (case LastIndexByte host (CHR '':'') of
           None \<Rightarrow> unescape encodeHost host
         | Some i \<Rightarrow>
             if \<not> validOptionalPort (drop i host) then Inl (InvalidPort (drop i host))
             else unescape encodeHost host))"

text \<open>\<^verbatim>\<open>url.Userinfo\<close>: the name, and the password when one was set.\<close>

record userinfo =
  username :: string
  password :: "string option"

definition parseUser :: "string \<Rightarrow> url_error + userinfo" where
  "parseUser s =
     (if \<not> validUserinfo s then Inl InvalidUserinfo
      else if CHR '':'' \<notin> set s then
        bind_sum (unescape encodeUserPassword s) (\<lambda>u. Inr \<lparr>username = u, password = None\<rparr>)
      else
        let (name, pass) = Cut s (CHR '':'')
        in bind_sum (unescape encodeUserPassword name) (\<lambda>u.
           bind_sum (unescape encodeUserPassword pass) (\<lambda>p.
           Inr \<lparr>username = u, password = Some p\<rparr>)))"

definition parseAuthority :: "string \<Rightarrow> url_error + (userinfo option \<times> string)" where
  "parseAuthority authority =
     (case LastIndexByte authority (CHR ''@'') of
        None \<Rightarrow> bind_sum (parseHost authority) (\<lambda>h. Inr (None, h))
      | Some i \<Rightarrow>
          bind_sum (parseHost (drop (Suc i) authority)) (\<lambda>h.
          bind_sum (parseUser (take i authority)) (\<lambda>u. Inr (Some u, h))))"

section \<open>URLs\<close>

text \<open>The fields of \<^verbatim>\<open>url.URL\<close> that \<^verbatim>\<open>parseURL\<close> reads.\<close>

record url =
  u_Scheme :: string
  u_User :: "userinfo option"
  u_Host :: string
  u_Path :: string
  u_RawQuery :: string
  u_Fragment :: string

definition new_URL :: url where
  "new_URL = \<lparr>u_Scheme = [], u_User = None, u_Host = [], u_Path = [], u_RawQuery = [], u_Fragment = []\<rparr>"

text \<open>\<^verbatim>\<open>getScheme\<close>: \<open>seen\<close> are the bytes before the current one.\<close>

fun scheme_loop :: "string \<Rightarrow> string \<Rightarrow> url_error + (string \<times> string)" where
  "scheme_loop seen [] = Inr ([], seen)"
| "scheme_loop seen (c # s) =
     (if is_lower c \<or> is_upper c then scheme_loop (seen @ [c]) s
      else if is_digit c \<or> c \<in> set ''+-.'' then
        if seen = [] then Inr ([], c # s) else scheme_loop (seen @ [c]) s
      else if c = CHR '':'' then
        if seen = [] then Inl MissingScheme else Inr (seen, s)
      else Inr ([], seen @ c # s))"

definition getScheme :: "string \<Rightarrow> url_error + (string \<times> string)" where
  "getScheme rawURL = scheme_loop [] rawURL"

definition is_ctl :: "char \<Rightarrow> bool" where
  "is_ctl c \<longleftrightarrow> byte c < 32 \<or> byte c = 127"

text \<open>The query is cut off; a lone question mark at the end leaves none.\<close>

definition split_query :: "string \<Rightarrow> string \<times> string" where
  "split_query rest =
     (if HasSuffix rest ''?'' \<and> count_list rest (CHR ''?'') = 1
      then (take (length rest - 1) rest, []) else Cut rest (CHR ''?''))"

text \<open>What stands between the scheme and the query.\<close>

definition parse_hierarchy :: "url \<Rightarrow> string \<Rightarrow> url_error + url" where
  "parse_hierarchy u rest =
     (if \<not> HasPrefix rest ''/'' \<and> u_Scheme u \<noteq> [] then Inr u
      else if \<not> HasPrefix rest ''/'' \<and> CHR '':'' \<in> set (fst (Cut rest (CHR ''/''))) then
        Inl ColonInFirstSegment
      else
        let authority = (u_Scheme u \<noteq> [] \<or> \<not> HasPrefix rest ''///'') \<and> HasPrefix rest ''//'';
            auth = takeWhile (\<lambda>c. c \<noteq> CHR ''/'') (drop 2 rest);
            path = (if authority then drop (length auth) (drop 2 rest) else rest)
        in bind_sum (if authority then parseAuthority auth else Inr (None, [])) (\<lambda>(user, host).
           bind_sum (unescape encodePath path) (\<lambda>p.
           Inr (u\<lparr>u_User := user, u_Host := host, u_Path := p\<rparr>))))"

definition url_parse :: "string \<Rightarrow> url_error + url" where
  "url_parse rawURL =
     (if list_ex is_ctl rawURL then Inl ControlCharacter
      else if rawURL = ''*'' then Inr (new_URL\<lparr>u_Path := ''*''\<rparr>)
      else bind_sum (getScheme rawURL) (\<lambda>(scheme, rest0).
        let (rest, query) = split_query rest0
        in parse_hierarchy (new_URL\<lparr>u_Scheme := ToLower scheme, u_RawQuery := query\<rparr>) rest))"

definition url_Parse :: "string \<Rightarrow> url_error + url" where
  "url_Parse rawURL =
     (let (u, frag) = Cut rawURL (CHR ''#'')
      in bind_sum (url_parse u) (\<lambda>url.
         if frag = [] then Inr url
         else bind_sum (unescape encodeFragment frag) (\<lambda>f. Inr (url\<lparr>u_Fragment := f\<rparr>))))"

definition splitHostPort :: "string \<Rightarrow> string \<times> string" where
  "splitHostPort hostPort =
     (let (host, port) =
        (case LastIndexByte hostPort (CHR '':'') of
           Some colon \<Rightarrow>
             if validOptionalPort (drop colon hostPort)
             then (take colon hostPort, drop (Suc colon) hostPort) else (hostPort, [])
         | None \<Rightarrow> (hostPort, []))
      in (if HasPrefix host ''['' \<and> HasSuffix host '']'' then drop 1 (butlast host) else host, port))"

section \<open>The function of the language\<close>

definition parseURL :: "goval \<Rightarrow> goval" where
  "parseURL v =
     (case url_Parse (stringOf v) of
        Inl _ \<Rightarrow> GMapSA []
      | Inr u \<Rightarrow>
          let user = (case u_User u of None \<Rightarrow> [] | Some i \<Rightarrow> username i);
              pass = (case u_User u of None \<Rightarrow> [] | Some i \<Rightarrow> (case password i of None \<Rightarrow> [] | Some p \<Rightarrow> p))
          in GMapSA
               [(''scheme'', GString (u_Scheme u)),
                (''host'', GString (fst (splitHostPort (u_Host u)))),
                (''port'', GString (snd (splitHostPort (u_Host u)))),
                (''path'', GString (u_Path u)),
                (''query'', GString (u_RawQuery u)),
                (''fragment'', GString (u_Fragment u)),
                (''username'', GString user),
                (''password'', GString pass)])"


section \<open>Writing a URL\<close>

text \<open>A reference for the round trip: every byte that its place does not allow is escaped.\<close>

definition upperhex :: "nat \<Rightarrow> char" where
  "upperhex d = (if d < 10 then char_of (48 + d) else char_of (55 + d))"

definition escape_byte :: "escape_mode \<Rightarrow> char \<Rightarrow> string" where
  "escape_byte mode c =
     (if shouldEscape mode c then [CHR ''%'', upperhex (byte c div 16), upperhex (byte c mod 16)] else [c])"

definition escape :: "escape_mode \<Rightarrow> string \<Rightarrow> string" where
  "escape mode s = concat (map (escape_byte mode) s)"

record url_parts =
  p_scheme :: string
  p_user :: "userinfo option"
  p_bracket :: bool
  p_host :: string
  p_port :: string
  p_path :: string
  p_query :: string
  p_fragment :: string

definition user_text :: "userinfo option \<Rightarrow> string" where
  "user_text u =
     (case u of
        None \<Rightarrow> []
      | Some i \<Rightarrow>
          escape encodeUserPassword (username i) @
          (case password i of None \<Rightarrow> [] | Some p \<Rightarrow> CHR '':'' # escape encodeUserPassword p) @ ''@'')"

definition host_text :: "bool \<Rightarrow> string \<Rightarrow> string \<Rightarrow> string" where
  "host_text bracket host port =
     (if bracket then CHR ''['' # host @ '']'' else host) @ (if port = [] then [] else CHR '':'' # port)"

definition url_text :: "url_parts \<Rightarrow> string" where
  "url_text u =
     p_scheme u @ ''://'' @ user_text (p_user u) @ host_text (p_bracket u) (p_host u) (p_port u) @
     escape encodePath (p_path u) @
     (if p_query u = [] then [] else CHR ''?'' # p_query u) @
     (if p_fragment u = [] then [] else CHR ''#'' # escape encodeFragment (p_fragment u))"

definition name_marks :: string where
  "name_marks = ''-_.~!$&()*+,;=''"

definition host_ok :: "bool \<Rightarrow> string \<Rightarrow> bool" where
  "host_ok bracket host =
     (if bracket then list_all (\<lambda>c. is_hex c \<or> c = CHR '':'' \<or> c = CHR ''.'') host
      else list_all (\<lambda>c. is_alnum c \<or> c \<in> set name_marks \<or> 128 \<le> byte c) host)"

definition parts_ok :: "url_parts \<Rightarrow> bool" where
  "parts_ok u \<longleftrightarrow>
     p_scheme u \<noteq> [] \<and> is_lower (hd (p_scheme u)) \<and>
     list_all (\<lambda>c. is_lower c \<or> is_digit c \<or> c \<in> set ''+-.'') (p_scheme u) \<and>
     host_ok (p_bracket u) (p_host u) \<and> list_all is_digit (p_port u) \<and>
     (p_path u = [] \<or> hd (p_path u) = CHR ''/'') \<and>
     CHR ''#'' \<notin> set (p_query u) \<and> \<not> list_ex is_ctl (p_query u)"

lemma upperhex:
  assumes "d < 16"
  shows "is_hex (upperhex d) \<and> unhex (upperhex d) = d \<and> is_alnum (upperhex d)"
  using assms by (auto simp: upperhex_def is_hex_def unhex_def is_digit_def is_alnum_def is_upper_def)

lemma escape_simps [simp]:
  "escape mode [] = []"
  "escape mode (c # s) = escape_byte mode c @ escape mode s"
  by (simp_all add: escape_def)

lemmas char_class_defs = is_alnum_def is_upper_def is_lower_def is_digit_def byte_def

lemma percent_escaped [simp]: "shouldEscape mode (CHR ''%'')"
  by (cases mode) (simp_all add: shouldEscape_def char_class_defs host_marks_def)

lemma byte_nibbles: "byte c div 16 < 16" "byte c mod 16 < 16"
  using byte_less_256[of c] by (auto intro: less_mult_imp_div_less)

lemma div_mod_16: "16 * (n div 16) + n mod 16 = (n::nat)"
  by simp

lemma unescape_escape:
  assumes "mode \<notin> {encodeHost, encodeZone}"
  shows "unescape mode (escape mode s) = Inr s"
proof (induction s)
  case (Cons c s)
  note h = byte_nibbles[of c]
  have r: "\<not> escape_refused mode a b" for a b using assms by (auto simp: escape_refused_def)
  show ?case
  proof (cases "shouldEscape mode c")
    case True
    with h r upperhex[OF h(1)] upperhex[OF h(2)] Cons show ?thesis
      by (simp add: escape_byte_def div_mod_16)
  next
    case False
    then have "c \<noteq> CHR ''%''" by auto
    with False assms Cons show ?thesis by (auto simp: escape_byte_def)
  qed
qed simp

text \<open>What an escaped text can contain.\<close>

lemma escape_chars:
  assumes "x \<in> set (escape mode s)"
  shows "is_alnum x \<or> x = CHR ''%'' \<or> \<not> shouldEscape mode x"
proof -
  obtain c where "x \<in> set (escape_byte mode c)" using assms by (auto simp: escape_def)
  moreover note byte_nibbles[of c]
  ultimately show ?thesis using upperhex by (auto simp: escape_byte_def split: if_splits)
qed

lemma escape_avoids:
  "\<not> is_alnum x \<Longrightarrow> x \<noteq> CHR ''%'' \<Longrightarrow> shouldEscape mode x \<Longrightarrow> x \<notin> set (escape mode s)"
  using escape_chars by blast

lemma marks_no_ctl: "list_all (\<lambda>c. \<not> is_ctl c) (host_marks @ ''-_.~$&+,/:;=?@!()*%'')"
  by code_simp

lemma alnum_no_ctl: "is_alnum c \<Longrightarrow> \<not> is_ctl c"
  by (auto simp: is_ctl_def is_alnum_def is_upper_def is_lower_def is_digit_def)

lemma ctl_escaped:
  assumes "is_ctl x"
  shows "\<not> is_alnum x \<and> x \<noteq> CHR ''%'' \<and> shouldEscape mode x"
proof -
  have a: "\<not> is_alnum x" using assms alnum_no_ctl by blast
  have "x \<notin> set (host_marks @ ''-_.~$&+,/:;=?@!()*%'')"
    using assms marks_no_ctl unfolding list_all_iff by blast
  with a show ?thesis by (simp add: shouldEscape_def)
qed

lemma escape_no_ctl: "\<not> list_ex is_ctl (escape mode s)"
  using ctl_escaped escape_avoids by (auto simp: list_ex_iff)

lemma escape_avoids_special [simp]:
  "CHR ''#'' \<notin> set (escape encodePath s)"
  "CHR ''?'' \<notin> set (escape encodePath s)"
  "CHR ''#'' \<notin> set (escape encodeUserPassword s)"
  "CHR ''?'' \<notin> set (escape encodeUserPassword s)"
  "CHR ''/'' \<notin> set (escape encodeUserPassword s)"
  "CHR '':'' \<notin> set (escape encodeUserPassword s)"
  "CHR ''@'' \<notin> set (escape encodeUserPassword s)"
  by (intro escape_avoids; simp add: shouldEscape_def char_class_defs)+

lemma escape_validUserinfo: "list_all (\<lambda>c. is_alnum c \<or> c \<in> set userinfo_marks) (escape encodeUserPassword s)"
  unfolding list_all_iff
proof
  fix c assume "c \<in> set (escape encodeUserPassword s)"
  then have "is_alnum c \<or> c = CHR ''%'' \<or> \<not> shouldEscape encodeUserPassword c" by (rule escape_chars)
  then show "is_alnum c \<or> c \<in> set userinfo_marks"
    by (auto simp: shouldEscape_def userinfo_marks_def split: if_splits)
qed

section \<open>Hosts\<close>

definition host_plain :: "char \<Rightarrow> bool" where
  "host_plain c \<longleftrightarrow> c \<noteq> CHR ''%'' \<and> (128 \<le> byte c \<or> \<not> shouldEscape encodeHost c)"

lemma unescape_host_plain: "list_all host_plain s \<Longrightarrow> unescape encodeHost s = Inr s"
  by (induction s) (auto simp: host_plain_def)

lemma alnum_plain: "is_alnum c \<Longrightarrow> host_plain c"
  by (auto simp: host_plain_def shouldEscape_def char_class_defs)

lemma marks_plain:
  "c \<in> set name_marks \<Longrightarrow> host_plain c"
  "host_plain (CHR '':'')" "host_plain (CHR ''.'')" "host_plain (CHR ''['')" "host_plain (CHR '']'')"
proof -
  have "list_all host_plain (name_marks @ '':.[]'')"
    by (simp add: host_plain_def shouldEscape_def host_marks_def name_marks_def)
  then show "c \<in> set name_marks \<Longrightarrow> host_plain c"
    "host_plain (CHR '':'')" "host_plain (CHR ''.'')" "host_plain (CHR ''['')" "host_plain (CHR '']'')"
    unfolding list_all_append by (simp_all add: list_all_iff)
qed

lemma hex_alnum: "is_hex c \<Longrightarrow> is_alnum c"
  by (auto simp: is_hex_def is_alnum_def is_upper_def is_lower_def)

lemma digit_alnum: "is_digit c \<Longrightarrow> is_alnum c"
  by (simp add: is_alnum_def)

text \<open>The bytes of a host and of a port, and those they never contain.\<close>

lemma host_ok_plain:
  assumes "host_ok b h"
  shows "list_all host_plain h"
  unfolding list_all_iff
proof
  fix c assume "c \<in> set h"
  then have "is_hex c \<or> c = CHR '':'' \<or> c = CHR ''.'' \<or> is_alnum c \<or> c \<in> set name_marks \<or> 128 \<le> byte c"
    using assms by (auto simp: host_ok_def list_all_iff split: if_splits)
  moreover have "128 \<le> byte c \<Longrightarrow> host_plain c" by (auto simp: host_plain_def byte_def)
  ultimately show "host_plain c" using marks_plain alnum_plain hex_alnum by blast
qed

lemma host_ok_avoids:
  assumes "host_ok False h"
  shows "CHR '':'' \<notin> set h" "CHR ''['' \<notin> set h" "CHR '']'' \<notin> set h"
proof -
  have "c \<notin> set h" if "\<not> is_alnum c" "c \<notin> set name_marks" "byte c < 128" for c
    using assms that by (auto simp: host_ok_def list_all_iff)
  then show "CHR '':'' \<notin> set h" "CHR ''['' \<notin> set h" "CHR '']'' \<notin> set h"
    by (simp_all add: char_class_defs name_marks_def)
qed

lemma hex_avoids:
  assumes "host_ok True h"
  shows "CHR ''['' \<notin> set h" "CHR '']'' \<notin> set h"
  using assms by (auto simp: host_ok_def list_all_iff is_hex_def is_digit_def byte_def)

lemma digits_avoid:
  assumes "list_all is_digit p"
  shows "CHR '':'' \<notin> set p" "CHR ''['' \<notin> set p" "CHR '']'' \<notin> set p"
  using assms by (auto simp: list_all_iff is_digit_def byte_def)

lemma LastIndexByte_append: "c \<notin> set t \<Longrightarrow> LastIndexByte (s @ c # t) c = Some (length s)"
  by (simp add: LastIndexByte_def)

lemma LastIndexByte_None: "c \<notin> set s \<Longrightarrow> LastIndexByte s c = None"
  by (simp add: LastIndexByte_def)

lemma LastIndexByte_SomeD: "LastIndexByte s c = Some i \<Longrightarrow> i < length s \<and> s ! i = c"
  using IndexByte_SomeD[of "rev s" c] by (auto simp: LastIndexByte_def rev_nth)

lemma Index_None: "CHR ''%'' \<notin> set s \<Longrightarrow> Index s ''%25'' = None"
  by (induction s) auto

lemma host_text_plain:
  assumes "host_ok b h" "list_all is_digit p"
  shows "list_all host_plain (host_text b h p)"
proof -
  have "list_all host_plain h" by (rule host_ok_plain[OF assms(1)])
  moreover have "list_all host_plain p"
    using assms(2) digit_alnum alnum_plain by (auto simp: list_all_iff)
  ultimately show ?thesis by (simp add: host_text_def marks_plain)
qed

lemma validOptionalPort_text: "list_all is_digit p \<Longrightarrow> validOptionalPort (CHR '':'' # p)"
  by (simp add: validOptionalPort_def)

text \<open>A bracketed host with its port is taken apart at the closing bracket.\<close>

lemma bracket_split:
  assumes "host_ok True h" "list_all is_digit p"
  defines "q \<equiv> (if p = [] then [] else CHR '':'' # p)"
  shows "LastIndexByte (host_text True h p) (CHR '']'') = Some (Suc (length h))"
    "drop (Suc (Suc (length h))) (host_text True h p) = q" "validOptionalPort q"
proof -
  have t: "host_text True h p = (CHR ''['' # h) @ CHR '']'' # q" by (simp add: host_text_def q_def)
  have "CHR '']'' \<notin> set q" using digits_avoid[OF assms(2)] by (simp add: q_def)
  then show "LastIndexByte (host_text True h p) (CHR '']'') = Some (Suc (length h))"
    unfolding t by (subst LastIndexByte_append) simp_all
  show "drop (Suc (Suc (length h))) (host_text True h p) = q" unfolding t by simp
  show "validOptionalPort q" using assms(2) by (simp add: q_def validOptionalPort_def)
qed

lemma parseHost_text:
  assumes "host_ok b h" "list_all is_digit p"
  shows "parseHost (host_text b h p) = Inr (host_text b h p)"
proof (cases b)
  case True
  have plain: "list_all host_plain (host_text b h p)" by (rule host_text_plain[OF assms])
  then have "CHR ''%'' \<notin> set (host_text b h p)" by (auto simp: list_all_iff host_plain_def)
  then have i: "Index (take n (host_text b h p)) ''%25'' = None" for n
    by (intro Index_None) (meson in_set_takeD)
  have "HasPrefix (host_text b h p) ''[''" using True by (simp add: host_text_def)
  with bracket_split[of h p] True assms i unescape_host_plain[OF plain] show ?thesis
    by (simp add: parseHost_def)
next
  case False
  have u: "unescape encodeHost (host_text b h p) = Inr (host_text b h p)"
    by (rule unescape_host_plain[OF host_text_plain[OF assms]])
  have a: "CHR '':'' \<notin> set h" "CHR ''['' \<notin> set h" using host_ok_avoids assms False by auto
  then have n: "\<not> HasPrefix (host_text b h p) ''[''"
    using False by (cases h) (auto simp: host_text_def)
  show ?thesis
  proof (cases "p = []")
    case True
    with a False u n show ?thesis by (simp add: parseHost_def host_text_def LastIndexByte_None)
  next
    case p: False
    have "LastIndexByte (host_text b h p) (CHR '':'') = Some (length h)"
      "drop (length h) (host_text b h p) = CHR '':'' # p"
      using p False digits_avoid[OF assms(2)] by (simp_all add: host_text_def LastIndexByte_append)
    with u n validOptionalPort_text[OF assms(2)] show ?thesis by (simp add: parseHost_def)
  qed
qed

lemma strip_brackets:
  assumes "host_ok b h"
  defines "w \<equiv> (if b then CHR ''['' # h @ '']'' else h)"
  shows "(if HasPrefix w ''['' \<and> HasSuffix w '']'' then drop 1 (butlast w) else w) = h"
proof (cases b)
  case True
  then show ?thesis using HasSuffix_append[of "CHR ''['' # h" "'']''"] by (simp add: w_def)
next
  case False
  then have "host_ok False h" using assms by simp
  from host_ok_avoids(2)[OF this] have "\<not> HasPrefix h ''[''" by (cases h) auto
  with False show ?thesis by (simp add: w_def)
qed

text \<open>The colon of a host without a port is one of a bracketed address, and no port follows it.\<close>

lemma no_port:
  assumes "host_ok b h" and w: "w = (if b then CHR ''['' # h @ '']'' else h)"
    and i: "LastIndexByte w (CHR '':'') = Some i"
  shows "\<not> validOptionalPort (drop i w)"
proof (cases b)
  case True
  have "i < length w" "w ! i = CHR '':''" using LastIndexByte_SomeD[OF i] by auto
  then obtain r where r: "drop i w = CHR '':'' # r" by (metis Cons_nth_drop_Suc)
  have "last (drop i w) = CHR '']''" using True w \<open>i < length w\<close> by (simp add: last_drop)
  with r have "r \<noteq> [] \<and> last r = CHR '']''" by (auto split: if_splits)
  then have "CHR '']'' \<in> set r" by (metis last_in_set)
  then have "\<not> list_all is_digit r" using digits_avoid(3) by blast
  then show ?thesis unfolding r validOptionalPort_def by simp
next
  case False
  with assms host_ok_avoids show ?thesis by (simp add: LastIndexByte_None)
qed

lemma splitHostPort_text:
  assumes "host_ok b h" "list_all is_digit p"
  shows "splitHostPort (host_text b h p) = (h, p)"
proof -
  define w where "w = (if b then CHR ''['' # h @ '']'' else h)"
  note strip = strip_brackets[OF assms(1), folded w_def]
  show ?thesis
  proof (cases "p = []")
    case False
    then have t: "host_text b h p = w @ CHR '':'' # p" by (simp add: host_text_def w_def)
    have "LastIndexByte (w @ CHR '':'' # p) (CHR '':'') = Some (length w)"
      using digits_avoid[OF assms(2)] by (simp add: LastIndexByte_append)
    with strip validOptionalPort_text[OF assms(2)] show ?thesis
      unfolding t splitHostPort_def Let_def by (simp del: HasPrefix_simps)
  next
    case True
    then have t: "host_text b h p = w" by (simp add: host_text_def w_def)
    show ?thesis
    proof (cases "LastIndexByte w (CHR '':'')")
      case None
      with strip True show ?thesis unfolding t splitHostPort_def Let_def by (simp del: HasPrefix_simps)
    next
      case (Some i)
      with no_port[OF assms(1) w_def] strip True show ?thesis
        unfolding t splitHostPort_def Let_def by (simp del: HasPrefix_simps)
    qed
  qed
qed

section \<open>The round trip\<close>

lemma Cut_append: "c \<notin> set s \<Longrightarrow> Cut (s @ c # t) c = (s, t)"
  by (simp add: Cut_def)

lemma Cut_absent: "c \<notin> set s \<Longrightarrow> Cut s c = (s, [])"
  by (simp add: Cut_def IndexByte_None_iff[THEN iffD2])

lemma takeWhile_until: "x \<notin> set s \<Longrightarrow> t = [] \<or> hd t = x \<Longrightarrow> takeWhile (\<lambda>c. c \<noteq> x) (s @ t) = s"
proof (induction s)
  case Nil
  then show ?case by (cases t) auto
qed auto

lemma bind_sum_Inr [simp]: "bind_sum (Inr x) f = f x"
  by (simp add: bind_sum_def)

lemma parseUser_text:
  "user_text (Some i) = u @ ''@'' \<Longrightarrow> parseUser u = Inr i"
proof -
  assume u: "user_text (Some i) = u @ ''@''"
  have un: "unescape encodeUserPassword (escape encodeUserPassword s) = Inr s" for s
    by (simp add: unescape_escape)
  show ?thesis
  proof (cases "password i")
    case None
    with u have "u = escape encodeUserPassword (username i)" by (simp add: user_text_def)
    with None escape_validUserinfo[of "username i"] un show ?thesis
      by (simp add: parseUser_def validUserinfo_def)
  next
    case (Some p)
    with u have t: "u = escape encodeUserPassword (username i) @ CHR '':'' # escape encodeUserPassword p"
      by (simp add: user_text_def)
    have "CHR '':'' \<in> set userinfo_marks" by (simp add: userinfo_marks_def)
    then have "validUserinfo u"
      using escape_validUserinfo[of "username i"] escape_validUserinfo[of p] t
      by (simp add: validUserinfo_def)
    with t Some un show ?thesis by (simp add: parseUser_def Cut_append)
  qed
qed

lemma user_text_avoids:
  "c \<in> {CHR ''#'', CHR ''?'', CHR ''/''} \<Longrightarrow> c \<notin> set (user_text u)"
  by (auto simp: user_text_def split: option.splits)

lemma host_text_avoids:
  assumes "host_ok b h" "list_all is_digit p" "c \<in> {CHR ''#'', CHR ''?'', CHR ''/'', CHR ''@''}"
  shows "c \<notin> set (host_text b h p)"
proof
  assume "c \<in> set (host_text b h p)"
  then have "host_plain c" using host_text_plain[OF assms(1,2)] by (auto simp: list_all_iff)
  with assms(3) show False
    by (auto simp: host_plain_def shouldEscape_def char_class_defs host_marks_def)
qed

lemma parseAuthority_text:
  assumes "host_ok b h" "list_all is_digit p"
  shows "parseAuthority (user_text u @ host_text b h p) = Inr (u, host_text b h p)"
proof -
  have a: "CHR ''@'' \<notin> set (host_text b h p)" using host_text_avoids[OF assms] by blast
  show ?thesis
  proof (cases u)
    case None
    with a parseHost_text[OF assms] show ?thesis
      by (simp add: parseAuthority_def user_text_def LastIndexByte_None)
  next
    case (Some i)
    then obtain t where t: "user_text u = t @ ''@''" by (simp add: user_text_def)
    have "LastIndexByte (t @ CHR ''@'' # host_text b h p) (CHR ''@'') = Some (length t)"
      by (rule LastIndexByte_append[OF a])
    with parseHost_text[OF assms] parseUser_text[of i t] t Some show ?thesis
      by (simp add: parseAuthority_def)
  qed
qed

lemma split_query_text:
  assumes "CHR ''?'' \<notin> set r"
  shows "split_query (r @ (if q = [] then [] else CHR ''?'' # q)) = (r, q)"
proof (cases "q = []")
  case True
  have "count_list r (CHR ''?'') = 0" using assms by (simp add: count_list_0_iff)
  with True assms show ?thesis by (simp add: split_query_def Cut_absent)
next
  case False
  have "\<not> (HasSuffix (r @ CHR ''?'' # q) ''?'' \<and> count_list (r @ CHR ''?'' # q) (CHR ''?'') = 1)"
  proof
    assume h: "HasSuffix (r @ CHR ''?'' # q) ''?'' \<and> count_list (r @ CHR ''?'' # q) (CHR ''?'') = 1"
    then have "last (r @ CHR ''?'' # q) = CHR ''?''" using HasSuffix_split by (metis last_snoc)
    with False have "CHR ''?'' \<in> set q" by (metis last_ConsR last_append last_in_set list.distinct(1))
    with h show False by (simp add: count_list_0_iff)
  qed
  with False assms show ?thesis by (simp add: split_query_def Cut_append)
qed

lemma scheme_loop_text:
  assumes "list_all (\<lambda>c. is_lower c \<or> is_digit c \<or> c \<in> set ''+-.'') s" "seen \<noteq> []"
  shows "scheme_loop seen (s @ CHR '':'' # r) = Inr (seen @ s, r)"
  using assms
proof (induction s arbitrary: seen)
  case Nil
  then show ?case by (simp add: char_class_defs)
qed auto

lemma getScheme_text:
  assumes "parts_ok u"
  shows "getScheme (p_scheme u @ CHR '':'' # r) = Inr (p_scheme u, r)"
proof -
  obtain c s where "p_scheme u = c # s" "is_lower c"
    "list_all (\<lambda>c. is_lower c \<or> is_digit c \<or> c \<in> set ''+-.'') s"
    using assms unfolding parts_ok_def by (cases "p_scheme u") auto
  then show ?thesis using scheme_loop_text[of s "[c]" r] by (simp add: getScheme_def del: set_simps)
qed

lemma scheme_lower: "parts_ok u \<Longrightarrow> ToLower (p_scheme u) = p_scheme u"
proof -
  have "lower_byte c = c" if "is_lower c \<or> is_digit c \<or> c \<in> set ''+-.''" for c
    using that by (auto simp: lower_byte_def char_class_defs)
  then show "parts_ok u \<Longrightarrow> ToLower (p_scheme u) = p_scheme u"
    unfolding parts_ok_def ToLower_def list_all_iff by (intro map_idI) blast
qed

lemma parse_hierarchy_text:
  assumes "parts_ok u" "u_Scheme v \<noteq> []"
  shows "parse_hierarchy v (''//'' @ user_text (p_user u) @ host_text (p_bracket u) (p_host u) (p_port u) @
      escape encodePath (p_path u)) =
    Inr (v\<lparr>u_User := p_user u, u_Host := host_text (p_bracket u) (p_host u) (p_port u), u_Path := p_path u\<rparr>)"
proof -
  define a where "a = user_text (p_user u) @ host_text (p_bracket u) (p_host u) (p_port u)"
  have ok: "host_ok (p_bracket u) (p_host u)" "list_all is_digit (p_port u)"
    using assms unfolding parts_ok_def by auto
  have n: "CHR ''/'' \<notin> set a" using user_text_avoids host_text_avoids[OF ok] by (simp add: a_def)
  have p: "p_path u = [] \<or> hd (p_path u) = CHR ''/''" using assms unfolding parts_ok_def by auto
  have "\<not> shouldEscape encodePath (CHR ''/'')" by (simp add: shouldEscape_def host_marks_def)
  then have "escape encodePath (p_path u) = [] \<or> hd (escape encodePath (p_path u)) = CHR ''/''"
    using p by (cases "p_path u") (auto simp: escape_byte_def)
  then have t: "takeWhile (\<lambda>c. c \<noteq> CHR ''/'') (a @ escape encodePath (p_path u)) = a"
    using n by (intro takeWhile_until)
  have "parseAuthority a = Inr (p_user u, host_text (p_bracket u) (p_host u) (p_port u))"
    unfolding a_def by (rule parseAuthority_text[OF ok])
  with t assms(2) unescape_escape[of encodePath "p_path u"] show ?thesis
    by (simp add: parse_hierarchy_def Let_def flip: append_assoc a_def)
qed

lemma url_text_no_ctl:
  assumes "parts_ok u"
  shows "\<not> list_ex is_ctl (p_scheme u)" "\<not> list_ex is_ctl (user_text v)"
    "\<not> list_ex is_ctl (host_text (p_bracket u) (p_host u) (p_port u))"
proof -
  have s: "\<not> is_ctl c" if "is_lower c \<or> is_digit c \<or> c \<in> set ''+-.''" for c
    using that by (auto simp: is_ctl_def is_lower_def is_digit_def byte_def)
  then show "\<not> list_ex is_ctl (p_scheme u)"
    using assms unfolding parts_ok_def list_all_iff list_ex_iff by blast
  show "\<not> list_ex is_ctl (user_text v)"
    using escape_no_ctl by (auto simp: user_text_def is_ctl_def byte_def split: option.splits)
  have "list_all host_plain (host_text (p_bracket u) (p_host u) (p_port u))"
    using assms by (intro host_text_plain) (simp_all add: parts_ok_def)
  moreover have "\<not> is_ctl c" if "host_plain c" for c
    using that ctl_escaped[of c encodeHost] by (auto simp: host_plain_def is_ctl_def)
  ultimately show "\<not> list_ex is_ctl (host_text (p_bracket u) (p_host u) (p_port u))"
    unfolding list_all_iff list_ex_iff by blast
qed

lemma scheme_avoids:
  assumes "parts_ok u"
  shows "CHR ''#'' \<notin> set (p_scheme u)"
proof -
  have "\<not> (is_lower c \<or> is_digit c \<or> c \<in> set ''+-.'')" if "c = CHR ''#''" for c
    using that by (simp add: char_class_defs)
  then show ?thesis using assms unfolding parts_ok_def list_all_iff by blast
qed

text \<open>The URL of a text that was written from its parts.\<close>

definition parts_url :: "url_parts \<Rightarrow> url" where
  "parts_url u =
     \<lparr>u_Scheme = p_scheme u, u_User = p_user u, u_Host = host_text (p_bracket u) (p_host u) (p_port u),
      u_Path = p_path u, u_RawQuery = p_query u, u_Fragment = p_fragment u\<rparr>"

lemma url_parse_text:
  assumes "parts_ok u"
  shows "url_parse (p_scheme u @ ''://'' @ user_text (p_user u) @
      host_text (p_bracket u) (p_host u) (p_port u) @ escape encodePath (p_path u) @
      (if p_query u = [] then [] else CHR ''?'' # p_query u)) =
    Inr ((parts_url u)\<lparr>u_Fragment := []\<rparr>)"
proof -
  define r where "r = ''//'' @ user_text (p_user u) @ host_text (p_bracket u) (p_host u) (p_port u) @
      escape encodePath (p_path u)"
  define q where "q = (if p_query u = [] then [] else CHR ''?'' # p_query u)"
  have ok: "host_ok (p_bracket u) (p_host u)" "list_all is_digit (p_port u)" "p_scheme u \<noteq> []"
    "\<not> list_ex is_ctl (p_query u)"
    using assms unfolding parts_ok_def by auto
  have nq: "CHR ''?'' \<notin> set r"
    using user_text_avoids host_text_avoids[OF ok(1,2)] by (simp add: r_def)
  have "\<not> list_ex is_ctl (p_scheme u @ CHR '':'' # r @ q)"
    using url_text_no_ctl[OF assms] escape_no_ctl ok(4) by (simp add: r_def q_def is_ctl_def byte_def)
  moreover have "p_scheme u @ CHR '':'' # r @ q \<noteq> ''*''" using ok(3) by (cases "p_scheme u") auto
  ultimately show ?thesis
    using getScheme_text[OF assms, of "r @ q"] scheme_lower[OF assms] split_query_text[OF nq, of "p_query u"]
      parse_hierarchy_text[OF assms, folded r_def] ok(3)
    by (simp add: url_parse_def parts_url_def new_URL_def q_def r_def)
qed

lemma url_Parse_text:
  assumes "parts_ok u"
  shows "url_Parse (url_text u) = Inr (parts_url u)"
proof -
  define t where "t = p_scheme u @ ''://'' @ user_text (p_user u) @
      host_text (p_bracket u) (p_host u) (p_port u) @ escape encodePath (p_path u) @
      (if p_query u = [] then [] else CHR ''?'' # p_query u)"
  have ok: "host_ok (p_bracket u) (p_host u)" "list_all is_digit (p_port u)" "CHR ''#'' \<notin> set (p_query u)"
    using assms unfolding parts_ok_def by auto
  have n: "CHR ''#'' \<notin> set t"
    using scheme_avoids[OF assms] user_text_avoids host_text_avoids[OF ok(1,2)] ok(3) by (simp add: t_def)
  have p: "url_parse t = Inr ((parts_url u)\<lparr>u_Fragment := []\<rparr>)"
    unfolding t_def by (rule url_parse_text[OF assms])
  have e: "url_text u = t @ (if p_fragment u = [] then [] else CHR ''#'' # escape encodeFragment (p_fragment u))"
    by (simp add: url_text_def t_def)
  have i: "escape m s = [] \<longleftrightarrow> s = []" for m s by (cases s) (simp_all add: escape_byte_def)
  show ?thesis
    using n p i unescape_escape[of encodeFragment "p_fragment u"]
    by (cases "p_fragment u = []") (simp_all add: e url_Parse_def Cut_absent Cut_append parts_url_def)
qed

section \<open>Properties\<close>

text \<open>C36: \<^verbatim>\<open>parseURL\<close> gives back the parts a URL was written from. User name, password, path and fragment
  may hold any bytes, escaped where their place requires it; the host is a name (also with bytes
  outside ASCII) or a bracketed address, and the query is copied as it stands.\<close>

theorem parseURL_roundtrip:
  assumes "parts_ok u"
  shows "parseURL (GString (url_text u)) =
    GMapSA
      [(''scheme'', GString (p_scheme u)), (''host'', GString (p_host u)), (''port'', GString (p_port u)),
       (''path'', GString (p_path u)), (''query'', GString (p_query u)),
       (''fragment'', GString (p_fragment u)),
       (''username'', GString (case p_user u of None \<Rightarrow> [] | Some i \<Rightarrow> username i)),
       (''password'', GString (case p_user u of
          None \<Rightarrow> [] | Some i \<Rightarrow> (case password i of None \<Rightarrow> [] | Some p \<Rightarrow> p)))]"
proof -
  have "splitHostPort (host_text (p_bracket u) (p_host u) (p_port u)) = (p_host u, p_port u)"
    using assms by (intro splitHostPort_text) (simp_all add: parts_ok_def)
  with url_Parse_text[OF assms] show ?thesis
    by (simp add: parseURL_def stringOf_def parts_url_def Let_def)
qed

definition sample_parts :: url_parts where
  "sample_parts =
     \<lparr>p_scheme = ''https'', p_user = Some \<lparr>username = ''a@b'', password = Some ''p:w''\<rparr>,
      p_bracket = True, p_host = ''::1'', p_port = ''8443'', p_path = ''/x y?'', p_query = ''k=v'',
      p_fragment = ''f#''\<rparr>"

lemma sample_parts_text:
  "url_text sample_parts = ''https://a%40b:p%3Aw@[::1]:8443/x%20y%3F?k=v#f%23''"
  by code_simp

theorem parseURL_roundtrip_witness:
  "parts_ok sample_parts \<and>
   parseURL (GString ''https://a%40b:p%3Aw@[::1]:8443/x%20y%3F?k=v#f%23'') =
   GMapSA
     [(''scheme'', GString ''https''), (''host'', GString ''::1''), (''port'', GString ''8443''),
      (''path'', GString ''/x y?''), (''query'', GString ''k=v''), (''fragment'', GString ''f#''),
      (''username'', GString ''a@b''), (''password'', GString ''p:w'')]"
proof -
  have "parts_ok sample_parts" by code_simp
  from parseURL_roundtrip[OF this] this sample_parts_text show ?thesis
    by (simp add: sample_parts_def)
qed

end
