(* ===== verification/Cel_Library.thy ===== *)
theory Cel_Library
  imports Cel_Strings Cel_Data Cel_Url
begin

text \<open>
  \<^verbatim>\<open>internal/celenv\<close>: what the six libraries of the package declare to CEL. A library is a name with its
  functions, a function a list of overloads, and an overload an identifier with argument types, a result
  type and a binding. The bindings are the functions of the theories on addresses, URLs, globs and data;
  the clock, the decoders and the compiler of regular expressions are in the record \<open>lib_world\<close>. \<^verbatim>\<open>now\<close>, the
  one function of \<^verbatim>\<open>time.go\<close>, reads the clock.
\<close>

section \<open>Declarations\<close>

record overload =
  ov_id :: string
  ov_args :: "celtype list"
  ov_result :: celtype

record library =
  LibraryName :: string
  lib_functions :: "(string \<times> overload list) list"

definition Overload :: "string \<Rightarrow> celtype list \<Rightarrow> celtype \<Rightarrow> overload" where
  "Overload i args result = \<lparr>ov_id = i, ov_args = args, ov_result = result\<rparr>"

definition mapStringDyn :: celtype where
  "mapStringDyn = CelMap CelString CelDyn"

definition netLib :: library where
  "netLib =
     \<lparr>LibraryName = ''rv.net'',
      lib_functions =
        [(''inCIDR'', [Overload ''inCIDR_string_listofstring'' [CelString, CelList CelString] CelBool]),
         (''ipFamily'', [Overload ''ipFamily_string'' [CelString] CelString]),
         (''isPrivateIP'', [Overload ''isPrivateIP_string'' [CelString] CelBool]),
         (''isLoopbackIP'', [Overload ''isLoopbackIP_string'' [CelString] CelBool]),
         (''parseURL'', [Overload ''parseURL_string'' [CelString] mapStringDyn])]\<rparr>"

definition stringLib :: library where
  "stringLib =
     \<lparr>LibraryName = ''rv.strings'',
      lib_functions =
        [(''glob'', [Overload ''glob_string_string'' [CelString, CelString] CelBool]),
         (''globAny'', [Overload ''globAny_string_listofstring'' [CelString, CelList CelString] CelBool])]\<rparr>"

definition encodingLib :: library where
  "encodingLib =
     \<lparr>LibraryName = ''rv.encoding'',
      lib_functions =
        [(''sha256Hex'', [Overload ''sha256Hex_string'' [CelString] CelString]),
         (''parseJWTUnverified'', [Overload ''parseJWTUnverified_string'' [CelString] mapStringDyn])]\<rparr>"

definition timeLib :: library where
  "timeLib =
     \<lparr>LibraryName = ''rv.time'',
      lib_functions = [(''now'', [Overload ''now_no_args'' [] CelTimestamp])]\<rparr>"

definition dataLib :: library where
  "dataLib =
     \<lparr>LibraryName = ''rv.data'',
      lib_functions =
        [(''jsonPath'', [Overload ''jsonPath_dyn_string'' [CelDyn, CelString] (CelList CelDyn)]),
         (''parseJSON'', [Overload ''parseJSON_dyn'' [CelDyn] CelDyn]),
         (''parseYAML'', [Overload ''parseYAML_dyn'' [CelDyn] CelDyn])]\<rparr>"

definition httpShortLib :: library where
  "httpShortLib =
     (let mapStringListStr = CelMap CelString (CelList CelString);
          mapStringStr = CelMap CelString CelString
      in \<lparr>LibraryName = ''rv.http'',
          lib_functions =
            [(''has'', [Overload ''has_string_mapStringListString'' [CelString, mapStringListStr] CelBool]),
             (''firstOr'',
              [Overload ''firstOr_mapStringString_string_string''
                 [mapStringStr, CelString, CelString] CelString,
               Overload ''firstOr_mapStringListString_string_string''
                 [mapStringListStr, CelString, CelString] CelString])]\<rparr>)"

text \<open>The libraries in the order of \<^verbatim>\<open>New\<close>, and every overload with the function it belongs to.\<close>

definition own_libraries :: "library list" where
  "own_libraries = [netLib, stringLib, encodingLib, timeLib, dataLib, httpShortLib]"

definition own_overloads :: "overload list" where
  "own_overloads = concat (map (\<lambda>l. concat (map snd (lib_functions l))) own_libraries)"

section \<open>Bindings\<close>

text \<open>A value as a binding returns it: by the constructor of \<^verbatim>\<open>types\<close> it uses. The time is in nanoseconds
  since the epoch, which \<^verbatim>\<open>UTC()\<close> does not change.\<close>

datatype celval =
    TBool bool
  | TString string
  | TTimestamp int
  | TDynamicList "goval list"
  | TStringInterfaceMap "(string \<times> goval) list"
  | TNative goval                                  \<comment> \<open>\<^verbatim>\<open>NativeToValue\<close>\<close>

record lib_world =
  w_codec :: codec
  w_regexp :: re_compiler
  w_now :: int

fun as_map :: "goval \<Rightarrow> celval" where
  "as_map (GMapSA m) = TStringInterfaceMap m"
| "as_map v = TNative v"

text \<open>The binding of an overload, with the cache of compiled globs; None for an identifier or a number
  of arguments that no binding has.\<close>

definition call0 :: "lib_world \<Rightarrow> string \<Rightarrow> celval option" where
  "call0 w i = (if i = ''now_no_args'' then Some (TTimestamp (w_now w)) else None)"

definition call1 :: "lib_world \<Rightarrow> string \<Rightarrow> goval \<Rightarrow> celval option" where
  "call1 w i v =
     (if i = ''ipFamily_string'' then Some (TString (ipFamily v))
      else if i = ''isPrivateIP_string'' then Some (TBool (isPrivateIP v))
      else if i = ''isLoopbackIP_string'' then Some (TBool (isLoopbackIP v))
      else if i = ''parseURL_string'' then Some (as_map (parseURL v))
      else if i = ''sha256Hex_string'' then Some (TString (sha256Hex v))
      else if i = ''parseJWTUnverified_string'' then Some (as_map (parseJWTUnverified (w_codec w) v))
      else if i = ''parseJSON_dyn'' then Some (TNative (parseJSONFromAny (w_codec w) v))
      else if i = ''parseYAML_dyn'' then Some (TNative (parseYAMLFromAny (w_codec w) v))
      else None)"

definition call2 :: "lib_world \<Rightarrow> string \<Rightarrow> goval \<Rightarrow> goval \<Rightarrow> glob_cache \<Rightarrow> celval option \<times> glob_cache" where
  "call2 w i v1 v2 c =
     (if i = ''inCIDR_string_listofstring'' then (Some (TBool (inCIDR v1 v2)), c)
      else if i = ''glob_string_string'' then map_prod (Some \<circ> TBool) id (glob_fn (w_regexp w) v1 v2 c)
      else if i = ''globAny_string_listofstring'' then
        map_prod (Some \<circ> TBool) id (globAny (w_regexp w) v1 v2 c)
      else if i = ''jsonPath_dyn_string'' then (Some (TDynamicList (jsonPath_fn v1 v2)), c)
      else if i = ''has_string_mapStringListString'' then (Some (TBool (has_fn v1 v2)), c)
      else (None, c))"

definition call3 :: "string \<Rightarrow> goval \<Rightarrow> goval \<Rightarrow> goval \<Rightarrow> celval option" where
  "call3 i v1 v2 v3 =
     (if i = ''firstOr_mapStringString_string_string'' then Some (TString (firstOr_string v1 v2 v3))
      else if i = ''firstOr_mapStringListString_string_string'' then Some (TString (firstOr_list v1 v2 v3))
      else None)"

fun lib_call :: "lib_world \<Rightarrow> string \<times> goval list \<Rightarrow> glob_cache \<Rightarrow> celval option \<times> glob_cache" where
  "lib_call w (i, []) c = (call0 w i, c)"
| "lib_call w (i, [v]) c = (call1 w i v, c)"
| "lib_call w (i, [v1, v2]) c = call2 w i v1 v2 c"
| "lib_call w (i, [v1, v2, v3]) c = (call3 i v1 v2 v3, c)"
| "lib_call w (i, _) c = (None, c)"

text \<open>The calls that the expressions of a policy make one after the other.\<close>

fun lib_calls :: "lib_world \<Rightarrow> (string \<times> goval list) list \<Rightarrow> glob_cache \<Rightarrow> celval option list \<times> glob_cache" where
  "lib_calls w [] c = ([], c)"
| "lib_calls w (k # ks) c =
     (let (r, c') = lib_call w k c; (rs, c'') = lib_calls w ks c' in (r # rs, c''))"

section \<open>Types\<close>

text \<open>The CEL type of a value. The conversion of a native value is dynamic for the checker.\<close>

fun cel_type :: "celval \<Rightarrow> celtype" where
  "cel_type (TBool _) = CelBool"
| "cel_type (TString _) = CelString"
| "cel_type (TTimestamp _) = CelTimestamp"
| "cel_type (TDynamicList _) = CelList CelDyn"
| "cel_type (TStringInterfaceMap _) = CelMap CelString CelDyn"
| "cel_type (TNative _) = CelDyn"

lemma parseURL_map: "\<exists>m. parseURL v = GMapSA m"
  by (simp add: parseURL_def Let_def split: sum.split)

lemma parseJWT_map: "\<exists>m. parseJWTUnverified cd v = GMapSA m"
  by (simp add: parseJWTUnverified_def Let_def)

lemma as_map_type: "\<exists>m. v = GMapSA m \<Longrightarrow> cel_type (as_map v) = mapStringDyn"
  by (auto simp: mapStringDyn_def)

lemmas map_results = as_map_type[OF parseURL_map] as_map_type[OF parseJWT_map]

section \<open>Calls and the cache of globs\<close>

text \<open>What a call gives without a cache: a glob is matched against the expression it is translated to.\<close>

fun lib_value :: "lib_world \<Rightarrow> string \<times> goval list \<Rightarrow> celval option" where
  "lib_value w (i, [v1, v2]) =
     (if i = ''glob_string_string'' then
        Some (TBool (glob_answer (w_regexp w) (stringOf v1, stringOf v2)))
      else if i = ''globAny_string_listofstring'' then
        Some (TBool (\<exists>p \<in> set (case v2 of GRefSlice vs \<Rightarrow> vs | GSlice vs \<Rightarrow> vs | _ \<Rightarrow> []).
          (case p of GString g \<Rightarrow> glob_answer (w_regexp w) (stringOf v1, g) | _ \<Rightarrow> False)))
      else fst (call2 w i v1 v2 Map.empty))"
| "lib_value w (i, args) = fst (lib_call w (i, args) Map.empty)"

lemma glob_fn_answer:
  assumes "glob_cache_ok re c"
  shows "fst (glob_fn re s p c) = glob_answer re (stringOf s, stringOf p)"
    "glob_cache_ok re (snd (glob_fn re s p c))"
  using globs.ask_answer[OF assms, of "(stringOf s, stringOf p)"]
    globs.ask_valid[OF assms, of "(stringOf s, stringOf p)"]
  by (simp_all add: glob_fn_def)

lemma string_case: "(case v of GString g \<Rightarrow> f g | _ \<Rightarrow> False) \<longleftrightarrow> (\<exists>g. v = GString g \<and> f g)"
  by (cases v) auto

lemma some_glob:
  "(\<exists>p. GString p \<in> set vs \<and> f p) \<longleftrightarrow> (\<exists>v \<in> set vs. case v of GString g \<Rightarrow> f g | _ \<Rightarrow> False)"
  unfolding string_case by blast

lemma globAny_answer:
  assumes "glob_cache_ok re c"
  shows "fst (globAny re s v c) =
      (\<exists>p \<in> set (case v of GRefSlice vs \<Rightarrow> vs | GSlice vs \<Rightarrow> vs | _ \<Rightarrow> []).
         (case p of GString g \<Rightarrow> glob_answer re (stringOf s, g) | _ \<Rightarrow> False))"
    "glob_cache_ok re (snd (globAny re s v c))"
  using assms glob_any_loop_answer[OF assms]
  by (auto simp: globAny_def some_glob split: goval.splits)

lemma call2_answer:
  assumes "glob_cache_ok (w_regexp w) c"
  shows "fst (call2 w i v1 v2 c) = lib_value w (i, [v1, v2])"
    "glob_cache_ok (w_regexp w) (snd (call2 w i v1 v2 c))"
  using assms glob_fn_answer[OF assms] globAny_answer[OF assms] by (simp_all add: call2_def)

interpretation calls: memo "lib_call w" "lib_value w" "glob_cache_ok (w_regexp w)" for w
proof unfold_locales
  fix c k
  assume "glob_cache_ok (w_regexp w) c"
  note c2 = call2_answer[OF this]
  show "fst (lib_call w k c) = lib_value w k"
    using c2 by (cases "(w, k, c)" rule: lib_call.cases) simp_all
  show "glob_cache_ok (w_regexp w) (snd (lib_call w k c))"
    using c2 \<open>glob_cache_ok (w_regexp w) c\<close> by (cases "(w, k, c)" rule: lib_call.cases) simp_all
qed

lemma lib_calls_asks: "lib_calls w ks c = calls.asks w ks c"
  by (induction ks arbitrary: c) (simp_all add: split_beta Let_def)

section \<open>Properties\<close>

lemma own_overloads_simp:
  "own_overloads =
     [Overload ''inCIDR_string_listofstring'' [CelString, CelList CelString] CelBool,
      Overload ''ipFamily_string'' [CelString] CelString,
      Overload ''isPrivateIP_string'' [CelString] CelBool,
      Overload ''isLoopbackIP_string'' [CelString] CelBool,
      Overload ''parseURL_string'' [CelString] mapStringDyn,
      Overload ''glob_string_string'' [CelString, CelString] CelBool,
      Overload ''globAny_string_listofstring'' [CelString, CelList CelString] CelBool,
      Overload ''sha256Hex_string'' [CelString] CelString,
      Overload ''parseJWTUnverified_string'' [CelString] mapStringDyn,
      Overload ''now_no_args'' [] CelTimestamp,
      Overload ''jsonPath_dyn_string'' [CelDyn, CelString] (CelList CelDyn),
      Overload ''parseJSON_dyn'' [CelDyn] CelDyn,
      Overload ''parseYAML_dyn'' [CelDyn] CelDyn,
      Overload ''has_string_mapStringListString'' [CelString, CelMap CelString (CelList CelString)] CelBool,
      Overload ''firstOr_mapStringString_string_string''
        [CelMap CelString CelString, CelString, CelString] CelString,
      Overload ''firstOr_mapStringListString_string_string''
        [CelMap CelString (CelList CelString), CelString, CelString] CelString]"
  by (simp add: own_overloads_def own_libraries_def netLib_def stringLib_def encodingLib_def timeLib_def
      dataLib_def httpShortLib_def Let_def)

text \<open>A call of an overload with as many arguments as it declares gives a value of the type it declares.\<close>

definition well_typed :: "lib_world \<Rightarrow> glob_cache \<Rightarrow> overload \<Rightarrow> goval list \<Rightarrow> bool" where
  "well_typed w c ov args \<longleftrightarrow>
     (\<exists>v. fst (lib_call w (ov_id ov, args) c) = Some v \<and> cel_type v = ov_result ov)"

lemma well_typed0:
  "list_all (\<lambda>ov. ov_args ov = [] \<longrightarrow> well_typed w c ov []) own_overloads"
  unfolding own_overloads_simp by (simp add: Overload_def well_typed_def call0_def)

lemma well_typed1:
  "list_all (\<lambda>ov. length (ov_args ov) = 1 \<longrightarrow> well_typed w c ov [v]) own_overloads"
  unfolding own_overloads_simp by (simp add: Overload_def well_typed_def call1_def map_results)

lemma well_typed2:
  "list_all (\<lambda>ov. length (ov_args ov) = 2 \<longrightarrow> well_typed w c ov [v1, v2]) own_overloads"
  unfolding own_overloads_simp by (simp add: Overload_def well_typed_def call2_def)

lemma well_typed3:
  "list_all (\<lambda>ov. length (ov_args ov) = 3 \<longrightarrow> well_typed w c ov [v1, v2, v3]) own_overloads"
  unfolding own_overloads_simp by (simp add: Overload_def well_typed_def call3_def)

lemma arity_bound: "list_all (\<lambda>ov. length (ov_args ov) \<le> 3) own_overloads"
  unfolding own_overloads_simp by (simp add: Overload_def)

lemma short_list:
  "length xs \<le> 3 \<Longrightarrow>
   xs = [] \<or> (\<exists>a. xs = [a]) \<or> (\<exists>a b. xs = [a, b]) \<or> (\<exists>a b d. xs = [a, b, d])"
  by (cases xs; cases "tl xs"; cases "tl (tl xs)"; cases "tl (tl (tl xs))") auto

lemma overload_typed:
  assumes ov: "ov \<in> set own_overloads" and n: "length args = length (ov_args ov)"
  shows "well_typed w c ov args"
proof -
  have "length args \<le> 3" using ov n arity_bound by (simp add: list_all_iff)
  then consider "args = []" | v where "args = [v]" | v1 v2 where "args = [v1, v2]"
    | v1 v2 v3 where "args = [v1, v2, v3]"
    using short_list by blast
  then show ?thesis
  proof cases
    case 1
    with n have "ov_args ov = []" by simp
    with 1 ov well_typed0[of w c] show ?thesis by (simp add: list_all_iff)
  next
    case (2 v)
    with n ov well_typed1[of w c v] show ?thesis by (simp add: list_all_iff)
  next
    case (3 v1 v2)
    with n ov well_typed2[of w c v1 v2] show ?thesis by (simp add: list_all_iff)
  next
    case (4 v1 v2 v3)
    with n ov well_typed3[of w c v1 v2 v3] show ?thesis by (simp add: list_all_iff)
  qed
qed

text \<open>C22: The libraries declare what they implement. They are the ones that \<^verbatim>\<open>New\<close> enables, no two of their
  functions or overloads share a name, and every overload, called with as many arguments as it declares
  (of any dynamic type), gives a value of its declared result type, whatever the decoders, the
  regular expression compiler, the clock and the cache of globs are.\<close>

theorem libraries_typed:
  "map LibraryName own_libraries = drop 6 commonOpts \<and>
   distinct (concat (map (\<lambda>l. map fst (lib_functions l)) own_libraries)) \<and>
   distinct (map ov_id own_overloads) \<and>
   (\<forall>ov \<in> set own_overloads. \<forall>args. length args = length (ov_args ov) \<longrightarrow>
      (\<exists>v. fst (lib_call w (ov_id ov, args) c) = Some v \<and> cel_type v = ov_result ov))"
proof (intro conjI ballI allI impI)
  show "map LibraryName own_libraries = drop 6 commonOpts"
    by (simp add: own_libraries_def netLib_def stringLib_def encodingLib_def timeLib_def dataLib_def
        httpShortLib_def Let_def commonOpts_def)
  show "distinct (concat (map (\<lambda>l. map fst (lib_functions l)) own_libraries))" by code_simp
  show "distinct (map ov_id own_overloads)" by code_simp
  fix ov and args :: "goval list"
  assume "ov \<in> set own_overloads" "length args = length (ov_args ov)"
  then show "\<exists>v. fst (lib_call w (ov_id ov, args) c) = Some v \<and> cel_type v = ov_result ov"
    using overload_typed unfolding well_typed_def by blast
qed

definition sample_lib_world :: lib_world where
  "sample_lib_world = \<lparr>w_codec = token_codec, w_regexp = fragment_compiler, w_now = 0\<rparr>"

theorem libraries_typed_witness:
  "Overload ''parseURL_string'' [CelString] mapStringDyn \<in> set own_overloads \<and>
   (\<exists>v. fst (lib_call sample_lib_world (''parseURL_string'', [GInt 3]) Map.empty) = Some v \<and>
     cel_type v = CelMap CelString CelDyn)"
proof -
  have m: "Overload ''parseURL_string'' [CelString] mapStringDyn \<in> set own_overloads"
    unfolding own_overloads_simp by (simp only: list.set insert_iff simp_thms)
  from libraries_typed[of sample_lib_world Map.empty] m have
    "\<forall>args. length args = length (ov_args (Overload ''parseURL_string'' [CelString] mapStringDyn)) \<longrightarrow>
      (\<exists>v. fst (lib_call sample_lib_world
          (ov_id (Overload ''parseURL_string'' [CelString] mapStringDyn), args) Map.empty) = Some v \<and>
        cel_type v = ov_result (Overload ''parseURL_string'' [CelString] mapStringDyn))" by blast
  from spec[OF this, of "[GInt 3]"] m show ?thesis by (simp add: Overload_def mapStringDyn_def)
qed

text \<open>Calls of library functions are pure. However many calls are made and in whatever order, sharing
  the cache of compiled globs, each gives what it gives alone and without a cache: for a glob, the
  answer of the regular expression it translates to.\<close>

theorem library_calls_pure:
  "fst (lib_calls w ks Map.empty) = map (lib_value w) ks"
proof -
  have "glob_cache_ok (w_regexp w) Map.empty" by (simp add: glob_cache_ok_def)
  from calls.asks_answers[OF this] show ?thesis unfolding lib_calls_asks .
qed

text \<open>The bucket functions. On a bucket of lists, such as the headers, \<^verbatim>\<open>has\<close> tells whether the name has
  a value that is not empty, and the list overload of \<^verbatim>\<open>firstOr\<close> gives the first value unless it is empty.
  The string overload of \<^verbatim>\<open>firstOr\<close>, declared first, gives the default for every such bucket; and \<^verbatim>\<open>has\<close> is
  false for every name of a decoded document that holds a text.\<close>

theorem bucket_functions:
  "(has_fn (GString n) (GMapSL b) \<longleftrightarrow> (\<exists>vs. map_of b n = Some vs \<and> (\<exists>v \<in> set vs. v \<noteq> []))) \<and>
   firstOr_list (GMapSL b) (GString n) (GString d) =
     (case map_of b n of Some (v # vs) \<Rightarrow> if v = [] then d else v | _ \<Rightarrow> d) \<and>
   firstOr_string (GMapSS m) (GString n) (GString d) =
     (case map_of m n of Some v \<Rightarrow> if v = [] then d else v | _ \<Rightarrow> d) \<and>
   firstOr_string (GMapSL b) (GString n) (GString d) = d \<and>
   (map_of doc n = Some (GString t) \<longrightarrow> \<not> has_fn (GString n) (GMapSA doc))"
proof -
  have a: "anyNonEmpty vs \<longleftrightarrow> (\<exists>v \<in> set vs. v \<noteq> [])" for vs by (induction vs) auto
  have "has_fn (GString n) (GMapSL b) \<longleftrightarrow> (\<exists>vs. map_of b n = Some vs \<and> (\<exists>v \<in> set vs. v \<noteq> []))"
    by (auto simp: has_fn_def stringOf_def a split: option.splits)
  moreover have "firstOr_list (GMapSL b) (GString n) (GString d) =
      (case map_of b n of Some (v # vs) \<Rightarrow> if v = [] then d else v | _ \<Rightarrow> d)"
    by (simp add: firstOr_list_def stringOf_def split: option.split list.split)
  moreover have "firstOr_string (GMapSS m) (GString n) (GString d) =
      (case map_of m n of Some v \<Rightarrow> if v = [] then d else v | _ \<Rightarrow> d)"
    by (simp add: firstOr_string_def stringOf_def split: option.split)
  ultimately show ?thesis by (simp add: firstOr_string_def has_fn_def stringOf_def)
qed

theorem bucket_functions_witness:
  "\<not> has_fn (GString ''error'') (GMapSA [(''error'', GString ''invalid_grant'')]) \<and>
   firstOr_string (GMapSL [(''x-a'', [''1''])]) (GString ''x-a'') (GString ''no'') = ''no''"
  using bucket_functions[of "''error''" "[]" "''no''" "[]" "[(''error'', GString ''invalid_grant'')]" "''invalid_grant''"]
    bucket_functions[of "''x-a''" "[(''x-a'', [''1''])]" "''no''" "[]" "[]" "[]"]
  by simp

end
