(* ===== verification/Spec2Isabelle.thy ===== *)
theory Spec2Isabelle
  imports Lifecycle Cel_Library
begin

text \<open>
  A verification development for \<^verbatim>\<open>request-validator\<close>, a service that decides on requests by a
  declarative policy. Envoy asks it in two ways: an HTTP endpoint (\<^verbatim>\<open>ext-authz\<close>) answers allow or deny, and
  a gRPC stream (\<^verbatim>\<open>ext-proc\<close>) answers each phase of an exchange with mutations. A policy is a YAML file of groups of
  rules with CEL expressions; it is loaded, validated and compiled, its facts (inline values, files, URLs
  that are fetched again and again) are started, and it can be replaced while the service runs.

  \<^bold>\<open>Theories and sources\<close> (below \<^verbatim>\<open>src/\<close>)

  \<^item> \<open>Go_Prelude\<close>, \<open>Go_Values\<close>, \<open>Go_Url\<close>, \<open>Go_Sha256\<close>: what the program uses of Go's standard library: bytes and
    strings, trimming, quoting, decimal numbers with 64-bit wrap-around, dynamic values, header maps
    (locale \<open>header_map\<close>, interpreted as \<open>hdr\<close>), queries, host and port, the hash function. A string is the list of
    its bytes; changing case is that of ASCII. A Go map is an association list, whose order is the order in which a
    range statement visits it; nothing is assumed of that order. \<open>go\<close> is the option type whose None is a panic.
  \<^item> \<open>Jsonpath\<close>: \<^verbatim>\<open>internal/jsonpath/jsonpath.go\<close>. The compiler of selectors as a loop over the text, the evaluator, the insertion sort.
  \<^item> \<open>Celenv\<close>: \<^verbatim>\<open>internal/celenv/env.go\<close>. Environments, program cache (locale \<open>memo\<close>, interpreted as \<open>progs\<close>), typed compilers
    and evaluators, over the record \<open>cel_lib\<close> of the operations of \<^verbatim>\<open>cel-go\<close>.
  \<^item> \<open>Cel_Net\<close>, \<open>Cel_Url\<close>, \<open>Cel_Strings\<close>, \<open>Cel_Data\<close>: \<^verbatim>\<open>internal/celenv/net.go\<close> (with \<^verbatim>\<open>url.Parse\<close>), \<^verbatim>\<open>strings.go\<close>, and
    \<^verbatim>\<open>http.go\<close>, \<^verbatim>\<open>data.go\<close>, \<^verbatim>\<open>encoding.go\<close>: the functions that policies can call, on what \<^verbatim>\<open>Value()\<close> gives of
    their arguments. The cache of globs is the second interpretation of \<open>memo\<close>.
  \<^item> \<open>Cel_Library\<close>: the declarations of the six libraries of \<^verbatim>\<open>internal/celenv\<close> (names, overloads, types), the calls
    of their bindings (third interpretation of \<open>memo\<close>, as \<open>calls\<close>) and \<^verbatim>\<open>now\<close> of \<^verbatim>\<open>time.go\<close>.
  \<^item> \<open>Facts\<close>: \<^verbatim>\<open>internal/facts/facts.go\<close>. The registry as a record with the goroutines it counts; its life is the
    step relation \<open>reg_step\<close>; what clients rely on is the locale \<open>fact_source\<close>, interpreted as \<open>reg\<close>.
  \<^item> \<open>Policy_Config\<close>, \<open>Policy_Valid\<close>, \<open>Policy_Load\<close>, \<open>Policy_Vars\<close>, \<open>Policy_Eval\<close>: \<^verbatim>\<open>internal/policy/policy.go\<close>: types,
    defaults and validation with its specification \<open>valid_config\<close>; loading and compilation; the variables of
    an evaluation; the ext-authz evaluator with its specification.
  \<^item> \<open>Extproc\<close>: \<^verbatim>\<open>internal/policy/extproc.go\<close>. The evaluation of one phase to resolved mutations.
  \<^item> \<open>Go_Log\<close>, \<open>Accesslog\<close>: \<^verbatim>\<open>internal/log/log.go\<close> and \<^verbatim>\<open>internal/accesslog/accesslog.go\<close>.
  \<^item> \<open>Metrics\<close>: \<^verbatim>\<open>internal/httpserver/metrics.go\<close>, with the interleaving of concurrent calls.
  \<^item> \<open>Policy_Slot\<close>: the locale \<open>policy_slot\<close> of an atomic pointer to the active policy, interpreted by both servers.
  \<^item> \<open>Httpserver\<close>: \<^verbatim>\<open>internal/httpserver/server.go\<close>: the handler as a sequence of actions on response, counters and
    log, and the routes.
  \<^item> \<open>Grpcserver\<close>: \<^verbatim>\<open>internal/grpcserver/server.go\<close>: the stream loop over the events of a stream, and the building of responses.
  \<^item> \<open>Configwatch\<close>: \<^verbatim>\<open>internal/configwatch/watch.go\<close>: events, debounce timer and callback over a clock.
  \<^item> \<open>Reload\<close>: \<^verbatim>\<open>cmd/main.go\<close>: start, concurrent reloads as threads over a heap of policies, release of the policy.
  \<^item> \<open>Lifecycle\<close>: the rest of \<^verbatim>\<open>cmd/main.go\<close> with \<^verbatim>\<open>Run\<close> and \<^verbatim>\<open>Stop\<close> of both servers: the process with its servers, the
    watcher, the reloads and the main goroutine as the step relation \<open>proc_step\<close>, and its infinite
    runs (\<open>run_of\<close>) with what is asked of the scheduler, the clock, the streams and the fetchers.

  \<^bold>\<open>What is shown.\<close> A policy that loads is exactly one that satisfies the documented rules, and its programs are the
  compilations of its texts in the right scope, with none where there is no text. The two evaluators refine specifications that
  are written over lists of groups and rules, and never panic on a loaded policy. Apart from its three operational paths the endpoint answers 200 only when the policy says
  so; a stream answers every message once; mutations in dry run have no effect; what is resolved is
  legal in its phase. Facts stay populated, and stopping drains. Counters lose no update. Reloads
  serve only accepted policies, stop each replaced policy once and can always finish, although two at once
  can leave the servers with different policies. Watching debounces and loses no change, and the reloads
  the watcher begins are its callbacks. After a signal every fair run gets to the exit, whatever else goes on, once the streams of the
  closing gRPC server end; as long as one of them stays open the policy is not stopped. The exit code tells a shutdown from a
  failed start or a failed server. No configuration silences errors, and logs hide what is to be hidden. The
  functions of the expression language do what they say: networks by their leading bits, globs by their
  pieces, tokens, URLs and selectors by round trips; and every one of them gives a value of the type it is declared with, whatever its arguments.

  \<^bold>\<open>Termination.\<close> Every function is total: loops are recursive functions on their data, with a measure where they are not structural. There is no
  fuel, except that \<open>run_reload\<close> counts the eight actions of a reload, after which it is proved to be done. The waiting
  of \<^verbatim>\<open>Stop\<close> and the timers are steps that may or may not be taken; that the shutdown comes to an end is a theorem about infinite runs of
  the step relation, under fairness assumptions that its statement lists.

  \<^bold>\<open>Ranges.\<close> The validation does not bound the numbers of a policy. Outside \<open>sane_config\<close> the handler can panic (a negative body limit, a
  status that \<^verbatim>\<open>net/http\<close> refuses), and outside \<open>reveal_ok\<close> the masking of a header can; the statements that need them say so.

  \<^bold>\<open>Parameters.\<close> \<^verbatim>\<open>cel-go\<close>, the YAML and JSON decoders, the regular expression compiler, the file system, the environment, the network
  and the random source are arguments. The programs of \<^verbatim>\<open>cel-go\<close> are functions of a context and of the variables: one
  evaluation of a request sees one context, so that a program gives one answer during it.
  Of what the YAML decoder answers only the exported fields are taken (\<open>exported_fields\<close>). For the regular expressions there is the hypothesis \<open>compiles_globs\<close>, satisfied by \<open>fragment_compiler\<close>.

  \<^bold>\<open>Not modelled.\<close> The bytes on the connections: \<^verbatim>\<open>net/http\<close> and \<^verbatim>\<open>grpc\<close> are present by what they document of serving and
  shutting down. The text that the JSON handler of \<^verbatim>\<open>log/slog\<close> writes for a record (the record it gets is modelled), and the texts of
  durations and times, which are arguments. The parsing of the command line. How \<^verbatim>\<open>cel-go\<close> checks an expression and chooses
  among overloads. The case tables of Unicode. A loading or a start of facts is one action of a reload.
\<close>

section \<open>The service as a whole\<close>




end
